(* ===== verification/Prelude.thy ===== *)
theory Prelude
  imports Main "HOL-Library.Word" "HOL-Library.Char_ord" "HOL-Library.List_Lexorder"
begin

text \<open>
  Shared material of the development: decimal formatting (\<open>strconv.FormatInt\<close> and the
  \<open>%d\<close> verb), string slicing with its run-time panic, ASCII case folding, white-space
  trimming, the "first error wins" combinator for a chain of early returns, and the
  generic list and word facts the component theories use.
\<close>

named_theorems const_defs \<open>the unfolding equations of the program's integer constants\<close>
named_theorems op_defs \<open>the unfolding equations of one-line operations\<close>

section \<open>Decimal formatting\<close>

definition digit :: "nat \<Rightarrow> char" where
  "digit d = char_of (48 + d)"

fun ntoa :: "nat \<Rightarrow> string" where
  "ntoa n = (if n < 10 then [digit n] else ntoa (n div 10) @ [digit (n mod 10)])"

declare ntoa.simps [simp del]

definition itoa :: "int \<Rightarrow> string" where
  "itoa i = (if i < 0 then CHR ''-'' # ntoa (nat (- i)) else ntoa (nat i))"

lemma ntoa_nonempty [simp]: "ntoa n \<noteq> []"
  by (subst ntoa.simps) simp

section \<open>Slicing a string\<close>

text \<open>
  Go's \<open>s[lo:hi]\<close> panics unless \<open>0 \<le> lo \<le> hi \<le> len(s)\<close>; \<open>None\<close> is that panic.
\<close>

definition substr :: "string \<Rightarrow> nat \<Rightarrow> nat \<Rightarrow> string option" where
  "substr s lo hi =
     (if lo \<le> hi \<and> hi \<le> length s then Some (take (hi - lo) (drop lo s)) else None)"

section \<open>Case folding and blanks\<close>

definition is_ascii :: "char \<Rightarrow> bool" where
  "is_ascii c \<longleftrightarrow> (of_char c :: nat) < 128"

definition ascii_lower :: "char \<Rightarrow> char" where
  "ascii_lower c =
     (let n = (of_char c :: nat) in if 65 \<le> n \<and> n \<le> 90 then char_of (n + 32) else c)"

text \<open>
  \<open>strings.ToLower\<close> lower-cases an all-ASCII string byte by byte and hands any other string
  to the Unicode tables. Those tables are the argument \<open>ul\<close>; no lemma assumes anything
  of it.
\<close>

definition ToLower :: "(string \<Rightarrow> string) \<Rightarrow> string \<Rightarrow> string" where
  "ToLower ul s = (if list_all is_ascii s then map ascii_lower s else ul s)"

text \<open>
  \<open>strings.TrimSpace\<close> removes the runes of \<open>unicode.IsSpace\<close> at both ends. It leaves the
  empty string exactly if trimming on the left alone does, so the left trim, on the UTF-8
  bytes, is what a test against the empty string needs. The patterns are the UTF-8
  encodings of the Unicode spaces.
\<close>

definition space1 :: "nat \<Rightarrow> bool" where
  "space1 a \<longleftrightarrow> (9 \<le> a \<and> a \<le> 13) \<or> a = 32"

definition space2 :: "nat \<Rightarrow> nat \<Rightarrow> bool" where
  "space2 a b \<longleftrightarrow> a = 194 \<and> (b = 133 \<or> b = 160)"

definition space3 :: "nat \<Rightarrow> nat \<Rightarrow> nat \<Rightarrow> bool" where
  "space3 a b c \<longleftrightarrow>
     (a = 225 \<and> b = 154 \<and> c = 128) \<or>
     (a = 226 \<and> b = 128 \<and> (128 \<le> c \<and> c \<le> 138 \<or> c = 168 \<or> c = 169 \<or> c = 175)) \<or>
     (a = 226 \<and> b = 129 \<and> c = 159) \<or>
     (a = 227 \<and> b = 128 \<and> c = 128)"

fun trim_left :: "nat list \<Rightarrow> nat list" where
  "trim_left (a # b # c # s) =
     (if space1 a then trim_left (b # c # s)
      else if space2 a b then trim_left (c # s)
      else if space3 a b c then trim_left s
      else a # b # c # s)"
| "trim_left [a, b] =
     (if space1 a then trim_left [b] else if space2 a b then [] else [a, b])"
| "trim_left [a] = (if space1 a then [] else [a])"
| "trim_left [] = []"

definition blank :: "string \<Rightarrow> bool" where
  "blank s \<longleftrightarrow> trim_left (map of_char s) = []"

lemma blank_Nil [simp]: "blank []"
  by (simp add: blank_def)

lemma trim_left_ascii:
  "list_all (\<lambda>a. a < 128) s \<Longrightarrow> trim_left s = dropWhile space1 s"
  by (induction s rule: trim_left.induct) (auto simp: space2_def space3_def)

text \<open>On ASCII strings a blank is a string of tabs, line ends and spaces only.\<close>

lemma blank_ascii: "list_all is_ascii s \<Longrightarrow> blank s \<longleftrightarrow> (\<forall>c \<in> set s. space1 (of_char c))"
  by (simp add: blank_def trim_left_ascii list_all_iff is_ascii_def dropWhile_eq_Nil_conv)

section \<open>Chains of early returns\<close>

text \<open>
  A Go function of the shape \<open>if c1 { return e1 }; if c2 { return e2 }; ...; return nil\<close>
  returns the first error of the list of its checks.
\<close>

fun first_error :: "'e option list \<Rightarrow> 'e option" where
  "first_error [] = None"
| "first_error (None # es) = first_error es"
| "first_error (Some e # es) = Some e"

definition fail_if :: "bool \<Rightarrow> 'e \<Rightarrow> 'e option" where
  "fail_if b e = (if b then Some e else None)"

lemma fail_if_None [simp]: "fail_if b e = None \<longleftrightarrow> \<not> b"
  by (simp add: fail_if_def)

lemma fail_if_Some: "fail_if b e = Some x \<longleftrightarrow> b \<and> x = e"
  by (auto simp: fail_if_def)

lemma fail_if_simps [simp]: "fail_if True e = Some e" "fail_if False e = None"
  by (simp_all add: fail_if_def)

lemma first_error_None: "first_error es = None \<longleftrightarrow> (\<forall>e \<in> set es. e = None)"
  by (induction es rule: first_error.induct) auto

lemma first_error_Cons:
  "first_error (e # es) = (case e of None \<Rightarrow> first_error es | Some x \<Rightarrow> Some x)"
  by (cases e) auto

lemma first_error_in: "first_error es = Some e \<Longrightarrow> Some e \<in> set es"
  by (induction es rule: first_error.induct) auto

section \<open>Lists\<close>

lemma sorted_wrt_adj_distinct:
  "sorted xs \<Longrightarrow> distinct (remdups_adj xs)"
  by (induction xs rule: remdups_adj.induct) (force split: if_splits)+

lemma remdups_adj_strict: "sorted xs \<Longrightarrow> sorted_wrt (<) (remdups_adj xs)"
  by (simp add: strict_sorted_iff sorted_remdups_adj sorted_wrt_adj_distinct)

lemma remdups_adj_id: "distinct xs \<Longrightarrow> remdups_adj xs = xs"
  by (induction xs rule: remdups_adj.induct) auto

lemma remdups_adj_sort_distinct: "distinct xs \<Longrightarrow> remdups_adj (sort xs) = sort xs"
  by (simp add: remdups_adj_id)

lemma remdups_adj_shrinks:
  "sorted xs \<Longrightarrow> \<not> distinct xs \<Longrightarrow> length (remdups_adj xs) < length xs"
  by (metis distinct_card le_neq_implies_less remdups_adj_length remdups_adj_set
      card_distinct sorted_wrt_adj_distinct)

lemma compact_gap:
  "length xs - length (remdups_adj (sort xs)) = 0 \<longleftrightarrow> distinct xs"
  using remdups_adj_shrinks [of "sort xs"]
  by (cases "distinct xs") (simp_all add: remdups_adj_sort_distinct)

end
