(* ===== verification/GoErrors.thy ===== *)
theory GoErrors
  imports Prelude
begin

text \<open>
  Go's \<open>error\<close> values. An error has an optional identity (the package-level variables, which
  \<open>errors.Is\<close> compares by pointer), the text of its format string with every verb but
  \<open>%w\<close> substituted, and the errors it wraps, in the order of its \<open>%w\<close> verbs. A function
  result \<open>error\<close> is \<open>goerr option\<close>, with \<open>None\<close> for nil.
\<close>

section \<open>Values\<close>

datatype sentinel =
    SPermanent        \<comment> \<open>\<open>exponential.ErrPermanent\<close>\<close>
  | SRetryCanceled    \<comment> \<open>\<open>exponential.ErrRetryCanceled\<close>\<close>
  | SCanceled         \<comment> \<open>\<open>context.Canceled\<close>\<close>
  | SEOF              \<comment> \<open>\<open>io.EOF\<close>\<close>
  | SValidation
  | SClientDead
  | SQueueFull
  | STooManyClosers

datatype goerr = GoErr (err_id: "sentinel option") (err_fmt: string) (err_wraps: "goerr list")

text \<open>\<open>errors.New\<close> and \<open>fmt.Errorf\<close> make a fresh value, equal to no package-level variable.\<close>

definition errorf :: "string \<Rightarrow> goerr list \<Rightarrow> goerr" where
  "errorf s ws = GoErr None s ws"

fun errors_is :: "goerr \<Rightarrow> sentinel \<Rightarrow> bool" where
  "errors_is (GoErr i s ws) t \<longleftrightarrow> i = Some t \<or> (\<exists>w \<in> set ws. errors_is w t)"

section \<open>The package-level errors\<close>

text \<open>The first four belong to the libraries; their text is their name.\<close>

definition ErrPermanent :: goerr where
  "ErrPermanent = GoErr (Some SPermanent) ''exponential.ErrPermanent'' []"

definition ErrRetryCanceled :: goerr where
  "ErrRetryCanceled = GoErr (Some SRetryCanceled) ''exponential.ErrRetryCanceled'' []"

definition Canceled :: goerr where
  "Canceled = GoErr (Some SCanceled) ''context.Canceled'' []"

definition EOF :: goerr where
  "EOF = GoErr (Some SEOF) ''io.EOF'' []"

definition ErrValidation :: goerr where
  "ErrValidation = GoErr (Some SValidation) ''validation error: %w'' [ErrPermanent]"

definition ErrClientDead :: goerr where
  "ErrClientDead = GoErr (Some SClientDead) ''audit client is dead: %w'' [ErrPermanent]"

definition ErrQueueFull :: goerr where
  "ErrQueueFull = GoErr (Some SQueueFull) ''queue full'' []"

definition errTooManyClosers :: goerr where
  "errTooManyClosers = GoErr (Some STooManyClosers) ''too many closers running'' []"

lemmas sentinel_defs = ErrPermanent_def ErrRetryCanceled_def Canceled_def EOF_def ErrValidation_def
  ErrClientDead_def ErrQueueFull_def errTooManyClosers_def

section \<open>What \<open>errors.Is\<close> answers\<close>

lemma errors_is_errorf [simp]: "errors_is (errorf s ws) t \<longleftrightarrow> (\<exists>w \<in> set ws. errors_is w t)"
  by (simp add: errorf_def)

lemma errors_is_sentinels [simp]:
  "errors_is ErrPermanent t \<longleftrightarrow> t = SPermanent"
  "errors_is ErrRetryCanceled t \<longleftrightarrow> t = SRetryCanceled"
  "errors_is Canceled t \<longleftrightarrow> t = SCanceled"
  "errors_is EOF t \<longleftrightarrow> t = SEOF"
  "errors_is ErrValidation t \<longleftrightarrow> t = SValidation \<or> t = SPermanent"
  "errors_is ErrClientDead t \<longleftrightarrow> t = SClientDead \<or> t = SPermanent"
  "errors_is ErrQueueFull t \<longleftrightarrow> t = SQueueFull"
  "errors_is errTooManyClosers t \<longleftrightarrow> t = STooManyClosers"
  by (auto simp: sentinel_defs)

abbreviation permanent :: "goerr \<Rightarrow> bool" where
  "permanent e \<equiv> errors_is e SPermanent"

end
