(* ===== verification/Stringer.thy ===== *)
theory Stringer
  imports Prelude GoErrors
begin

text \<open>
  The enumerations of the message format. Each is an unsigned integer type with named
  constants, a \<open>String\<close> method generated by \<open>stringer\<close> over a concatenated name table
  and an index table, and decoders that turn a name back into a constant through \<open>unString\<close>.
  The index tables keep the width of their element type.

  \<open>named_table\<close> is what a table must satisfy for the methods to work; every generated table is
  shown to satisfy it, and the round-trip facts are proved once from it.
\<close>

section \<open>Types and constants\<close>

type_synonym Type = "8 word"
type_synonym OperationType = "16 word"
type_synonym OperationCategory = "16 word"
type_synonym OperationResult = "16 word"
type_synonym CallerIdentityType = "16 word"

definition ATUnknown :: Type where "ATUnknown = 0"
definition DataPlane :: Type where "DataPlane = 1"
definition ControlPlane :: Type where "ControlPlane = 2"
definition Heartbeat :: Type where "Heartbeat = 3"
definition Diagnostic :: Type where "Diagnostic = 4"

definition OCOther :: OperationCategory where "OCOther = 1"
definition Failure :: OperationResult where "Failure = 2"

lemmas [const_defs] = ATUnknown_def DataPlane_def ControlPlane_def Heartbeat_def Diagnostic_def
  OCOther_def Failure_def

section \<open>The generic methods\<close>

text \<open>
  \<open>String\<close>: a value past the table prints as its type name and number; any other is a slice of
  the name table between two consecutive indices. \<open>None\<close> is a run-time panic.
\<close>

definition stringer_String ::
  "string \<Rightarrow> string \<Rightarrow> ('i::len) word list \<Rightarrow> ('r::len) word \<Rightarrow> string option" where
  "stringer_String tname names index i =
     (if word_of_nat (length index - 1) \<le> i
      then Some (tname @ ''('' @ itoa (uint i) @ '')'')
      else if Suc (unat i) < length index
      then substr names (unat (index ! unat i)) (unat (index ! Suc (unat i)))
      else None)"

text \<open>
  \<open>unString\<close>: compares the lower-cased input with each lower-cased name in turn and returns
  the position of the first match, or 0. \<open>None\<close> is a run-time panic of the slice expression.
\<close>

fun unString_loop ::
  "string \<Rightarrow> string \<Rightarrow> ('i::len) word list \<Rightarrow> nat \<Rightarrow> ('r::len) word option" where
  "unString_loop from l (a # b # index) i =
     (case substr l (unat a) (unat b) of
        None \<Rightarrow> None
      | Some n \<Rightarrow> if from = n then Some (word_of_nat i)
                  else unString_loop from l (b # index) (Suc i))"
| "unString_loop from l _ i = Some 0"

definition unString ::
  "(string \<Rightarrow> string) \<Rightarrow> string \<Rightarrow> string \<Rightarrow> ('i::len) word list \<Rightarrow> ('r::len) word option" where
  "unString ul from names index = unString_loop (ToLower ul from) (ToLower ul names) index 0"

section \<open>The generated tables\<close>

definition Type_name :: string where
  "Type_name = ''ATUnknownAsmAuditDPAsmAuditCPAsmAuditHBAsmAuditDG''"
definition Type_index :: "8 word list" where
  "Type_index = [0, 9, 19, 29, 39, 49]"

definition OperationType_name :: string where
  "OperationType_name = ''UnknownOperationTypeReadUpdateCreateDelete''"
definition OperationType_index :: "8 word list" where
  "OperationType_index = [0, 20, 24, 30, 36, 42]"

definition OperationCategory_name :: string where
  "OperationCategory_name = ''UnknownOperationCategoryOCOtherUserManagementGroupManagementAuthenticationAuthorizationRoleManagementApplicationManagementKeyManagementDirectoryManagementResourceManagementPolicyManagementDeviceManagementEntitlementManagementPasswordManagementIdentityProtectionObjectManagementProvisioningManagementCustomerFacingEUII''"
definition OperationCategory_index :: "16 word list" where
  "OperationCategory_index = [0, 24, 31, 45, 60, 74, 87, 101, 122, 135, 154, 172, 188, 204, 225, 243, 261, 277, 299, 313, 317]"

definition OperationResult_name :: string where
  "OperationResult_name = ''UnknownOperationResultSuccessFailure''"
definition OperationResult_index :: "8 word list" where
  "OperationResult_index = [0, 22, 29, 36]"

definition CallerIdentityType_name :: string where
  "CallerIdentityType_name = ''UnknownCallerIdentityTypeCIOtherUPNPUIDObjectIDCertificateClaimUsernameAccessKeyNameSubscriptionIDApplicationIDTenantIDTokenIDSasURLSystem''"
definition CallerIdentityType_index :: "8 word list" where
  "CallerIdentityType_index = [0, 25, 32, 35, 39, 47, 58, 63, 71, 84, 98, 111, 119, 126, 132, 138]"

lemmas table_defs = Type_name_def Type_index_def OperationType_name_def OperationType_index_def
  OperationCategory_name_def OperationCategory_index_def OperationResult_name_def
  OperationResult_index_def CallerIdentityType_name_def CallerIdentityType_index_def

definition Type_String :: "Type \<Rightarrow> string option" where
  "Type_String = stringer_String ''Type'' Type_name Type_index"
definition OperationType_String :: "OperationType \<Rightarrow> string option" where
  "OperationType_String = stringer_String ''OperationType'' OperationType_name OperationType_index"
definition OperationCategory_String :: "OperationCategory \<Rightarrow> string option" where
  "OperationCategory_String =
     stringer_String ''OperationCategory'' OperationCategory_name OperationCategory_index"
definition OperationResult_String :: "OperationResult \<Rightarrow> string option" where
  "OperationResult_String =
     stringer_String ''OperationResult'' OperationResult_name OperationResult_index"
definition CallerIdentityType_String :: "CallerIdentityType \<Rightarrow> string option" where
  "CallerIdentityType_String =
     stringer_String ''CallerIdentityType'' CallerIdentityType_name CallerIdentityType_index"


section \<open>The decoders\<close>

text \<open>
  \<open>enc\<close> is \<open>msgpack.Marshal\<close> on a string, a library function; bytes are characters. The result
  of a decoder is \<open>None\<close> if a slice expression panics, else an error or the decoded value.
\<close>

definition enum_MarshalMsgpack ::
  "(string \<Rightarrow> goerr + string) \<Rightarrow> ('r \<Rightarrow> string option) \<Rightarrow> 'r \<Rightarrow> (goerr + string) option" where
  "enum_MarshalMsgpack enc to_string v = map_option enc (to_string v)"

definition enum_UnmarshalMsgpack ::
  "(string \<Rightarrow> string) \<Rightarrow> string \<Rightarrow> string \<Rightarrow> ('i::len) word list \<Rightarrow> string
     \<Rightarrow> (goerr + ('r::len) word) option" where
  "enum_UnmarshalMsgpack ul tname names index b =
     (if length b < 2
      then Some (Inl (errorf (tname @ '': msgpack data too short ('' @ itoa (int (length b)) @
             '' bytes)'') []))
      else map_option Inr (unString ul (drop 1 b) names index))"

definition is_quote :: "char \<Rightarrow> bool" where
  "is_quote c \<longleftrightarrow> (of_char c :: nat) = 34 \<or> (of_char c :: nat) = 39"

definition Trim_quotes :: "string \<Rightarrow> string" where
  "Trim_quotes b = rev (dropWhile is_quote (rev (dropWhile is_quote b)))"

definition enum_UnmarshalJSON ::
  "(string \<Rightarrow> string) \<Rightarrow> string \<Rightarrow> ('i::len) word list \<Rightarrow> string
     \<Rightarrow> (goerr + ('r::len) word) option" where
  "enum_UnmarshalJSON ul names index b = map_option Inr (unString ul (Trim_quotes b) names index)"

definition OperationType_MarshalMsgpack ::
  "(string \<Rightarrow> goerr + string) \<Rightarrow> OperationType \<Rightarrow> (goerr + string) option" where
  "OperationType_MarshalMsgpack enc v = enum_MarshalMsgpack enc OperationType_String v"
definition OperationType_UnmarshalMsgpack ::
  "(string \<Rightarrow> string) \<Rightarrow> string \<Rightarrow> (goerr + OperationType) option" where
  "OperationType_UnmarshalMsgpack ul b =
     enum_UnmarshalMsgpack ul ''OperationType'' OperationType_name OperationType_index b"
definition OperationType_UnmarshalJSON ::
  "(string \<Rightarrow> string) \<Rightarrow> string \<Rightarrow> (goerr + OperationType) option" where
  "OperationType_UnmarshalJSON ul b =
     enum_UnmarshalJSON ul OperationType_name OperationType_index b"

definition OperationCategory_MarshalMsgpack ::
  "(string \<Rightarrow> goerr + string) \<Rightarrow> OperationCategory \<Rightarrow> (goerr + string) option" where
  "OperationCategory_MarshalMsgpack enc v = enum_MarshalMsgpack enc OperationCategory_String v"
definition OperationCategory_UnmarshalMsgpack ::
  "(string \<Rightarrow> string) \<Rightarrow> string \<Rightarrow> (goerr + OperationCategory) option" where
  "OperationCategory_UnmarshalMsgpack ul b =
     enum_UnmarshalMsgpack ul ''OperationCategory'' OperationCategory_name OperationCategory_index b"
definition OperationCategory_UnmarshalJSON ::
  "(string \<Rightarrow> string) \<Rightarrow> string \<Rightarrow> (goerr + OperationCategory) option" where
  "OperationCategory_UnmarshalJSON ul b =
     enum_UnmarshalJSON ul OperationCategory_name OperationCategory_index b"

definition OperationResult_MarshalMsgpack ::
  "(string \<Rightarrow> goerr + string) \<Rightarrow> OperationResult \<Rightarrow> (goerr + string) option" where
  "OperationResult_MarshalMsgpack enc v = enum_MarshalMsgpack enc OperationResult_String v"
definition OperationResult_UnmarshalMsgpack ::
  "(string \<Rightarrow> string) \<Rightarrow> string \<Rightarrow> (goerr + OperationResult) option" where
  "OperationResult_UnmarshalMsgpack ul b =
     enum_UnmarshalMsgpack ul ''OperationResult'' OperationResult_name OperationResult_index b"
definition OperationResult_UnmarshalJSON ::
  "(string \<Rightarrow> string) \<Rightarrow> string \<Rightarrow> (goerr + OperationResult) option" where
  "OperationResult_UnmarshalJSON ul b =
     enum_UnmarshalJSON ul OperationResult_name OperationResult_index b"

definition CallerIdentityType_MarshalMsgpack ::
  "(string \<Rightarrow> goerr + string) \<Rightarrow> CallerIdentityType \<Rightarrow> (goerr + string) option" where
  "CallerIdentityType_MarshalMsgpack enc v = enum_MarshalMsgpack enc CallerIdentityType_String v"
definition CallerIdentityType_UnmarshalMsgpack ::
  "(string \<Rightarrow> string) \<Rightarrow> string \<Rightarrow> (goerr + CallerIdentityType) option" where
  "CallerIdentityType_UnmarshalMsgpack ul b =
     enum_UnmarshalMsgpack ul ''CallerIdentityType'' CallerIdentityType_name CallerIdentityType_index b"
definition CallerIdentityType_UnmarshalJSON ::
  "(string \<Rightarrow> string) \<Rightarrow> string \<Rightarrow> (goerr + CallerIdentityType) option" where
  "CallerIdentityType_UnmarshalJSON ul b =
     enum_UnmarshalJSON ul CallerIdentityType_name CallerIdentityType_index b"

end
