(* ===== verification/StringerFacts.thy ===== *)
theory StringerFacts
  imports Stringer
begin

text \<open>
  What the enumeration tables guarantee. \<open>named_table\<close> states the laws of a well-formed table
  (its slices exist, they are ASCII, free of parentheses, and distinct up to case); the
  round-trip and totality facts are proved in it once and then read off for each of the
  generated tables.
\<close>

section \<open>Names of a table\<close>

fun table_segs :: "string \<Rightarrow> ('i::len) word list \<Rightarrow> string list option" where
  "table_segs names (a # b # index) =
     (case (substr names (unat a) (unat b), table_segs names (b # index)) of
        (Some n, Some ns) \<Rightarrow> Some (n # ns)
      | _ \<Rightarrow> None)"
| "table_segs names _ = Some []"

fun first_index :: "'a \<Rightarrow> 'a list \<Rightarrow> nat \<Rightarrow> nat option" where
  "first_index x [] i = None"
| "first_index x (y # ys) i = (if x = y then Some i else first_index x ys (Suc i))"

abbreviation lower :: "string \<Rightarrow> string" where
  "lower \<equiv> map ascii_lower"

lemma substr_lower: "substr (lower s) a b = map_option lower (substr s a b)"
  by (simp add: substr_def take_map drop_map)

lemma table_segs_lower: "table_segs (lower s) index = map_option (map lower) (table_segs s index)"
  by (induction s index rule: table_segs.induct) (auto simp: substr_lower split: option.splits)

lemma table_segs_length: "table_segs s index = Some ns \<Longrightarrow> length ns = length index - 1"
  by (induction s index arbitrary: ns rule: table_segs.induct) (auto split: option.splits)

lemma table_segs_nth:
  "table_segs s index = Some ns \<Longrightarrow> i < length ns \<Longrightarrow>
   substr s (unat (index ! i)) (unat (index ! Suc i)) = Some (ns ! i)"
proof (induction s index arbitrary: ns i rule: table_segs.induct)
  case (1 names a b index)
  then show ?case by (cases i) (auto split: option.splits)
qed auto

lemma unString_loop_eq:
  "table_segs l index = Some ns \<Longrightarrow>
   unString_loop from l index i =
     Some (case first_index from ns i of None \<Rightarrow> 0 | Some k \<Rightarrow> word_of_nat k)"
  by (induction l index arbitrary: ns i rule: table_segs.induct) (auto split: option.splits)

lemma first_index_Some:
  "first_index x ns i = Some k \<Longrightarrow> i \<le> k \<and> k - i < length ns \<and> ns ! (k - i) = x"
proof (induction ns arbitrary: i)
  case (Cons y ys)
  show ?case
  proof (cases "x = y")
    case True
    with Cons.prems show ?thesis by simp
  next
    case False
    with Cons.prems Cons.IH [of "Suc i"]
    have "Suc i \<le> k" "k - Suc i < length ys" "ys ! (k - Suc i) = x" by auto
    moreover from \<open>Suc i \<le> k\<close> have "k - i = Suc (k - Suc i)" by arith
    ultimately show ?thesis by simp
  qed
qed simp

lemma first_index_distinct:
  "distinct ns \<Longrightarrow> j < length ns \<Longrightarrow> first_index (ns ! j) ns i = Some (i + j)"
proof (induction ns arbitrary: i j)
  case (Cons a ns)
  then show ?case by (cases j) auto
qed simp

lemma first_index_None: "first_index x ns i = None \<longleftrightarrow> x \<notin> set ns"
  by (induction x ns i rule: first_index.induct) auto

section \<open>Characters\<close>

lemma of_char_ascii_lower:
  "(of_char (ascii_lower c) :: nat) =
     (if 65 \<le> (of_char c :: nat) \<and> of_char c \<le> (90::nat) then of_char c + 32 else of_char c)"
  by (auto simp: ascii_lower_def Let_def of_char_of)

lemma ascii_lower_idem [simp]: "ascii_lower (ascii_lower c) = ascii_lower c"
  by (auto simp: ascii_lower_def Let_def of_char_of)

lemma lower_idem [simp]: "lower (lower s) = lower s"
  by simp

lemma ToLower_ascii: "list_all is_ascii s \<Longrightarrow> ToLower ul s = lower s"
  by (simp add: ToLower_def)

lemma digit_ascii: "d < 10 \<Longrightarrow> is_ascii (digit d)"
  by (simp add: digit_def is_ascii_def of_char_of)

lemma ntoa_ascii: "list_all is_ascii (ntoa n)"
proof (induction n rule: ntoa.induct)
  case (1 n)
  then show ?case by (subst ntoa.simps) (auto simp: digit_ascii)
qed

lemma ntoa_length: "n < 10 ^ Suc k \<Longrightarrow> length (ntoa n) \<le> Suc k"
proof (induction k arbitrary: n)
  case 0
  then show ?case by (subst ntoa.simps) simp
next
  case (Suc k)
  then have "n div 10 < 10 ^ Suc k" by simp
  then have "length (ntoa (n div 10)) \<le> Suc k" by (rule Suc.IH)
  then show ?case by (subst ntoa.simps) simp
qed

lemma digit_no_quote: "d < 10 \<Longrightarrow> \<not> is_quote (digit d)"
  by (simp add: digit_def is_quote_def of_char_of take_bit_nat_eq_self)

lemma ntoa_no_quote: "list_all (\<lambda>c. \<not> is_quote c) (ntoa n)"
proof (induction n rule: ntoa.induct)
  case (1 n)
  then show ?case by (subst ntoa.simps) (auto simp: digit_no_quote)
qed

lemma Trim_quotes_quoted:
  assumes "is_quote q" and "s \<noteq> []" and "list_all (\<lambda>c. \<not> is_quote c) s"
  shows "Trim_quotes (q # s @ [q]) = s"
proof -
  from assms(2,3) have "\<not> is_quote (hd s)" "\<not> is_quote (hd (rev s))"
    by (simp_all add: list_all_iff hd_rev)
  with assms(2) have "dropWhile is_quote (s @ [q]) = s @ [q]" "dropWhile is_quote (rev s) = rev s"
    by (simp_all only: dropWhile_eq_self_iff) simp_all
  with assms(1) show ?thesis by (simp add: Trim_quotes_def)
qed

lemma is_ascii_paren: "is_ascii CHR ''(''" "is_ascii CHR '')''" "ascii_lower CHR ''('' = CHR ''(''"
  by (simp_all add: is_ascii_def ascii_lower_def)

section \<open>The laws of a table\<close>

locale named_table =
  fixes names :: string
    and index :: "('i::len) word list"
    and segs :: "string list"
    and n :: nat
  assumes segs: "table_segs names index = Some segs"
    and count [simp]: "length segs = n"
    and segs_nonempty: "segs \<noteq> []"
    and ascii: "list_all is_ascii names" "list_all (list_all is_ascii) segs"
    and no_paren: "list_all (\<lambda>s. CHR ''('' \<notin> set (lower s)) segs"
    and short: "list_all (\<lambda>s. 0 < length s \<and> length s < 32) segs"
    and no_quote: "list_all (list_all (\<lambda>c. \<not> is_quote c)) segs"
    and distinct_names: "distinct (map lower segs)"
begin

lemma n_pos: "0 < n"
  using segs_nonempty count by (cases segs) auto

lemma index_length: "length index - 1 = n" "length index = Suc n"
  using table_segs_length [OF segs] n_pos by simp_all

lemma word_of_length:
  "n < 2 ^ LENGTH('r) \<Longrightarrow>
   (word_of_nat (n) \<le> (i :: ('r::len) word)) \<longleftrightarrow> n \<le> unat i"
  by (simp add: word_le_nat_alt unat_of_nat take_bit_nat_eq_self)

lemma String_declared:
  assumes "unat i < n" and "n < 2 ^ LENGTH('r)"
  shows "stringer_String tname names index (i :: ('r::len) word) = Some (segs ! unat i)"
  using assms table_segs_nth [OF segs, unfolded count, OF assms(1)] index_length
  by (simp add: stringer_String_def word_of_length)

lemma String_undeclared:
  assumes "n \<le> unat i" and "n < 2 ^ LENGTH('r)"
  shows "stringer_String tname names index (i :: ('r::len) word) =
    Some (tname @ ''('' @ itoa (uint i) @ '')'')"
  using assms index_length by (simp add: stringer_String_def word_of_length)

lemma String_total:
  assumes "n < 2 ^ LENGTH('r)"
  shows "stringer_String tname names index (i :: ('r::len) word) \<noteq> None"
  using String_declared [OF _ assms, of i] String_undeclared [OF _ assms, of i]
  by (cases "unat i < n") auto

lemma unString_eq:
  "unString ul from names index =
     Some (case first_index (ToLower ul from) (map lower segs) 0 of None \<Rightarrow> 0 | Some k \<Rightarrow> word_of_nat k)"
  unfolding unString_def
  by (rule unString_loop_eq) (simp add: ToLower_ascii ascii(1) table_segs_lower segs)

lemma unString_name:
  assumes "k < n" and "ToLower ul from = lower (segs ! k)"
  shows "unString ul from names index = Some (word_of_nat k)"
  using first_index_distinct [OF distinct_names, of k 0] assms by (simp add: unString_eq)

lemma unString_not_name:
  "ToLower ul from \<notin> lower ` set segs \<Longrightarrow> unString ul from names index = Some 0"
  by (simp add: unString_eq first_index_None [THEN iffD2])

text \<open>A decoded value other than 0 is the position of the matching name.\<close>

lemma unString_sound:
  assumes "unString ul from names index = Some (r :: ('r::len) word)" and "r \<noteq> 0"
    and "n < 2 ^ LENGTH('r)"
  shows "unat r < n \<and> ToLower ul from = lower (segs ! unat r)"
proof -
  from assms(1,2) obtain k where k: "first_index (ToLower ul from) (map lower segs) 0 = Some k"
    and r: "r = word_of_nat k"
    by (auto simp: unString_eq split: option.splits)
  from first_index_Some [OF k] have "k < n" "map lower segs ! k = ToLower ul from"
    by simp_all
  moreover from this assms(3) have "unat r = k"
    by (simp add: r unat_of_nat take_bit_nat_eq_self)
  ultimately show ?thesis by simp
qed

lemma unString_total: "unString ul from names index \<noteq> None"
  by (simp add: unString_eq)

lemma segs_lower_ToLower: "k < n \<Longrightarrow> ToLower ul (segs ! k) = lower (segs ! k)"
  using ascii(2) by (simp add: ToLower_ascii list_all_length)

lemma unString_String_declared:
  assumes "unat i < n" and "n < 2 ^ LENGTH('r)"
    and "stringer_String tname names index (i :: ('r::len) word) = Some s"
  shows "unString ul s names index = Some i"
proof -
  have "s = segs ! unat i"
    using assms(3) String_declared [OF assms(1,2), of tname] by simp
  moreover have "unString ul (segs ! unat i) names index = Some (word_of_nat (unat i) :: 'r word)"
    by (rule unString_name [OF assms(1) segs_lower_ToLower [OF assms(1)]])
  ultimately show ?thesis by simp
qed

lemma unString_String_undeclared:
  assumes "n \<le> unat i" and "n < 2 ^ LENGTH('r)" and "list_all is_ascii tname"
    and "stringer_String tname names index (i :: ('r::len) word) = Some s"
  shows "unString ul s names index = Some 0"
proof (rule unString_not_name)
  have s: "s = tname @ ''('' @ itoa (uint i) @ '')''"
    using assms(4) String_undeclared [OF assms(1,2), of tname] by simp
  then have "list_all is_ascii s"
    using assms(3) by (simp add: itoa_def ntoa_ascii is_ascii_paren)
  then have "CHR ''('' \<in> set (ToLower ul s)"
    by (simp add: ToLower_ascii s is_ascii_paren)
  with no_paren show "ToLower ul s \<notin> lower ` set segs"
    by (auto simp: list_all_iff)
qed

text \<open>
  Together: decoding what \<open>String\<close> prints gives the value back if it is declared, and the
  unknown value 0 otherwise.
\<close>

lemma unString_String:
  assumes "n < 2 ^ LENGTH('r)" and "list_all is_ascii tname"
    and "stringer_String tname names index (i :: ('r::len) word) = Some s"
  shows "unString ul s names index = Some (if unat i < n then i else 0)"
  using unString_String_declared [OF _ assms(1,3)] unString_String_undeclared [OF _ assms]
  by (cases "unat i < n") simp_all

lemma String_length:
  assumes "n < 2 ^ 16" and "length tname < 25"
    and "stringer_String tname names index (i :: 16 word) = Some s"
  shows "0 < length s \<and> length s < 32"
proof (cases "unat i < n")
  case True
  with assms(1,3) String_declared [of i tname] have "s = segs ! unat i" by simp
  with True short show ?thesis by (auto simp: list_all_length)
next
  case False
  with assms(1,3) String_undeclared [of i tname]
  have s: "s = tname @ ''('' @ itoa (uint i) @ '')''" by simp
  have "unat i < 2 ^ 16" using unsigned_less [of i, where ?'a = nat] by simp
  then have "length (ntoa (unat i)) \<le> Suc 4" by (intro ntoa_length) simp
  moreover have "itoa (uint i) = ntoa (unat i)" by (simp add: itoa_def)
  ultimately show ?thesis using assms(2) by (simp add: s)
qed

text \<open>
  The decoder drops the first byte of a MessagePack string, whatever it is. That is right
  because every string the encoder is given is shorter than 32 bytes, for which the
  format has a one-byte header.
\<close>

lemma msgpack_roundtrip:
  assumes "n < 2 ^ 16" and "length tname < 25" and "list_all is_ascii tname"
    and enc: "\<And>s. length s < 32 \<Longrightarrow> enc s = Inr (char_of (160 + length s) # s)"
  shows "\<exists>b. enum_MarshalMsgpack enc (stringer_String tname names index) (i :: 16 word) = Some (Inr b) \<and>
    enum_UnmarshalMsgpack ul tname names index b = Some (Inr (if unat i < n then i else 0))"
proof -
  obtain s where s: "stringer_String tname names index i = Some s"
    using String_total [of tname i] assms(1) by auto
  have len: "0 < length s" "length s < 32"
    using String_length [OF assms(1,2) s] by auto
  have "unString ul s names index = Some (if unat i < n then i else 0)"
    by (rule unString_String [OF _ assms(3) s]) (use assms(1) in simp)
  with s len show ?thesis
    by (simp add: enum_MarshalMsgpack_def enum_UnmarshalMsgpack_def enc)
qed


lemma String_no_quote:
  assumes "n < 2 ^ LENGTH('r)" and "list_all (\<lambda>c. \<not> is_quote c) tname"
    and "stringer_String tname names index (i :: ('r::len) word) = Some s"
  shows "list_all (\<lambda>c. \<not> is_quote c) s"
proof (cases "unat i < n")
  case True
  with assms(1,3) String_declared [of i tname] have "s = segs ! unat i" by simp
  with True no_quote show ?thesis by (simp add: list_all_length)
next
  case False
  with assms(1,3) String_undeclared [of i tname]
  have "s = tname @ ''('' @ itoa (uint i) @ '')''" by simp
  moreover have "\<not> is_quote CHR ''(''" "\<not> is_quote CHR '')''" by (simp_all add: is_quote_def)
  ultimately show ?thesis using assms(2) by (simp add: itoa_def ntoa_no_quote)
qed

lemma json_roundtrip:
  assumes "n < 2 ^ 16" and "length tname < 25" and "list_all is_ascii tname"
    and "list_all (\<lambda>c. \<not> is_quote c) tname"
  shows "\<exists>s. stringer_String tname names index (i :: 16 word) = Some s \<and>
    enum_UnmarshalJSON ul names index (CHR 0x22 # s @ [CHR 0x22]) =
      Some (Inr (if unat i < n then i else 0))"
proof -
  obtain s where s: "stringer_String tname names index i = Some s"
    using String_total [of tname i] assms(1) by auto
  have "Trim_quotes (CHR 0x22 # s @ [CHR 0x22]) = s"
    by (rule Trim_quotes_quoted)
       (use String_length [OF assms(1,2) s] String_no_quote [OF _ assms(4) s] assms(1)
         in \<open>auto simp: is_quote_def\<close>)
  moreover have "unString ul s names index = Some (if unat i < n then i else 0)"
    by (rule unString_String [OF _ assms(3) s]) (use assms(1) in simp)
  ultimately show ?thesis using s by (simp add: enum_UnmarshalJSON_def)
qed

lemma decode_cases:
  assumes "n < 2 ^ LENGTH('r)"
  shows "(length b < 2 \<longrightarrow> (\<exists>e. enum_UnmarshalMsgpack ul tname names index b =
             (Some (Inl e) :: (goerr + ('r::len) word) option))) \<and>
    (2 \<le> length b \<longrightarrow> (\<exists>r. enum_UnmarshalMsgpack ul tname names index b = Some (Inr (r :: 'r word)) \<and>
       unat r < n \<and> (r \<noteq> 0 \<longrightarrow> ToLower ul (tl b) = lower (segs ! unat r))))"
proof -
  have "\<exists>r. unString ul (tl b) names index = Some (r :: 'r word) \<and> unat r < n \<and>
      (r \<noteq> 0 \<longrightarrow> ToLower ul (tl b) = lower (segs ! unat r))"
  proof -
    obtain r :: "'r word" where r: "unString ul (tl b) names index = Some r"
      using unString_total by blast
    with unString_sound [OF r _ assms] n_pos show ?thesis
      by (cases "r = 0") auto
  qed
  then show ?thesis
    by (auto simp: enum_UnmarshalMsgpack_def drop_Suc)
qed

end

end
