(* ===== verification/Enums.thy ===== *)
theory Enums
  imports StringerFacts
begin

text \<open>
  The generated tables of \<open>audit/msgs\<close> satisfy the laws of \<open>named_table\<close>; with them, what the
  encoders and decoders of the enumerations guarantee.
\<close>

section \<open>The generated tables satisfy the laws\<close>

interpretation ty: named_table Type_name Type_index
  "[''ATUnknown'', ''AsmAuditDP'', ''AsmAuditCP'', ''AsmAuditHB'', ''AsmAuditDG'']" 5
  by unfold_locales code_simp+

interpretation ot: named_table OperationType_name OperationType_index
  "[''UnknownOperationType'', ''Read'', ''Update'', ''Create'', ''Delete'']" 5
  by unfold_locales code_simp+

interpretation ort: named_table OperationResult_name OperationResult_index
  "[''UnknownOperationResult'', ''Success'', ''Failure'']" 3
  by unfold_locales code_simp+

abbreviation oc_names :: "string list" where
  "oc_names \<equiv> [''UnknownOperationCategory'', ''OCOther'', ''UserManagement'', ''GroupManagement'',
    ''Authentication'', ''Authorization'', ''RoleManagement'', ''ApplicationManagement'',
    ''KeyManagement'', ''DirectoryManagement'', ''ResourceManagement'', ''PolicyManagement'',
    ''DeviceManagement'', ''EntitlementManagement'', ''PasswordManagement'',
    ''IdentityProtection'', ''ObjectManagement'', ''ProvisioningManagement'',
    ''CustomerFacing'', ''EUII'']"

interpretation oc: named_table OperationCategory_name OperationCategory_index oc_names 20
  by unfold_locales code_simp+

interpretation ci: named_table CallerIdentityType_name CallerIdentityType_index
  "[''UnknownCallerIdentityType'', ''CIOther'', ''UPN'', ''PUID'', ''ObjectID'', ''Certificate'',
    ''Claim'', ''Username'', ''AccessKeyName'', ''SubscriptionID'', ''ApplicationID'',
    ''TenantID'', ''TokenID'', ''SasURL'', ''System'']" 15
  by unfold_locales code_simp+

section \<open>Encoding and decoding the enumerations\<close>

text \<open>
  C35. MessagePack round trip of the four enumerations a record carries. With an encoder that
  follows the MessagePack format for short strings (a one-byte header 0xa0 + length), each
  type's \<open>MarshalMsgpack\<close> succeeds on every value and \<open>UnmarshalMsgpack\<close>, which drops
  the first byte unseen, gives the value back if it is a declared constant and the unknown
  value 0 if it is not.
\<close>

theorem enum_msgpack_roundtrip:
  assumes fixstr: "\<And>s. length s < 32 \<Longrightarrow> enc s = Inr (char_of (160 + length s) # s)"
  shows "(\<exists>b. OperationType_MarshalMsgpack enc ot = Some (Inr b) \<and>
       OperationType_UnmarshalMsgpack ul b = Some (Inr (if unat ot < 5 then ot else 0))) \<and>
    (\<exists>b. OperationCategory_MarshalMsgpack enc oc = Some (Inr b) \<and>
       OperationCategory_UnmarshalMsgpack ul b = Some (Inr (if unat oc < 20 then oc else 0))) \<and>
    (\<exists>b. OperationResult_MarshalMsgpack enc ort = Some (Inr b) \<and>
       OperationResult_UnmarshalMsgpack ul b = Some (Inr (if unat ort < 3 then ort else 0))) \<and>
    (\<exists>b. CallerIdentityType_MarshalMsgpack enc ci = Some (Inr b) \<and>
       CallerIdentityType_UnmarshalMsgpack ul b = Some (Inr (if unat ci < 15 then ci else 0)))"
proof (intro conjI)
  show "\<exists>b. OperationType_MarshalMsgpack enc ot = Some (Inr b) \<and>
       OperationType_UnmarshalMsgpack ul b = Some (Inr (if unat ot < 5 then ot else 0))"
    using ot.msgpack_roundtrip [OF _ _ _ fixstr, of "''OperationType''" ot ul]
    by (simp add: OperationType_MarshalMsgpack_def OperationType_UnmarshalMsgpack_def
        OperationType_String_def is_ascii_def)
  show "\<exists>b. OperationCategory_MarshalMsgpack enc oc = Some (Inr b) \<and>
       OperationCategory_UnmarshalMsgpack ul b = Some (Inr (if unat oc < 20 then oc else 0))"
    using oc.msgpack_roundtrip [OF _ _ _ fixstr, of "''OperationCategory''" oc ul]
    by (simp add: OperationCategory_MarshalMsgpack_def OperationCategory_UnmarshalMsgpack_def
        OperationCategory_String_def is_ascii_def)
  show "\<exists>b. OperationResult_MarshalMsgpack enc ort = Some (Inr b) \<and>
       OperationResult_UnmarshalMsgpack ul b = Some (Inr (if unat ort < 3 then ort else 0))"
    using ort.msgpack_roundtrip [OF _ _ _ fixstr, of "''OperationResult''" ort ul]
    by (simp add: OperationResult_MarshalMsgpack_def OperationResult_UnmarshalMsgpack_def
        OperationResult_String_def is_ascii_def)
  show "\<exists>b. CallerIdentityType_MarshalMsgpack enc ci = Some (Inr b) \<and>
       CallerIdentityType_UnmarshalMsgpack ul b = Some (Inr (if unat ci < 15 then ci else 0))"
    using ci.msgpack_roundtrip [OF _ _ _ fixstr, of "''CallerIdentityType''" ci ul]
    by (simp add: CallerIdentityType_MarshalMsgpack_def CallerIdentityType_UnmarshalMsgpack_def
        CallerIdentityType_String_def is_ascii_def)
qed

theorem enum_msgpack_roundtrip_witness:
  "\<exists>b. OperationType_MarshalMsgpack (\<lambda>s. Inr (char_of (160 + length s) # s)) 3 = Some (Inr b) \<and>
    OperationType_UnmarshalMsgpack id b = Some (Inr 3)"
  using enum_msgpack_roundtrip [of "\<lambda>s. Inr (char_of (160 + length s) # s)" 3 id 0 0 0] by simp

text \<open>
  C36. JSON round trip: the name \<open>String\<close> gives, between double quotes, is decoded by
  \<open>UnmarshalJSON\<close> to the value itself if it is a declared constant and to 0 if it is not; no
  slice of the name tables is out of range on the way.
\<close>

theorem enum_json_roundtrip:
  "(\<exists>s. OperationType_String ot = Some s \<and>
      OperationType_UnmarshalJSON ul (CHR 0x22 # s @ [CHR 0x22]) =
        Some (Inr (if unat ot < 5 then ot else 0))) \<and>
   (\<exists>s. OperationCategory_String oc = Some s \<and>
      OperationCategory_UnmarshalJSON ul (CHR 0x22 # s @ [CHR 0x22]) =
        Some (Inr (if unat oc < 20 then oc else 0))) \<and>
   (\<exists>s. OperationResult_String ort = Some s \<and>
      OperationResult_UnmarshalJSON ul (CHR 0x22 # s @ [CHR 0x22]) =
        Some (Inr (if unat ort < 3 then ort else 0))) \<and>
   (\<exists>s. CallerIdentityType_String ci = Some s \<and>
      CallerIdentityType_UnmarshalJSON ul (CHR 0x22 # s @ [CHR 0x22]) =
        Some (Inr (if unat ci < 15 then ci else 0)))"
  using ot.json_roundtrip [of "''OperationType''" ot ul]
    oc.json_roundtrip [of "''OperationCategory''" oc ul]
    ort.json_roundtrip [of "''OperationResult''" ort ul]
    ci.json_roundtrip [of "''CallerIdentityType''" ci ul]
  by (simp add: is_ascii_def is_quote_def
      OperationType_String_def OperationCategory_String_def OperationResult_String_def
      CallerIdentityType_String_def OperationType_UnmarshalJSON_def
      OperationCategory_UnmarshalJSON_def OperationResult_UnmarshalJSON_def
      CallerIdentityType_UnmarshalJSON_def)

text \<open>
  The MessagePack decoder of \<open>OperationCategory\<close> on arbitrary bytes: fewer than two bytes
  are an error, any other input decodes without error or panic to a declared value, and a value
  other than the unknown 0 is decoded only from its own name, up to case.
\<close>

lemma category_decode_sound:
  "(length b < 2 \<longrightarrow> (\<exists>e. OperationCategory_UnmarshalMsgpack ul b = Some (Inl e))) \<and>
   (2 \<le> length b \<longrightarrow> (\<exists>r s. OperationCategory_UnmarshalMsgpack ul b = Some (Inr r) \<and>
      unat r < 20 \<and> OperationCategory_String r = Some s \<and>
      (r \<noteq> 0 \<longrightarrow> ToLower ul (tl b) = map ascii_lower s)))"
proof -
  have "\<exists>r s. OperationCategory_UnmarshalMsgpack ul b = Some (Inr r) \<and>
      unat r < 20 \<and> OperationCategory_String r = Some s \<and>
      (r \<noteq> 0 \<longrightarrow> ToLower ul (tl b) = map ascii_lower s)" if len: "2 \<le> length b"
  proof -
    obtain r where r: "OperationCategory_UnmarshalMsgpack ul b = Some (Inr r)" "unat r < 20"
      "r \<noteq> 0 \<Longrightarrow> ToLower ul (tl b) = map ascii_lower (oc_names ! unat r)"
      using oc.decode_cases [of b ul "''OperationCategory''", where ?'r = 16] len
      unfolding OperationCategory_UnmarshalMsgpack_def by auto
    with oc.String_declared [of r "''OperationCategory''"] show ?thesis
      unfolding OperationCategory_String_def by auto
  qed
  then show ?thesis
    using oc.decode_cases [of b ul "''OperationCategory''", where ?'r = 16]
    unfolding OperationCategory_UnmarshalMsgpack_def by auto
qed

end
