(* ===== verification/NetAddr.thy ===== *)
theory NetAddr
  imports Prelude GoErrors
begin

unbundle bit_operations_syntax

text \<open>
  The caller address of a record. \<open>msgs.Addr\<close> embeds the standard library's \<open>netip.Addr\<close>; the
  predicates \<open>Record.Validate\<close> asks of it are modelled bit by bit, IPv4-mapped IPv6 addresses
  included. The text form (\<open>netip.ParseAddr\<close>, \<open>Addr.String\<close>) and the codecs are arguments.
\<close>

section \<open>netip.Addr\<close>

text \<open>The zero value, an IPv4 address, or an IPv6 address with its zone.\<close>

datatype netip_addr = AddrZero | Addr4 "32 word" | Addr6 "128 word" string

definition Is4In6 :: "netip_addr \<Rightarrow> bool" where
  "Is4In6 a = (case a of Addr6 w z \<Rightarrow> drop_bit 32 w = 0xFFFF | _ \<Rightarrow> False)"

definition Unmap :: "netip_addr \<Rightarrow> netip_addr" where
  "Unmap a = (case a of Addr6 w z \<Rightarrow> if Is4In6 a then Addr4 (ucast w) else a | _ \<Rightarrow> a)"

definition IsValid :: "netip_addr \<Rightarrow> bool" where
  "IsValid a \<longleftrightarrow> a \<noteq> AddrZero"

definition IsUnspecified :: "netip_addr \<Rightarrow> bool" where
  "IsUnspecified a \<longleftrightarrow> a = Addr4 0 \<or> a = Addr6 0 []"

definition IsLoopback :: "netip_addr \<Rightarrow> bool" where
  "IsLoopback a =
     (case Unmap a of
        Addr4 w \<Rightarrow> drop_bit 24 w = 127
      | Addr6 w z \<Rightarrow> w = 1
      | AddrZero \<Rightarrow> False)"

definition IsMulticast :: "netip_addr \<Rightarrow> bool" where
  "IsMulticast a =
     (case Unmap a of
        Addr4 w \<Rightarrow> drop_bit 24 w AND 0xF0 = 0xE0
      | Addr6 w z \<Rightarrow> drop_bit 120 w = 0xFF
      | AddrZero \<Rightarrow> False)"

definition ipv4 :: "nat \<Rightarrow> nat \<Rightarrow> nat \<Rightarrow> nat \<Rightarrow> netip_addr" where
  "ipv4 a b c d = Addr4 (word_of_nat (((a * 256 + b) * 256 + c) * 256 + d))"

lemma ipv4_examples:
  "IsLoopback (ipv4 127 0 0 1)" "IsMulticast (ipv4 224 0 0 1)" "IsUnspecified (ipv4 0 0 0 0)"
  "\<not> IsLoopback (ipv4 192 168 0 1)" "\<not> IsMulticast (ipv4 192 168 0 1)"
  "\<not> IsUnspecified (ipv4 192 168 0 1)"
  by (simp_all add: ipv4_def IsLoopback_def IsMulticast_def IsUnspecified_def Unmap_def)

section \<open>msgs.Addr\<close>

text \<open>The wrapper holds only the address it embeds.\<close>

type_synonym Addr = netip_addr

text \<open>\<open>parse\<close> is \<open>netip.ParseAddr\<close>. A panic is \<open>None\<close>.\<close>

definition ParseAddr :: "(string \<Rightarrow> goerr + netip_addr) \<Rightarrow> string \<Rightarrow> goerr + Addr" where
  "ParseAddr parse s = (case parse s of Inl e \<Rightarrow> Inl e | Inr ip \<Rightarrow> Inr ip)"

definition MustParseAddr :: "(string \<Rightarrow> goerr + netip_addr) \<Rightarrow> string \<Rightarrow> Addr option" where
  "MustParseAddr parse s = (case ParseAddr parse s of Inl e \<Rightarrow> None | Inr a \<Rightarrow> Some a)"

definition NetIP :: "Addr \<Rightarrow> netip_addr" where
  "NetIP a = a"

definition Addr_MarshalMsgpack ::
  "(netip_addr \<Rightarrow> string) \<Rightarrow> (string \<Rightarrow> goerr + string) \<Rightarrow> Addr \<Rightarrow> goerr + string" where
  "Addr_MarshalMsgpack str enc a = enc (str a)"

text \<open>
  Both decoders read a string with the codec's \<open>dec\<close> and parse it; on an error the receiver
  \<open>old\<close> keeps its value. The result is the error, if any, and the receiver afterwards.
\<close>

definition Addr_unmarshal ::
  "(string \<Rightarrow> goerr + netip_addr) \<Rightarrow> (string \<Rightarrow> goerr + string) \<Rightarrow> Addr \<Rightarrow> string
     \<Rightarrow> goerr option \<times> Addr" where
  "Addr_unmarshal parse dec old b =
     (case dec b of
        Inl e \<Rightarrow> (Some e, old)
      | Inr s \<Rightarrow> (case parse s of Inl e \<Rightarrow> (Some e, old) | Inr ip \<Rightarrow> (None, ip)))"

definition Addr_UnmarshalMsgpack ::
  "(string \<Rightarrow> goerr + netip_addr) \<Rightarrow> (string \<Rightarrow> goerr + string) \<Rightarrow> Addr \<Rightarrow> string
     \<Rightarrow> goerr option \<times> Addr" where
  "Addr_UnmarshalMsgpack parse msgpack_dec old b = Addr_unmarshal parse msgpack_dec old b"

definition Addr_UnmarshalJSON ::
  "(string \<Rightarrow> goerr + netip_addr) \<Rightarrow> (string \<Rightarrow> goerr + string) \<Rightarrow> Addr \<Rightarrow> string
     \<Rightarrow> goerr option \<times> Addr" where
  "Addr_UnmarshalJSON parse json_dec old b = Addr_unmarshal parse json_dec old b"

lemma Addr_roundtrip:
  assumes "enc (str a) = Inr b" and "dec b = Inr (str a)" and "parse (str a) = Inr a"
  shows "Addr_MarshalMsgpack str enc a = Inr b \<and> Addr_UnmarshalMsgpack parse dec old b = (None, a)"
  using assms by (simp add: Addr_MarshalMsgpack_def Addr_UnmarshalMsgpack_def Addr_unmarshal_def)

end
