(* ===== verification/GoSlice.thy ===== *)
theory GoSlice
  imports Prelude
begin

text \<open>
  Go slices with their aliasing. A slice is a header over a shared backing array; copying a
  struct copies the header, not the array. A \<open>store\<close> holds the backing arrays of one element
  type. The operations are the ones the program calls: \<open>slices.Sort\<close>, \<open>slices.Compact\<close>
  (which zeroes the elements it drops) and \<open>slices.Clone\<close>.
\<close>

section \<open>Stores and slice headers\<close>

datatype slice = NilSlice | Slice (base: nat) (off: nat) (len: nat)

record 'a store =
  cells :: "nat \<Rightarrow> 'a list"
  next_addr :: nat

definition slice_len :: "slice \<Rightarrow> nat" where
  "slice_len s = (case s of NilSlice \<Rightarrow> 0 | Slice a i n \<Rightarrow> n)"

definition slice_val :: "'a store \<Rightarrow> slice \<Rightarrow> 'a list" where
  "slice_val st s = (case s of NilSlice \<Rightarrow> [] | Slice a i n \<Rightarrow> take n (drop i (cells st a)))"

definition slice_ok :: "'a store \<Rightarrow> slice \<Rightarrow> bool" where
  "slice_ok st s \<longleftrightarrow>
     (case s of NilSlice \<Rightarrow> True
      | Slice a i n \<Rightarrow> a < next_addr st \<and> i + n \<le> length (cells st a))"

text \<open>Writing all elements of a slice, in place, through its header.\<close>

definition slice_write :: "'a store \<Rightarrow> slice \<Rightarrow> 'a list \<Rightarrow> 'a store" where
  "slice_write st s xs =
     (case s of NilSlice \<Rightarrow> st
      | Slice a i n \<Rightarrow>
          st\<lparr>cells := (cells st)(a := take i (cells st a) @ xs @ drop (i + n) (cells st a))\<rparr>)"

text \<open>\<open>s[:k]\<close>: a shorter header over the same array.\<close>

definition slice_to :: "slice \<Rightarrow> nat \<Rightarrow> slice" where
  "slice_to s k = (case s of NilSlice \<Rightarrow> NilSlice | Slice a i n \<Rightarrow> Slice a i k)"

section \<open>The three library operations\<close>

text \<open>
  \<open>slices.Sort\<close> sorts in place; on a total order of values its result is the one sorted
  permutation. \<open>slices.Compact\<close> keeps the first of every run of equal elements at the
  front, clears the rest of the slice to the zero value and returns the shorter header.
\<close>

definition Sort :: "('a::linorder) store \<Rightarrow> slice \<Rightarrow> 'a store" where
  "Sort st s = slice_write st s (sort (slice_val st s))"

definition Compact :: "'a \<Rightarrow> 'a store \<Rightarrow> slice \<Rightarrow> slice \<times> 'a store" where
  "Compact zero st s =
     (let xs = slice_val st s; ys = remdups_adj xs
      in (slice_to s (length ys),
          slice_write st s (ys @ replicate (length xs - length ys) zero)))"

definition Clone_slice :: "'a store \<Rightarrow> slice \<Rightarrow> slice \<times> 'a store" where
  "Clone_slice st s =
     (case s of NilSlice \<Rightarrow> (NilSlice, st)
      | Slice a i n \<Rightarrow>
          (Slice (next_addr st) 0 n,
           \<lparr>cells = (cells st)(next_addr st := slice_val st s),
            next_addr = Suc (next_addr st)\<rparr>))"

text \<open>The pair of calls \<open>marshalPrep\<close> makes on each of its slices.\<close>

definition sort_compact :: "('a::linorder) \<Rightarrow> 'a store \<Rightarrow> slice \<Rightarrow> slice \<times> 'a store" where
  "sort_compact zero st s = Compact zero (Sort st s) s"

section \<open>Laws\<close>

lemma slice_val_Nil [simp]: "slice_val st NilSlice = []"
  by (simp add: slice_val_def)

lemma length_slice_val: "slice_ok st s \<Longrightarrow> length (slice_val st s) = slice_len s"
  by (auto simp: slice_ok_def slice_val_def slice_len_def split: slice.splits)

lemma slice_write_val:
  "slice_ok st s \<Longrightarrow> length xs = slice_len s \<Longrightarrow> slice_val (slice_write st s xs) s = xs"
  by (auto simp: slice_ok_def slice_val_def slice_len_def slice_write_def split: slice.splits)

lemma slice_write_ok:
  "slice_ok st s \<Longrightarrow> length xs = slice_len s \<Longrightarrow> slice_ok st t \<Longrightarrow> slice_ok (slice_write st s xs) t"
  by (auto simp: slice_ok_def slice_len_def slice_write_def split: slice.splits)

lemma slice_write_next [simp]: "next_addr (slice_write st s xs) = next_addr st"
  by (simp add: slice_write_def split: slice.splits)

lemma slice_write_write:
  "slice_ok st s \<Longrightarrow> length xs = slice_len s \<Longrightarrow>
   slice_write (slice_write st s xs) s ys = slice_write st s ys"
  by (auto simp: slice_ok_def slice_len_def slice_write_def split: slice.splits)

lemma slice_write_prefix:
  "slice_ok st s \<Longrightarrow> length (ys @ zs) = slice_len s \<Longrightarrow>
   slice_val (slice_write st s (ys @ zs)) (slice_to s (length ys)) = ys"
  by (auto simp: slice_ok_def slice_val_def slice_len_def slice_write_def slice_to_def
      split: slice.splits)

text \<open>A slice over another array is not touched.\<close>

definition disjoint_slices :: "slice \<Rightarrow> slice \<Rightarrow> bool" where
  "disjoint_slices s t \<longleftrightarrow> s = NilSlice \<or> t = NilSlice \<or> base s \<noteq> base t"

lemma slice_write_frame:
  "disjoint_slices s t \<Longrightarrow> slice_val (slice_write st s xs) t = slice_val st t"
  by (auto simp: disjoint_slices_def slice_val_def slice_write_def split: slice.splits)

lemma Sort_val: "slice_ok st s \<Longrightarrow> slice_val (Sort st s) s = sort (slice_val st s)"
  by (simp add: Sort_def slice_write_val length_slice_val)

lemma Sort_ok: "slice_ok st s \<Longrightarrow> slice_ok st t \<Longrightarrow> slice_ok (Sort st s) t"
  by (simp add: Sort_def slice_write_ok length_slice_val)

text \<open>
  After sorting and compacting: the returned header reads the strictly sorted elements,
  the store keeps every well-formed header well-formed, and the \<^emph>\<open>original\<close> header now reads
  those elements followed by zero values.
\<close>

lemma sort_compact_eq:
  assumes "slice_ok st s"
  shows "sort_compact zero st s =
    (let ys = remdups_adj (sort (slice_val st s))
     in (slice_to s (length ys),
         slice_write st s (ys @ replicate (slice_len s - length ys) zero)))"
  using assms Sort_ok [OF assms assms]
  by (simp add: sort_compact_def Compact_def Let_def Sort_val length_slice_val)
     (simp add: Sort_def slice_write_write length_slice_val)

lemma length_compacted:
  "slice_ok st s \<Longrightarrow> length (remdups_adj (sort (slice_val st s))) \<le> slice_len s"
  by (metis length_slice_val length_sort remdups_adj_length)

lemma sort_compact_val:
  assumes "slice_ok st s" and "sort_compact zero st s = (s', st')"
  shows "slice_val st' s' = remdups_adj (sort (slice_val st s))"
    and "slice_val st' s = slice_val st' s' @ replicate (slice_len s - length (slice_val st' s')) zero"
    and "slice_ok st t \<Longrightarrow> slice_ok st' t"
    and "disjoint_slices s t \<Longrightarrow> slice_val st' t = slice_val st t"
    and "next_addr st' = next_addr st"
proof -
  let ?ys = "remdups_adj (sort (slice_val st s))"
  let ?zs = "replicate (slice_len s - length ?ys) zero"
  have len: "length (?ys @ ?zs) = slice_len s"
    using length_compacted [OF assms(1)] by simp
  have s': "s' = slice_to s (length ?ys)" and st': "st' = slice_write st s (?ys @ ?zs)"
    using assms(2) by (simp_all add: sort_compact_eq [OF assms(1)] Let_def)
  show val: "slice_val st' s' = ?ys"
    unfolding s' st' by (rule slice_write_prefix [OF assms(1) len])
  show "slice_val st' s = slice_val st' s' @ replicate (slice_len s - length (slice_val st' s')) zero"
    unfolding val unfolding st' by (rule slice_write_val [OF assms(1) len])
  show "slice_ok st t \<Longrightarrow> slice_ok st' t"
    unfolding st' by (rule slice_write_ok [OF assms(1) len])
  show "disjoint_slices s t \<Longrightarrow> slice_val st' t = slice_val st t"
    unfolding st' by (rule slice_write_frame)
  show "next_addr st' = next_addr st"
    unfolding st' by simp
qed

text \<open>The zero values appear exactly if the slice had a duplicate.\<close>

lemma sort_compact_residue:
  assumes "slice_ok st s" and "sort_compact zero st s = (s', st')"
  shows "\<exists>i. slice_val st' s = slice_val st' s' @ replicate i zero \<and>
    (i = 0 \<longleftrightarrow> distinct (slice_val st s))"
proof -
  let ?i = "slice_len s - length (slice_val st' s')"
  have "?i = length (slice_val st s) - length (remdups_adj (sort (slice_val st s)))"
    by (simp only: sort_compact_val(1) [OF assms] length_slice_val [OF assms(1)])
  then have "?i = 0 \<longleftrightarrow> distinct (slice_val st s)"
    by (simp only: compact_gap)
  with sort_compact_val(2) [OF assms] show ?thesis
    by (intro exI [of _ ?i] conjI)
qed

text \<open>On a slice without duplicates the pair of calls is an in-place sort.\<close>

lemma sort_compact_distinct:
  "slice_ok st s \<Longrightarrow> distinct (slice_val st s) \<Longrightarrow> sort_compact zero st s = (s, Sort st s)"
  by (cases s) (simp_all add: sort_compact_eq Let_def remdups_adj_sort_distinct Sort_def
      length_slice_val slice_len_def slice_to_def)

lemma Clone_slice_val:
  assumes "slice_ok st s" and "Clone_slice st s = (s', st')"
  shows "slice_val st' s' = slice_val st s"
    and "slice_ok st' s'"
    and "slice_ok st t \<Longrightarrow> slice_val st' t = slice_val st t"
    and "slice_ok st t \<Longrightarrow> slice_ok st' t"
    and "slice_ok st t \<Longrightarrow> disjoint_slices s' t"
    and "(s' = NilSlice) = (s = NilSlice)"
  using assms
  by (auto simp: Clone_slice_def slice_val_def slice_ok_def disjoint_slices_def min_absorb2
      split: slice.splits)

end
