(* ===== verification/Msgs.thy ===== *)
theory Msgs
  imports Stringer NetAddr GoSlice
begin

text \<open>
  The messages of \<open>audit/msgs\<close>: the record a user sends, the wrapper \<open>Msg\<close>, their validation
  rules, constructor and clone. The two slices of a record that the library itself writes
  to (it sorts and compacts them in place before encoding) are headers into the memory
  \<open>mem\<close>; the entry slices inside the maps, which the library only reads, are values. A Go map
  is \<open>None\<close> if nil and otherwise the list of its entries in the order in which a \<open>range\<close> loop
  happens to visit them. The unexported \<open>now\<close> of \<open>Record\<close> is never read and is left out.
\<close>

section \<open>Data\<close>

type_synonym ('k, 'v) gomap = "('k \<times> 'v) list option"

definition entries :: "('k, 'v) gomap \<Rightarrow> ('k \<times> 'v) list" where
  "entries m = (case m of None \<Rightarrow> [] | Some kvs \<Rightarrow> kvs)"

definition gomap_ok :: "('k, 'v) gomap \<Rightarrow> bool" where
  "gomap_ok m \<longleftrightarrow> distinct (map fst (entries m))"

definition elems :: "'a list option \<Rightarrow> 'a list" where
  "elems s = (case s of None \<Rightarrow> [] | Some xs \<Rightarrow> xs)"

text \<open>A value of type \<open>any\<close>: a string, an integer, a boolean, or a value of a user's type.\<close>

datatype any = AnyString string | AnyInt int | AnyBool bool | AnyUser nat

record CallerIdentityEntry =
  Identity :: string
  Description :: string

record TargetResourceEntry =
  Name :: string
  Cluster :: string
  DataCenter :: string
  Region :: string

record Record =
  ServiceTreeID :: string
  CallerIpAddress :: Addr
  CallerIdentities :: "(CallerIdentityType, CallerIdentityEntry list option) gomap"
  OperationCategories :: slice
  CustomData :: "(string, any) gomap"
  TargetResources :: "(string, TargetResourceEntry list option) gomap"
  CallerAccessLevels :: slice
  OperationAccessLevel :: string
  OperationName :: string
  OperationResultDescription :: string
  CallerAgent :: string
  OperationCategoryDescription :: string
  OperationType :: OperationType
  OperationResult :: OperationResult

record HeartbeatMsg =
  hb_ServiceTreeID :: string
  hb_AuditVersion :: string
  hb_OsVersion :: string
  hb_Language :: string
  hb_Destination :: string

datatype DiagnosticMsg = DiagnosticMsg

text \<open>\<open>msg_now\<close> is the time its test clock gives, in seconds, or \<open>None\<close> for a nil clock.\<close>

record Msg =
  msg_now :: "int option"
  msg_Type :: Type
  msg_Record :: Record
  msg_Heartbeat :: HeartbeatMsg
  msg_Diagnostic :: DiagnosticMsg

text \<open>The backing arrays of category slices and of access-level slices.\<close>

record mem =
  cats :: "OperationCategory store"
  lvls :: "string store"

definition Record_zero :: Record where
  "Record_zero = \<lparr>ServiceTreeID = [], CallerIpAddress = AddrZero, CallerIdentities = None,
     OperationCategories = NilSlice, CustomData = None, TargetResources = None,
     CallerAccessLevels = NilSlice, OperationAccessLevel = [], OperationName = [],
     OperationResultDescription = [], CallerAgent = [], OperationCategoryDescription = [],
     OperationType = 0, OperationResult = 0\<rparr>"

definition HeartbeatMsg_zero :: HeartbeatMsg where
  "HeartbeatMsg_zero = \<lparr>hb_ServiceTreeID = [], hb_AuditVersion = [], hb_OsVersion = [],
     hb_Language = [], hb_Destination = []\<rparr>"

definition Msg_zero :: Msg where
  "Msg_zero = \<lparr>msg_now = None, msg_Type = 0, msg_Record = Record_zero,
     msg_Heartbeat = HeartbeatMsg_zero, msg_Diagnostic = DiagnosticMsg\<rparr>"

definition record_ok :: "mem \<Rightarrow> Record \<Rightarrow> bool" where
  "record_ok m a \<longleftrightarrow>
     slice_ok (cats m) (OperationCategories a) \<and> slice_ok (lvls m) (CallerAccessLevels a)"

definition categories :: "mem \<Rightarrow> Record \<Rightarrow> OperationCategory list" where
  "categories m a = slice_val (cats m) (OperationCategories a)"

definition levels :: "mem \<Rightarrow> Record \<Rightarrow> string list" where
  "levels m a = slice_val (lvls m) (CallerAccessLevels a)"

section \<open>Validation\<close>

definition CallerIdentityEntry_Validate :: "CallerIdentityEntry \<Rightarrow> goerr option" where
  "CallerIdentityEntry_Validate c = first_error [
     fail_if (Identity c = []) (errorf ''identity is required'' []),
     fail_if (Description c = []) (errorf ''description is required'' [])]"

definition TargetResourceEntry_Validate :: "TargetResourceEntry \<Rightarrow> goerr option" where
  "TargetResourceEntry_Validate t =
     fail_if (Name t = []) (errorf ''target resource name is required'' [])"

text \<open>The loops over the two maps: in iteration order, stopping at the first error.\<close>

fun validate_identities ::
  "(CallerIdentityType \<times> CallerIdentityEntry list option) list \<Rightarrow> goerr option" where
  "validate_identities [] = None"
| "validate_identities ((t, es) # rest) =
     (if elems es = []
      then Some (errorf (''at least one identity is required for identity type '' @
             the (CallerIdentityType_String t)) [])
      else first_error [first_error (map CallerIdentityEntry_Validate (elems es)),
                        validate_identities rest])"

fun validate_targets ::
  "(string \<times> TargetResourceEntry list option) list \<Rightarrow> goerr option" where
  "validate_targets [] = None"
| "validate_targets ((t, rs) # rest) =
     (if blank t
      then Some (errorf ''target resource type cannot be empty'' [])
      else first_error [first_error (map TargetResourceEntry_Validate (elems rs)),
                        validate_targets rest])"

definition Validate :: "mem \<Rightarrow> Record \<Rightarrow> goerr option" where
  "Validate m a = first_error [
     fail_if (ServiceTreeID a = []) (errorf ''service tree ID is required'' []),
     fail_if (OperationName a = []) (errorf ''operation name is required'' []),
     fail_if (slice_len (OperationCategories a) = 0)
       (errorf ''at least one operation category is required'' []),
     first_error (map (\<lambda>category.
         fail_if (category = OCOther \<and> OperationCategoryDescription a = [])
           (errorf (''operation category description is required for category '' @
              the (OperationCategory_String OCOther)) []))
       (categories m a)),
     fail_if (OperationResult a = Failure \<and> OperationResultDescription a = [])
       (errorf ''operation result description is required for failed operations'' []),
     fail_if (OperationAccessLevel a = []) (errorf ''operation access level is required'' []),
     fail_if (CallerAgent a = []) (errorf ''caller agent is required'' []),
     fail_if (entries (CallerIdentities a) = [])
       (errorf ''at least one caller identity is required'' []),
     validate_identities (entries (CallerIdentities a)),
     fail_if (\<not> IsValid (CallerIpAddress a)) (errorf ''caller IP address is required'' []),
     fail_if (IsUnspecified (CallerIpAddress a))
       (errorf ''caller IP address cannot be unspecified'' []),
     fail_if (IsLoopback (CallerIpAddress a)) (errorf ''caller IP address cannot be loopback'' []),
     fail_if (IsMulticast (CallerIpAddress a))
       (errorf ''caller IP address cannot be multicast'' []),
     fail_if (slice_len (CallerAccessLevels a) = 0)
       (errorf ''at least one caller access level is required'' []),
     first_error (map (\<lambda>k. fail_if (blank k)
           (errorf ''caller access level cannot be empty'' []))
       (levels m a)),
     fail_if (entries (TargetResources a) = [])
       (errorf ''at least one target resource is required'' []),
     validate_targets (entries (TargetResources a))]"

section \<open>Construction and cloning\<close>

text \<open>\<open>msgs.New\<close>. The \<open>%v\<close> of a message type prints its \<open>String\<close>.\<close>

definition New_Msg :: "Type \<Rightarrow> goerr + Msg" where
  "New_Msg t =
     (if t = DataPlane \<or> t = ControlPlane
      then Inr (Msg_zero\<lparr>msg_Type := t,
             msg_Record := Record_zero\<lparr>CallerIdentities := Some [], TargetResources := Some [],
               CustomData := Some []\<rparr>\<rparr>)
      else Inl (errorf (''invalid audit record type for New(): '' @ the (Type_String t)) []))"

definition cloneCallerIdentities ::
  "(CallerIdentityType, CallerIdentityEntry list option) gomap
     \<Rightarrow> (CallerIdentityType, CallerIdentityEntry list option) gomap" where
  "cloneCallerIdentities = map_option (map (\<lambda>(k, es). (k, Some (elems es))))"

definition cloneTargetResources ::
  "(string, TargetResourceEntry list option) gomap
     \<Rightarrow> (string, TargetResourceEntry list option) gomap" where
  "cloneTargetResources = map_option (map (\<lambda>(k, es). (k, Some (elems es))))"

text \<open>
  \<open>cloner v\<close> is \<open>Some v'\<close> if the dynamic type of \<open>v\<close> implements \<open>Cloner\<close> and its \<open>Clone\<close> method,
  which is the user's code, returns \<open>v'\<close>.
\<close>

definition cloneCustomData :: "(any \<Rightarrow> any option) \<Rightarrow> (string, any) gomap \<Rightarrow> (string, any) gomap" where
  "cloneCustomData cloner =
     map_option (map (\<lambda>(k, v). (k, case cloner v of Some v' \<Rightarrow> v' | None \<Rightarrow> v)))"

definition Clone :: "(any \<Rightarrow> any option) \<Rightarrow> mem \<Rightarrow> Record \<Rightarrow> Record \<times> mem" where
  "Clone cloner m a =
     (let (cs, st1) = Clone_slice (cats m) (OperationCategories a);
          (ls, st2) = Clone_slice (lvls m) (CallerAccessLevels a)
      in (a\<lparr>CallerIdentities := cloneCallerIdentities (CallerIdentities a),
            OperationCategories := cs,
            TargetResources := cloneTargetResources (TargetResources a),
            CallerAccessLevels := ls,
            CustomData := cloneCustomData cloner (CustomData a)\<rparr>,
          m\<lparr>cats := st1, lvls := st2\<rparr>))"

end
