(* ===== verification/MsgsFacts.thy ===== *)
theory MsgsFacts
  imports Msgs "HOL-Library.Multiset"
begin

text \<open>
  What \<open>Record.Validate\<close>, \<open>New\<close> and \<open>Record.Clone\<close> guarantee: validation decides the declarative
  predicate \<open>valid_record\<close>, whatever the iteration order of the maps; its errors carry no
  classification of their own; a clone has the contents of the original and shares none
  of its slices.
\<close>

section \<open>The rules as a predicate\<close>

definition valid_entry :: "CallerIdentityEntry \<Rightarrow> bool" where
  "valid_entry c \<longleftrightarrow> Identity c \<noteq> [] \<and> Description c \<noteq> []"

definition valid_address :: "netip_addr \<Rightarrow> bool" where
  "valid_address ip \<longleftrightarrow> IsValid ip \<and> \<not> IsUnspecified ip \<and> \<not> IsLoopback ip \<and> \<not> IsMulticast ip"

definition valid_record :: "mem \<Rightarrow> Record \<Rightarrow> bool" where
  "valid_record m a \<longleftrightarrow>
     ServiceTreeID a \<noteq> [] \<and> OperationName a \<noteq> [] \<and>
     OperationAccessLevel a \<noteq> [] \<and> CallerAgent a \<noteq> [] \<and>
     set (categories m a) \<noteq> {} \<and>
     (OCOther \<in> set (categories m a) \<longrightarrow> OperationCategoryDescription a \<noteq> []) \<and>
     (OperationResult a = Failure \<longrightarrow> OperationResultDescription a \<noteq> []) \<and>
     set (entries (CallerIdentities a)) \<noteq> {} \<and>
     (\<forall>(t, es) \<in> set (entries (CallerIdentities a)).
        elems es \<noteq> [] \<and> (\<forall>c \<in> set (elems es). valid_entry c)) \<and>
     valid_address (CallerIpAddress a) \<and>
     set (levels m a) \<noteq> {} \<and> (\<forall>k \<in> set (levels m a). \<not> blank k) \<and>
     set (entries (TargetResources a)) \<noteq> {} \<and>
     (\<forall>(t, rs) \<in> set (entries (TargetResources a)).
        \<not> blank t \<and> (\<forall>r \<in> set (elems rs). Name r \<noteq> []))"

lemma CallerIdentityEntry_Validate_None:
  "CallerIdentityEntry_Validate c = None \<longleftrightarrow> valid_entry c"
  by (simp add: CallerIdentityEntry_Validate_def valid_entry_def first_error_None)

lemma TargetResourceEntry_Validate_None: "TargetResourceEntry_Validate r = None \<longleftrightarrow> Name r \<noteq> []"
  by (simp add: TargetResourceEntry_Validate_def)

lemma validate_identities_None:
  "validate_identities kvs = None \<longleftrightarrow>
     (\<forall>(t, es) \<in> set kvs. elems es \<noteq> [] \<and> (\<forall>c \<in> set (elems es). valid_entry c))"
  by (induction kvs rule: validate_identities.induct)
     (auto simp: first_error_None CallerIdentityEntry_Validate_None)

lemma validate_targets_None:
  "validate_targets kvs = None \<longleftrightarrow>
     (\<forall>(t, rs) \<in> set kvs. \<not> blank t \<and> (\<forall>r \<in> set (elems rs). Name r \<noteq> []))"
  by (induction kvs rule: validate_targets.induct)
     (auto simp: first_error_None TargetResourceEntry_Validate_None)

lemma slice_len_categories:
  "record_ok m a \<Longrightarrow> slice_len (OperationCategories a) = 0 \<longleftrightarrow> categories m a = []"
  by (metis categories_def length_0_conv length_slice_val record_ok_def)

lemma slice_len_levels:
  "record_ok m a \<Longrightarrow> slice_len (CallerAccessLevels a) = 0 \<longleftrightarrow> levels m a = []"
  by (metis levels_def length_0_conv length_slice_val record_ok_def)

lemma Validate_None: "record_ok m a \<Longrightarrow> Validate m a = None \<longleftrightarrow> valid_record m a"
  unfolding Validate_def valid_record_def valid_address_def first_error_None
  by (auto simp: slice_len_categories slice_len_levels validate_identities_None
      validate_targets_None first_error_None)

lemma valid_record_levels: "valid_record m a \<Longrightarrow> k \<in> set (levels m a) \<Longrightarrow> \<not> blank k"
  by (simp add: valid_record_def)

text \<open>Validity looks at the maps and slices as sets only.\<close>

lemma valid_record_cong:
  assumes "set (entries (CallerIdentities a)) = set (entries (CallerIdentities b))"
    and "set (entries (TargetResources a)) = set (entries (TargetResources b))"
    and "set (categories m a) = set (categories m' b)" and "set (levels m a) = set (levels m' b)"
    and "a\<lparr>CallerIdentities := None, TargetResources := None, OperationCategories := NilSlice,
           CallerAccessLevels := NilSlice, CustomData := None\<rparr> =
         b\<lparr>CallerIdentities := None, TargetResources := None, OperationCategories := NilSlice,
           CallerAccessLevels := NilSlice, CustomData := None\<rparr>"
  shows "valid_record m a \<longleftrightarrow> valid_record m' b"
  using assms by (cases a, cases b) (simp add: valid_record_def)

section \<open>Properties of validation\<close>

text \<open>A concrete record, used by the witnesses.\<close>

definition sample_mem :: mem where
  "sample_mem = \<lparr>cats = \<lparr>cells = (\<lambda>_. [])(0 := [2]), next_addr = 1\<rparr>,
                 lvls = \<lparr>cells = (\<lambda>_. [])(0 := [''Level1'']), next_addr = 1\<rparr>\<rparr>"

definition sample_record :: Record where
  "sample_record = \<lparr>ServiceTreeID = ''id'', CallerIpAddress = ipv4 192 168 0 1,
     CallerIdentities = Some [(2, Some [\<lparr>Identity = ''user1@domain.com'', Description = ''Description''\<rparr>])],
     OperationCategories = Slice 0 0 1, CustomData = None,
     TargetResources = Some [(''ResourceType'', Some [\<lparr>Name = ''Name'', Cluster = ''Cluster'',
       DataCenter = ''DataCenter'', Region = ''Region''\<rparr>])],
     CallerAccessLevels = Slice 0 0 1, OperationAccessLevel = ''AccessLevel'',
     OperationName = ''Operation'', OperationResultDescription = ''ResultDescription'',
     CallerAgent = ''Agent'', OperationCategoryDescription = [], OperationType = 0,
     OperationResult = 0\<rparr>"

lemma sample_ok: "record_ok sample_mem sample_record"
  by (simp add: record_ok_def sample_mem_def sample_record_def slice_ok_def)

lemma sample_valid: "valid_record sample_mem sample_record"
  by (simp add: valid_record_def sample_mem_def sample_record_def categories_def levels_def
      slice_val_def const_defs entries_def elems_def valid_entry_def valid_address_def IsValid_def
      ipv4_def IsLoopback_def IsMulticast_def IsUnspecified_def Unmap_def blank_def space1_def
      space2_def space3_def)

text \<open>
  C18. \<open>Record.Validate\<close> decides exactly the documented rules: it returns nil if and only if
  the record satisfies \<open>valid_record\<close>, a predicate that mentions no order of the checks.
\<close>

theorem Validate_decides:
  assumes "record_ok m a"
  shows "Validate m a = None \<longleftrightarrow> valid_record m a"
  using assms by (rule Validate_None)

theorem Validate_decides_witness: "Validate sample_mem sample_record = None"
  using Validate_decides [OF sample_ok] sample_valid by blast

text \<open>
  C38. Whether a record is accepted does not depend on the order in which Go happens to iterate
  over its maps, although the error reported for a rejected record may.
\<close>

theorem Validate_order_independent:
  assumes "record_ok m a"
    and "mset ids = mset (entries (CallerIdentities a))"
    and "mset tgts = mset (entries (TargetResources a))"
  shows "Validate m (a\<lparr>CallerIdentities := Some ids, TargetResources := Some tgts\<rparr>) = None \<longleftrightarrow>
    Validate m a = None"
proof -
  let ?b = "a\<lparr>CallerIdentities := Some ids, TargetResources := Some tgts\<rparr>"
  have "record_ok m ?b" using assms(1) by (simp add: record_ok_def)
  moreover have "valid_record m ?b \<longleftrightarrow> valid_record m a"
    by (rule valid_record_cong)
       (use mset_eq_setD [OF assms(2)] mset_eq_setD [OF assms(3)]
         in \<open>simp_all add: entries_def categories_def levels_def\<close>)
  ultimately show ?thesis using assms(1) by (simp add: Validate_None)
qed

theorem Validate_order_independent_witness:
  "Validate sample_mem (sample_record\<lparr>CallerIdentities := Some (rev (entries (CallerIdentities sample_record))),
     TargetResources := Some (rev (entries (TargetResources sample_record)))\<rparr>) = None"
  using Validate_order_independent [OF sample_ok, of "rev (entries (CallerIdentities sample_record))"
      "rev (entries (TargetResources sample_record))"] Validate_None [OF sample_ok] sample_valid
  by simp

text \<open>Every validation error is a plain \<open>fmt.Errorf\<close> with nothing wrapped.\<close>

definition plain :: "goerr \<Rightarrow> bool" where
  "plain e \<longleftrightarrow> err_id e = None \<and> err_wraps e = []"

lemma plain_errorf [simp]: "plain (errorf s [])"
  by (simp add: plain_def errorf_def)

lemma plain_unclassified: "plain e \<Longrightarrow> \<not> errors_is e t"
  by (cases e) (simp add: plain_def)

definition plain_result :: "goerr option \<Rightarrow> bool" where
  "plain_result r = pred_option plain r"

lemma plain_result_simps [simp]:
  "plain_result None" "plain_result (Some e) \<longleftrightarrow> plain e" "plain_result (fail_if c e) \<longleftrightarrow> \<not> c \<or> plain e"
  by (simp_all add: plain_result_def fail_if_def)

lemma plain_result_first_error [simp]:
  "list_all plain_result es \<Longrightarrow> plain_result (first_error es)"
  by (induction es rule: first_error.induct) auto

lemma plain_result_map: "(\<And>x. plain_result (f x)) \<Longrightarrow> plain_result (first_error (map f xs))"
  by (simp add: list_all_iff)

lemma plain_result_loops:
  "plain_result (CallerIdentityEntry_Validate c)" "plain_result (TargetResourceEntry_Validate r)"
  "plain_result (validate_identities kvs)" "plain_result (validate_targets tvs)"
proof -
  show c: "plain_result (CallerIdentityEntry_Validate c)" for c
    unfolding CallerIdentityEntry_Validate_def by (rule plain_result_first_error) simp
  show r: "plain_result (TargetResourceEntry_Validate r)" for r
    by (simp add: TargetResourceEntry_Validate_def)
  show "plain_result (validate_identities kvs)"
    by (induction kvs rule: validate_identities.induct)
       (auto intro!: plain_result_first_error simp: plain_result_map c)
  show "plain_result (validate_targets tvs)"
    by (induction tvs rule: validate_targets.induct)
       (auto intro!: plain_result_first_error simp: plain_result_map r)
qed

lemma Validate_error_plain: "Validate m a = Some e \<Longrightarrow> plain e"
proof -
  have "plain_result (Validate m a)"
    unfolding Validate_def
    by (rule plain_result_first_error) (simp add: plain_result_loops plain_result_map)
  then show "Validate m a = Some e \<Longrightarrow> plain e" by simp
qed

lemma Validate_error_unclassified: "Validate m a = Some e \<Longrightarrow> \<not> errors_is e t"
  by (blast dest: Validate_error_plain plain_unclassified)

text \<open>
  The address rule has a gap: an unspecified IPv4 address written as an IPv4-mapped IPv6
  address, \<open>::ffff:0.0.0.0\<close>, is accepted, because \<open>netip\<close> unmaps it for the loopback and
  multicast tests but not for \<open>IsUnspecified\<close>. (The mapped loopback is rejected.)
\<close>

lemma mapped_unspecified_accepted:
  assumes "record_ok m a" and "Validate m a = None"
  shows "Validate m (a\<lparr>CallerIpAddress := Addr6 0xFFFF00000000 []\<rparr>) = None \<and>
    Validate m (a\<lparr>CallerIpAddress := Addr4 0\<rparr>) \<noteq> None \<and>
    Validate m (a\<lparr>CallerIpAddress := Addr6 0xFFFF7F000001 []\<rparr>) \<noteq> None"
proof -
  have valid: "valid_record m a"
    using assms by (simp add: Validate_None)
  have upd: "valid_record m (a\<lparr>CallerIpAddress := ip\<rparr>) \<longleftrightarrow> valid_address ip"
    and ok: "record_ok m (a\<lparr>CallerIpAddress := ip\<rparr>)" for ip
    using valid assms(1) by (simp_all add: valid_record_def record_ok_def categories_def levels_def)
  have "valid_address (Addr6 0xFFFF00000000 [])" "\<not> valid_address (Addr4 0)"
    "\<not> valid_address (Addr6 0xFFFF7F000001 [])"
    by (simp_all add: valid_address_def IsValid_def IsUnspecified_def IsLoopback_def
        IsMulticast_def Unmap_def Is4In6_def)
  then show ?thesis by (simp add: Validate_None [OF ok] upd)
qed

section \<open>Construction and cloning\<close>

lemma elems_Some [simp]: "elems (Some xs) = xs"
  by (simp add: elems_def)

lemma validate_identities_clone:
  "validate_identities (entries (cloneCallerIdentities kvs)) = validate_identities (entries kvs)"
proof -
  have "validate_identities (map (\<lambda>(k, es). (k, Some (elems es))) l) = validate_identities l" for l
    by (induction l rule: validate_identities.induct) auto
  then show ?thesis by (simp add: cloneCallerIdentities_def entries_def split: option.split)
qed

lemma validate_targets_clone:
  "validate_targets (entries (cloneTargetResources kvs)) = validate_targets (entries kvs)"
proof -
  have "validate_targets (map (\<lambda>(k, es). (k, Some (elems es))) l) = validate_targets l" for l
    by (induction l rule: validate_targets.induct) auto
  then show ?thesis by (simp add: cloneTargetResources_def entries_def split: option.split)
qed

lemma entries_clone_Nil [simp]:
  "entries (cloneCallerIdentities x) = [] \<longleftrightarrow> entries x = []"
  "entries (cloneTargetResources y) = [] \<longleftrightarrow> entries y = []"
  by (simp_all add: cloneCallerIdentities_def cloneTargetResources_def entries_def split: option.split)

lemma slice_len_Clone: "Clone_slice st s = (s', st') \<Longrightarrow> slice_len s' = slice_len s"
  by (auto simp: Clone_slice_def slice_len_def split: slice.splits)

lemma Clone_deep_facts:
  assumes "record_ok m a" and "Clone cloner m a = (b, m')"
  shows "categories m' b = categories m a \<and> levels m' b = levels m a \<and>
    record_ok m' b \<and> Validate m' b = Validate m a \<and>
    (\<forall>c. record_ok m c \<longrightarrow> record_ok m' c \<and>
       categories m' c = categories m c \<and> levels m' c = levels m c \<and>
       disjoint_slices (OperationCategories b) (OperationCategories c) \<and>
       disjoint_slices (CallerAccessLevels b) (CallerAccessLevels c))"
proof -
  obtain cs st1 ls st2 where cs: "Clone_slice (cats m) (OperationCategories a) = (cs, st1)"
    and ls: "Clone_slice (lvls m) (CallerAccessLevels a) = (ls, st2)"
    by (metis surj_pair)
  have b: "b = a\<lparr>CallerIdentities := cloneCallerIdentities (CallerIdentities a),
      OperationCategories := cs, TargetResources := cloneTargetResources (TargetResources a),
      CallerAccessLevels := ls, CustomData := cloneCustomData cloner (CustomData a)\<rparr>"
    and m': "m' = m\<lparr>cats := st1, lvls := st2\<rparr>"
    using assms(2) by (auto simp: Clone_def cs ls)
  have ok: "slice_ok (cats m) (OperationCategories a)" "slice_ok (lvls m) (CallerAccessLevels a)"
    using assms(1) by (simp_all add: record_ok_def)
  note c = Clone_slice_val [OF ok(1) cs] and l = Clone_slice_val [OF ok(2) ls]
  have same: "categories m' b = categories m a" "levels m' b = levels m a"
    using c(1) l(1) by (simp_all add: categories_def levels_def b m')
  have "record_ok m' b" using c(2) l(2) by (simp add: record_ok_def b m')
  moreover have "Validate m' b = Validate m a"
    unfolding Validate_def same
    by (simp add: b slice_len_Clone [OF cs] slice_len_Clone [OF ls] validate_identities_clone
        validate_targets_clone)
  ultimately show ?thesis
    using same c(3-5) l(3-5)
    by (auto simp: record_ok_def categories_def levels_def b m')
qed

text \<open>
  C32. \<open>Record.Clone\<close> is deep in the slices the library later writes to: the clone reads the same
  categories and access levels and validates to the same result, its slices share no backing
  array with any record that existed before, and no such record reads differently afterwards.
\<close>

theorem Clone_deep:
  assumes "record_ok m a" and "Clone cloner m a = (b, m')"
  shows "categories m' b = categories m a \<and> levels m' b = levels m a \<and>
    record_ok m' b \<and> Validate m' b = Validate m a \<and>
    (\<forall>c. record_ok m c \<longrightarrow> record_ok m' c \<and>
       categories m' c = categories m c \<and> levels m' c = levels m c \<and>
       disjoint_slices (OperationCategories b) (OperationCategories c) \<and>
       disjoint_slices (CallerAccessLevels b) (CallerAccessLevels c))"
  using assms by (rule Clone_deep_facts)

theorem Clone_deep_witness:
  "\<exists>b m'. Clone (\<lambda>_. None) sample_mem sample_record = (b, m') \<and> Validate m' b = None \<and>
     disjoint_slices (OperationCategories b) (OperationCategories sample_record)"
proof -
  obtain b m' where b: "Clone (\<lambda>_. None) sample_mem sample_record = (b, m')" by fastforce
  from Clone_deep [OF sample_ok b] sample_ok sample_valid b Validate_None [OF sample_ok]
  show ?thesis by auto
qed

text \<open>
  \<open>New\<close> makes a message of exactly the two types a user may send, with non-nil empty maps,
  and refuses every other type; an unfilled new record is not yet valid.
\<close>

lemma New_Msg_spec:
  "(t = DataPlane \<or> t = ControlPlane \<longrightarrow> (\<exists>msg. New_Msg t = Inr msg \<and> msg_Type msg = t \<and>
      CallerIdentities (msg_Record msg) = Some [] \<and> TargetResources (msg_Record msg) = Some [] \<and>
      CustomData (msg_Record msg) = Some [] \<and> Validate m (msg_Record msg) \<noteq> None)) \<and>
   (t \<noteq> DataPlane \<and> t \<noteq> ControlPlane \<longrightarrow> (\<exists>e. New_Msg t = Inl e))"
  by (simp add: New_Msg_def Msg_zero_def Record_zero_def Validate_def)

end
