(* ===== verification/Marshal.thy ===== *)
theory Marshal
  imports MsgsFacts
begin

text \<open>
  \<open>marshalPrep\<close> and \<open>MarshalMsgpack\<close> of \<open>audit/msgs\<close>. \<open>marshalPrep\<close> sorts and compacts the two slices of
  a record through the headers it was handed, so it writes to arrays the caller still
  holds: the operations here take the memory and return it. The encoder \<open>enc\<close>
  (\<open>msgpack.Marshal\<close>) and the clock reading \<open>t\<close> (\<open>time.Now().Unix()\<close>) are arguments.
\<close>

section \<open>The envelope\<close>

text \<open>The \<open>[3]any\<close> value: type name, time, body, time format. Its record holds headers.\<close>

datatype anybody = ARecord Record | AHeartbeat HeartbeatMsg | ADiagnostic DiagnosticMsg

record envelope =
  env_tag :: string
  env_time :: int
  env_body :: anybody
  env_format :: string

definition genevaTF :: string where
  "genevaTF = ''DateTime''"

definition marshalPrep :: "int \<Rightarrow> mem \<Rightarrow> Msg \<Rightarrow> (goerr + envelope) \<times> mem" where
  "marshalPrep t m msg =
     (let now = (case msg_now msg of None \<Rightarrow> t | Some u \<Rightarrow> u);
          wrap = (\<lambda>a. \<lparr>env_tag = the (Type_String (msg_Type msg)), env_time = now,
                        env_body = a, env_format = genevaTF\<rparr>);
          r = msg_Record msg
      in if msg_Type msg = DataPlane \<or> msg_Type msg = ControlPlane then
           (let (cs, st1) = sort_compact 0 (cats m) (OperationCategories r);
                (ls, st2) = sort_compact [] (lvls m) (CallerAccessLevels r)
            in (Inr (wrap (ARecord (r\<lparr>OperationCategories := cs, CallerAccessLevels := ls\<rparr>))),
                m\<lparr>cats := st1, lvls := st2\<rparr>))
         else if msg_Type msg = Heartbeat then (Inr (wrap (AHeartbeat (msg_Heartbeat msg))), m)
         else if msg_Type msg = Diagnostic then (Inr (wrap (ADiagnostic (msg_Diagnostic msg))), m)
         else (Inl (errorf (''unknown audit type: '' @ itoa (uint (msg_Type msg))) []), m))"

text \<open>
  What the encoder reads: the headers resolved in the memory of that moment. In a resolved
  record the slices are lists, \<open>None\<close> for nil, and the headers are cleared.
\<close>

datatype wirebody =
    WRecord Record "OperationCategory list option" "string list option"
  | WHeartbeat HeartbeatMsg
  | WDiagnostic DiagnosticMsg

record wire =
  w_tag :: string
  w_time :: int
  w_body :: wirebody
  w_format :: string

definition slice_view :: "'a store \<Rightarrow> slice \<Rightarrow> 'a list option" where
  "slice_view st s = (if s = NilSlice then None else Some (slice_val st s))"

definition resolve :: "mem \<Rightarrow> envelope \<Rightarrow> wire" where
  "resolve m p =
     \<lparr>w_tag = env_tag p, w_time = env_time p,
      w_body = (case env_body p of
          ARecord r \<Rightarrow> WRecord (r\<lparr>OperationCategories := NilSlice, CallerAccessLevels := NilSlice\<rparr>)
             (slice_view (cats m) (OperationCategories r)) (slice_view (lvls m) (CallerAccessLevels r))
        | AHeartbeat h \<Rightarrow> WHeartbeat h
        | ADiagnostic d \<Rightarrow> WDiagnostic d),
      w_format = env_format p\<rparr>"

definition MarshalMsgpack ::
  "(wire \<Rightarrow> goerr + string) \<Rightarrow> int \<Rightarrow> mem \<Rightarrow> Msg \<Rightarrow> (goerr + string) \<times> mem" where
  "MarshalMsgpack enc t m msg =
     (case marshalPrep t m msg of
        (Inl e, m') \<Rightarrow> (Inl e, m')
      | (Inr p, m') \<Rightarrow> (enc (resolve m' p), m'))"

definition wire_categories :: "wire \<Rightarrow> OperationCategory list" where
  "wire_categories w = (case w_body w of WRecord r cs ls \<Rightarrow> elems cs | _ \<Rightarrow> [])"

definition wire_levels :: "wire \<Rightarrow> string list" where
  "wire_levels w = (case w_body w of WRecord r cs ls \<Rightarrow> elems ls | _ \<Rightarrow> [])"

section \<open>Laws\<close>

definition user_type :: "Type \<Rightarrow> bool" where
  "user_type t \<longleftrightarrow> t = DataPlane \<or> t = ControlPlane"

lemma elems_slice_view [simp]: "elems (slice_view st s) = slice_val st s"
  by (simp add: slice_view_def elems_def)

text \<open>The wire tags of the two user types.\<close>

lemma Type_String_user: "Type_String 1 = Some ''AsmAuditDP''" "Type_String 2 = Some ''AsmAuditCP''"
  by code_simp+

text \<open>One unfolding of \<open>marshalPrep\<close> on a user message, with its two slices named.\<close>

lemma marshalPrep_user:
  assumes "user_type (msg_Type msg)" and "record_ok m (msg_Record msg)"
    and "marshalPrep t m msg = (res, m')"
  obtains p cs ls st1 st2 where
    "sort_compact 0 (cats m) (OperationCategories (msg_Record msg)) = (cs, st1)"
    "sort_compact [] (lvls m) (CallerAccessLevels (msg_Record msg)) = (ls, st2)"
    "res = Inr p" "m' = m\<lparr>cats := st1, lvls := st2\<rparr>"
    "p = \<lparr>env_tag = the (Type_String (msg_Type msg)),
          env_time = (case msg_now msg of None \<Rightarrow> t | Some u \<Rightarrow> u),
          env_body = ARecord ((msg_Record msg)\<lparr>OperationCategories := cs, CallerAccessLevels := ls\<rparr>),
          env_format = genevaTF\<rparr>"
  using assms(1,3) that
  by (auto simp: marshalPrep_def user_type_def Let_def split: prod.splits)

text \<open>The memory stays well formed: a header that was good before is good after.\<close>

lemma marshalPrep_mem_ok:
  assumes "record_ok m (msg_Record msg)" and "marshalPrep t m msg = (res, m')" and "record_ok m r"
  shows "record_ok m' r"
proof (cases "user_type (msg_Type msg)")
  case True
  from marshalPrep_user [OF True assms(1,2)] obtain cs ls st1 st2 where
    c: "sort_compact 0 (cats m) (OperationCategories (msg_Record msg)) = (cs, st1)" and
    l: "sort_compact [] (lvls m) (CallerAccessLevels (msg_Record msg)) = (ls, st2)" and
    m': "m' = m\<lparr>cats := st1, lvls := st2\<rparr>" by metis
  show ?thesis
    using assms(1,3) sort_compact_val(3) [OF _ c] sort_compact_val(3) [OF _ l]
    by (simp add: record_ok_def m')
next
  case False
  then show ?thesis
    using assms(2,3) by (auto simp: marshalPrep_def user_type_def Let_def split: if_splits)
qed

text \<open>
  What the wire carries and what the caller's headers read afterwards, in one statement.
\<close>

lemma marshalPrep_effect:
  assumes "user_type (msg_Type msg)" and "record_ok m (msg_Record msg)"
    and "marshalPrep t m msg = (res, m')"
  shows "\<exists>p. res = Inr p \<and>
    wire_categories (resolve m' p) = remdups_adj (sort (categories m (msg_Record msg))) \<and>
    wire_levels (resolve m' p) = remdups_adj (sort (levels m (msg_Record msg))) \<and>
    (\<exists>i j. categories m' (msg_Record msg) = wire_categories (resolve m' p) @ replicate i 0 \<and>
       levels m' (msg_Record msg) = wire_levels (resolve m' p) @ replicate j [] \<and>
       (i = 0 \<longleftrightarrow> distinct (categories m (msg_Record msg))) \<and>
       (j = 0 \<longleftrightarrow> distinct (levels m (msg_Record msg))))"
proof -
  let ?r = "msg_Record msg"
  from marshalPrep_user [OF assms] obtain p cs ls st1 st2 where
    c: "sort_compact 0 (cats m) (OperationCategories ?r) = (cs, st1)" and
    l: "sort_compact [] (lvls m) (CallerAccessLevels ?r) = (ls, st2)" and
    res: "res = Inr p" and m': "m' = m\<lparr>cats := st1, lvls := st2\<rparr>" and
    p: "env_body p = ARecord (?r\<lparr>OperationCategories := cs, CallerAccessLevels := ls\<rparr>)"
    by (metis envelope.select_convs(3))
  have ok: "slice_ok (cats m) (OperationCategories ?r)" "slice_ok (lvls m) (CallerAccessLevels ?r)"
    using assms(2) by (simp_all add: record_ok_def)
  have wc: "wire_categories (resolve m' p) = slice_val st1 cs"
    and wl: "wire_levels (resolve m' p) = slice_val st2 ls"
    by (simp_all add: wire_categories_def wire_levels_def resolve_def p m')
  obtain i where i: "slice_val st1 (OperationCategories ?r) = slice_val st1 cs @ replicate i 0"
    "i = 0 \<longleftrightarrow> distinct (slice_val (cats m) (OperationCategories ?r))"
    using sort_compact_residue [OF ok(1) c] by (elim exE conjE)
  obtain j where j: "slice_val st2 (CallerAccessLevels ?r) = slice_val st2 ls @ replicate j []"
    "j = 0 \<longleftrightarrow> distinct (slice_val (lvls m) (CallerAccessLevels ?r))"
    using sort_compact_residue [OF ok(2) l] by (elim exE conjE)
  have at: "categories m' ?r = slice_val st1 (OperationCategories ?r)"
    "levels m' ?r = slice_val st2 (CallerAccessLevels ?r)"
    by (simp_all add: categories_def levels_def m')
  have A: "wire_categories (resolve m' p) = remdups_adj (sort (categories m ?r))"
    by (simp only: wc categories_def sort_compact_val(1) [OF ok(1) c])
  have B: "wire_levels (resolve m' p) = remdups_adj (sort (levels m ?r))"
    by (simp only: wl levels_def sort_compact_val(1) [OF ok(2) l])
  have C: "categories m' ?r = wire_categories (resolve m' p) @ replicate i 0"
    by (simp only: at wc i(1))
  have D: "levels m' ?r = wire_levels (resolve m' p) @ replicate j []"
    by (simp only: at wl j(1))
  from i(2) j(2) have E: "i = 0 \<longleftrightarrow> distinct (categories m ?r)" "j = 0 \<longleftrightarrow> distinct (levels m ?r)"
    by (simp_all only: categories_def levels_def)
  show ?thesis
    by (intro exI [of _ p] exI [of _ i] exI [of _ j] conjI) (rule res A B C D E)+
qed

section \<open>Properties\<close>

text \<open>
  C20. What goes on the wire for a user message: the type's tag, the clock reading, the Geneva
  time format, and the record with its categories and access levels each strictly sorted and
  without duplicates, keeping exactly the elements it had; every other field is untouched.
\<close>

theorem marshal_wire_content:
  assumes "user_type (msg_Type msg)" and "record_ok m (msg_Record msg)"
    and "msg_now msg = None"
  shows "\<exists>w m'. MarshalMsgpack enc t m msg = (enc w, m') \<and>
    w_tag w = (if msg_Type msg = DataPlane then ''AsmAuditDP'' else ''AsmAuditCP'') \<and>
    w_time w = t \<and> w_format w = ''DateTime'' \<and>
    sorted_wrt (<) (wire_categories w) \<and>
    set (wire_categories w) = set (categories m (msg_Record msg)) \<and>
    sorted_wrt (<) (wire_levels w) \<and> set (wire_levels w) = set (levels m (msg_Record msg)) \<and>
    (\<exists>cs ls. w_body w = WRecord ((msg_Record msg)\<lparr>OperationCategories := NilSlice,
        CallerAccessLevels := NilSlice\<rparr>) cs ls)"
proof -
  obtain res m' where prep: "marshalPrep t m msg = (res, m')" by fastforce
  from marshalPrep_effect [OF assms(1,2) prep] obtain p where p: "res = Inr p"
    and cats: "wire_categories (resolve m' p) = remdups_adj (sort (categories m (msg_Record msg)))"
    and lvls: "wire_levels (resolve m' p) = remdups_adj (sort (levels m (msg_Record msg)))"
    by blast
  have tag: "the (Type_String (msg_Type msg)) =
      (if msg_Type msg = DataPlane then ''AsmAuditDP'' else ''AsmAuditCP'')"
    using assms(1) Type_String_user by (auto simp: user_type_def const_defs)
  have body: "w_tag (resolve m' p) = the (Type_String (msg_Type msg)) \<and>
      w_time (resolve m' p) = t \<and> w_format (resolve m' p) = ''DateTime'' \<and>
      (\<exists>cs ls. w_body (resolve m' p) = WRecord ((msg_Record msg)\<lparr>OperationCategories := NilSlice,
        CallerAccessLevels := NilSlice\<rparr>) cs ls)"
    by (rule marshalPrep_user [OF assms(1,2) prep])
       (use assms(3) in \<open>simp add: p resolve_def genevaTF_def\<close>)
  then obtain cs ls where body': "w_body (resolve m' p) = WRecord ((msg_Record msg)\<lparr>
      OperationCategories := NilSlice, CallerAccessLevels := NilSlice\<rparr>) cs ls"
    by blast
  show ?thesis
  proof (intro exI conjI)
    show "MarshalMsgpack enc t m msg = (enc (resolve m' p), m')"
      by (simp add: MarshalMsgpack_def prep p)
    show "w_body (resolve m' p) = WRecord ((msg_Record msg)\<lparr>
        OperationCategories := NilSlice, CallerAccessLevels := NilSlice\<rparr>) cs ls"
      by (rule body')
  qed (use body tag in \<open>simp_all add: cats lvls remdups_adj_strict\<close>)
qed

theorem marshal_wire_content_witness:
  "\<exists>m'. MarshalMsgpack (\<lambda>w. Inr (w_tag w)) 7 sample_mem
      (Msg_zero\<lparr>msg_Type := DataPlane, msg_Record := sample_record\<rparr>) = (Inr ''AsmAuditDP'', m')"
  using marshal_wire_content [of "Msg_zero\<lparr>msg_Type := DataPlane, msg_Record := sample_record\<rparr>"
      sample_mem "\<lambda>w. Inr (w_tag w)" 7] sample_ok
  by (auto simp: user_type_def Msg_zero_def)

text \<open>
  C29. Encoding writes to the caller's own slices. After one encoding the caller's record reads
  the sorted distinct values followed by zero values (category 0, the empty access level), one
  for every duplicate it held; only a record without duplicates keeps its contents.
\<close>

theorem marshal_mutates_caller:
  assumes "user_type (msg_Type msg)" and "record_ok m (msg_Record msg)"
    and "marshalPrep t m msg = (res, m')"
  shows "\<exists>i j. categories m' (msg_Record msg) =
      remdups_adj (sort (categories m (msg_Record msg))) @ replicate i 0 \<and>
    levels m' (msg_Record msg) = remdups_adj (sort (levels m (msg_Record msg))) @ replicate j [] \<and>
    (i = 0 \<longleftrightarrow> distinct (categories m (msg_Record msg))) \<and>
    (j = 0 \<longleftrightarrow> distinct (levels m (msg_Record msg)))"
  using marshalPrep_effect [OF assms] by force

text \<open>A sample with a duplicate access level.\<close>

definition dup_mem :: mem where
  "dup_mem = sample_mem\<lparr>lvls := \<lparr>cells = (\<lambda>_. [])(0 := [''b'', ''a'', ''b'']), next_addr = 1\<rparr>\<rparr>"

definition dup_msg :: Msg where
  "dup_msg = Msg_zero\<lparr>msg_Type := DataPlane,
     msg_Record := sample_record\<lparr>CallerAccessLevels := Slice 0 0 3\<rparr>\<rparr>"

lemma dup_ok: "record_ok dup_mem (msg_Record dup_msg)" "user_type (msg_Type dup_msg)"
  by (simp_all add: dup_mem_def dup_msg_def sample_mem_def sample_record_def record_ok_def
      slice_ok_def user_type_def)

lemma dup_levels: "levels dup_mem (msg_Record dup_msg) = [''b'', ''a'', ''b'']"
  by (simp add: dup_mem_def dup_msg_def levels_def slice_val_def)

theorem marshal_mutates_caller_witness:
  "\<exists>j. levels (snd (marshalPrep 0 dup_mem dup_msg)) (msg_Record dup_msg) =
     remdups_adj (sort [''b'', ''a'', ''b'']) @ replicate j [] \<and> j \<noteq> 0"
  using marshal_mutates_caller [OF dup_ok(2,1), of 0 "fst (marshalPrep 0 dup_mem dup_msg)"
      "snd (marshalPrep 0 dup_mem dup_msg)"]
  by (auto simp: dup_levels)

text \<open>
  C30. The consequence for a record that is valid but holds a duplicate access level: after it has
  been encoded once, the very same record no longer validates, so sending it again is
  refused; and if it is encoded again without validation, as a requeued message is, the empty
  access level goes out on the wire.
\<close>

theorem resend_corrupted:
  assumes "user_type (msg_Type msg)" and "record_ok m (msg_Record msg)"
    and "\<not> distinct (levels m (msg_Record msg))"
    and "marshalPrep t m msg = (res, m')" and "marshalPrep t' m' msg = (res2, m'')"
  shows "Validate m' (msg_Record msg) \<noteq> None \<and>
    (\<exists>p2. res2 = Inr p2 \<and> [] \<in> set (wire_levels (resolve m'' p2)))"
proof -
  let ?r = "msg_Record msg"
  have ok': "record_ok m' ?r" by (rule marshalPrep_mem_ok [OF assms(2,4,2)])
  from marshalPrep_effect [OF assms(1,2,4)] assms(3) have empty: "[] \<in> set (levels m' ?r)"
    by force
  then have "\<not> valid_record m' ?r" using valid_record_levels blank_Nil by blast
  then have "Validate m' ?r \<noteq> None" by (simp add: Validate_None [OF ok'])
  with marshalPrep_effect [OF assms(1) ok' assms(5)] empty show ?thesis by auto
qed

theorem resend_corrupted_witness:
  "Validate (snd (marshalPrep 0 dup_mem dup_msg)) (msg_Record dup_msg) \<noteq> None"
  using resend_corrupted [OF dup_ok(2,1), of 0 "fst (marshalPrep 0 dup_mem dup_msg)"
      "snd (marshalPrep 0 dup_mem dup_msg)" 0
      "fst (marshalPrep 0 (snd (marshalPrep 0 dup_mem dup_msg)) dup_msg)"
      "snd (marshalPrep 0 (snd (marshalPrep 0 dup_mem dup_msg)) dup_msg)"]
  by (simp add: dup_levels)

text \<open>
  C31. Cloning isolates: encoding a message that carries a clone of a record leaves the original's
  categories and access levels as they were, duplicates and order included.
\<close>

theorem marshal_clone_isolated:
  assumes "record_ok m a" and "Clone cloner m a = (b, m1)"
    and "user_type (msg_Type msg)" and "msg_Record msg = b"
    and "marshalPrep t m1 msg = (res, m2)"
  shows "categories m2 a = categories m a \<and> levels m2 a = levels m a"
proof -
  from Clone_deep_facts [OF assms(1,2)] assms(1) have ok: "record_ok m1 b"
    and same: "categories m1 a = categories m a" "levels m1 a = levels m a"
    and disj: "disjoint_slices (OperationCategories b) (OperationCategories a)"
      "disjoint_slices (CallerAccessLevels b) (CallerAccessLevels a)" by blast+
  from assms(4) ok have "record_ok m1 (msg_Record msg)" by simp
  from marshalPrep_user [OF assms(3) this assms(5)] obtain cs ls st1 st2 where
    c: "sort_compact 0 (cats m1) (OperationCategories b) = (cs, st1)" and
    l: "sort_compact [] (lvls m1) (CallerAccessLevels b) = (ls, st2)" and
    m2: "m2 = m1\<lparr>cats := st1, lvls := st2\<rparr>" unfolding assms(4) by metis
  from ok have "slice_ok (cats m1) (OperationCategories b)" "slice_ok (lvls m1) (CallerAccessLevels b)"
    by (simp_all add: record_ok_def)
  from sort_compact_val(4) [OF this(1) c disj(1)] sort_compact_val(4) [OF this(2) l disj(2)] same
  show ?thesis by (simp add: categories_def levels_def m2)
qed

theorem marshal_clone_isolated_witness:
  "\<exists>b m1. Clone (\<lambda>_. None) dup_mem (msg_Record dup_msg) = (b, m1) \<and>
     levels (snd (marshalPrep 0 m1 (dup_msg\<lparr>msg_Record := b\<rparr>))) (msg_Record dup_msg) =
       [''b'', ''a'', ''b'']"
proof -
  obtain b m1 where b: "Clone (\<lambda>_. None) dup_mem (msg_Record dup_msg) = (b, m1)" by fastforce
  from marshal_clone_isolated [OF dup_ok(1) b, of "dup_msg\<lparr>msg_Record := b\<rparr>" 0
      "fst (marshalPrep 0 m1 (dup_msg\<lparr>msg_Record := b\<rparr>))"
      "snd (marshalPrep 0 m1 (dup_msg\<lparr>msg_Record := b\<rparr>))"] b dup_ok(2)
  show ?thesis by (auto simp: dup_levels)
qed

end
