(* ===== verification/Conn.thy ===== *)
theory Conn
  imports Marshal StringerFacts
begin

text \<open>
  \<open>audit/conn\<close>: the connection types behind the \<open>conn.Audit\<close> interface (\<open>NoOP\<close>, a Unix domain
  socket, TCP, the hanging test connection), the generic writer over a \<open>net.Conn\<close> they share,
  and their constructors. A network connection is a number; what the network does is an argument:
  the encoder, the clock readings and the result of \<open>net.Conn.Write\<close> in \<open>netenv\<close>; \<open>os.Stat\<close>,
  \<open>net.DialTimeout\<close> and the length of the close pool in the constructors.

  What the sender relies on from a connection is the locale \<open>audit_connection\<close>.
\<close>

section \<open>Connection types\<close>

type_synonym ConnType = "8 word"

definition TypeUnknown :: ConnType where "TypeUnknown = 0"
definition TypeNoOP :: ConnType where "TypeNoOP = 1"
definition TypeDomainSocket :: ConnType where "TypeDomainSocket = 2"
definition TypeTCP :: ConnType where "TypeTCP = 3"

lemmas [const_defs] = TypeUnknown_def TypeNoOP_def TypeDomainSocket_def TypeTCP_def

definition ConnType_name :: string where
  "ConnType_name = ''UnknownNoOPUnixDomainSocketTCP''"
definition ConnType_index :: "8 word list" where
  "ConnType_index = [0, 7, 11, 27, 30]"
definition ConnType_String :: "ConnType \<Rightarrow> string option" where
  "ConnType_String = stringer_String ''Type'' ConnType_name ConnType_index"

interpretation ct: named_table ConnType_name ConnType_index
  "[''Unknown'', ''NoOP'', ''UnixDomainSocket'', ''TCP'']" 4
  by unfold_locales code_simp+

lemma ConnType_String_total: "ConnType_String t \<noteq> None"
  unfolding ConnType_String_def by (rule ct.String_total) simp

section \<open>The writer\<close>

text \<open>\<open>writer.Conn\<close> over the network connection with this number.\<close>

record writer =
  wr_conn :: nat

datatype audit_conn =
    NoOP
  | DomainSocketConn writer
  | TCPConn writer
  | TestHangConn (hangOnCloseSend: bool)

text \<open>Calls on a network connection, in the order they are made. Times are in nanoseconds.\<close>

datatype netop = SetWriteDeadline nat int | NetWrite nat string | NetClose nat

record netenv =
  ne_now :: int
  ne_unix :: int
  ne_enc :: "wire \<Rightarrow> goerr + string"
  ne_write :: "string \<Rightarrow> goerr option"

definition writer_New :: "nat \<Rightarrow> goerr + writer" where
  "writer_New conn = Inr \<lparr>wr_conn = conn\<rparr>"

definition writer_Write ::
  "netenv \<Rightarrow> mem \<Rightarrow> writer \<Rightarrow> Msg \<Rightarrow> goerr option \<times> mem \<times> netop list" where
  "writer_Write ne m c msg =
     (let dl = SetWriteDeadline (wr_conn c) (ne_now ne + 15 * 1000000000)
      in case MarshalMsgpack (ne_enc ne) (ne_unix ne) m msg of
           (Inl e, m') \<Rightarrow> (Some e, m', [dl])
         | (Inr b, m') \<Rightarrow> (ne_write ne b, m', [dl, NetWrite (wr_conn c) b]))"

text \<open>
  \<open>CloseSend\<close> of the writer hands the close to the pool and returns nil at once; the pool then
  closes the connection. The hanging test connection does not return.
\<close>

datatype close_result = Hangs | Returns "goerr option" "netop list"

definition writer_CloseSend :: "writer \<Rightarrow> close_result" where
  "writer_CloseSend c = Returns None [NetClose (wr_conn c)]"

section \<open>The interface conn.Audit\<close>

text \<open>The methods of the types that do not embed the writer, and \<open>Type\<close> of those that do.\<close>

definition NoOP_Type :: ConnType where [simp]: "NoOP_Type = TypeNoOP"
definition DomainSocketConn_Type :: ConnType where [simp]: "DomainSocketConn_Type = TypeDomainSocket"
definition TCPConn_Type :: ConnType where [simp]: "TCPConn_Type = TypeTCP"
definition TestHangConn_Type :: ConnType where [simp]: "TestHangConn_Type = TypeTCP"

definition NewNoOP :: audit_conn where [simp]: "NewNoOP = NoOP"

definition NoOP_Write :: "Msg \<Rightarrow> goerr option" where [simp]: "NoOP_Write msg = None"
definition TestHangConn_Write :: "Msg \<Rightarrow> goerr option" where [simp]: "TestHangConn_Write msg = None"

definition NoOP_CloseSend :: close_result where [simp]: "NoOP_CloseSend = Returns None []"
definition TestHangConn_CloseSend :: "bool \<Rightarrow> close_result" where
  [simp]: "TestHangConn_CloseSend hang = (if hang then Hangs else Returns None [])"

text \<open>A call through the interface.\<close>

definition conn_Type :: "audit_conn \<Rightarrow> ConnType" where
  "conn_Type a =
     (case a of NoOP \<Rightarrow> NoOP_Type
      | DomainSocketConn w \<Rightarrow> DomainSocketConn_Type
      | TCPConn w \<Rightarrow> TCPConn_Type
      | TestHangConn h \<Rightarrow> TestHangConn_Type)"

definition conn_Write ::
  "netenv \<Rightarrow> mem \<Rightarrow> audit_conn \<Rightarrow> Msg \<Rightarrow> goerr option \<times> mem \<times> netop list" where
  "conn_Write ne m a msg =
     (case a of NoOP \<Rightarrow> (NoOP_Write msg, m, [])
      | DomainSocketConn w \<Rightarrow> writer_Write ne m w msg
      | TCPConn w \<Rightarrow> writer_Write ne m w msg
      | TestHangConn h \<Rightarrow> (TestHangConn_Write msg, m, []))"

definition conn_CloseSend :: "audit_conn \<Rightarrow> close_result" where
  "conn_CloseSend a =
     (case a of NoOP \<Rightarrow> NoOP_CloseSend
      | DomainSocketConn w \<Rightarrow> writer_CloseSend w
      | TCPConn w \<Rightarrow> writer_CloseSend w
      | TestHangConn h \<Rightarrow> TestHangConn_CloseSend h)"

text \<open>\<open>NewTestHangConn\<close> panics outside tests.\<close>

definition NewTestHangConn :: "bool \<Rightarrow> audit_conn option" where
  "NewTestHangConn testing = (if testing then Some (TestHangConn True) else None)"

section \<open>Constructors\<close>

record dsOptions =
  path :: string

definition asaSocket :: string where
  "asaSocket = ''/var/run/mdsd/asa/default_fluent.socket''"
definition fluentSocket :: string where
  "fluentSocket = ''/var/run/mdsd/default_fluent.socket''"

definition setDefaults :: "(string \<Rightarrow> goerr option) \<Rightarrow> dsOptions \<Rightarrow> dsOptions" where
  "setDefaults stat o1 =
     (if path o1 \<noteq> [] then o1
      else case stat asaSocket of
             None \<Rightarrow> o1\<lparr>path := asaSocket\<rparr>
           | Some e \<Rightarrow> o1\<lparr>path := fluentSocket\<rparr>)"

type_synonym dsOption = "dsOptions \<Rightarrow> goerr + dsOptions"

definition DomainSocketPath :: "string \<Rightarrow> dsOption" where
  "DomainSocketPath p = (\<lambda>o1. Inr (o1\<lparr>path := p\<rparr>))"

fun apply_dsOptions :: "dsOption list \<Rightarrow> dsOptions \<Rightarrow> goerr + dsOptions" where
  "apply_dsOptions [] o1 = Inr o1"
| "apply_dsOptions (f # fs) o1 =
     (case f o1 of Inl e \<Rightarrow> Inl e | Inr o2 \<Rightarrow> apply_dsOptions fs o2)"

text \<open>
  \<open>l\<close> is \<open>writer.ClosePool.Len()\<close>; \<open>dial\<close> is \<open>net.DialTimeout\<close> with its 10 s limit. The second
  component is the network connections handed to the close pool, respectively closed.
\<close>

definition NewDomainSocket ::
  "int \<Rightarrow> (string \<Rightarrow> goerr option) \<Rightarrow> (string \<Rightarrow> string \<Rightarrow> goerr + nat) \<Rightarrow> dsOption list
     \<Rightarrow> (goerr + audit_conn) \<times> netop list" where
  "NewDomainSocket l stat dial options =
     (if l \<ge> 10
      then (Inl (errorf (''there are '' @ itoa l @ '' Domain Socket connections trying to close, there indicates some system level error'') []), [])
      else case apply_dsOptions options \<lparr>path = []\<rparr> of
             Inl e \<Rightarrow> (Inl e, [])
           | Inr o1 \<Rightarrow>
               (let opts = setDefaults stat o1
                in case dial ''unix'' (path opts) of
                     Inl e \<Rightarrow> (Inl (errorf (''failed to connect to audit server('' @ path opts @ ''): %w'') [e]), [])
                   | Inr conn \<Rightarrow>
                       (case writer_New conn of
                          Inl e \<Rightarrow> (Inl (errorf ''failed to create writer conn: %w'' [e]), [NetClose conn])
                        | Inr w \<Rightarrow> (Inr (DomainSocketConn w), []))))"

definition NewTCPConn ::
  "int \<Rightarrow> (string \<Rightarrow> string \<Rightarrow> goerr + nat) \<Rightarrow> string \<Rightarrow> (goerr + audit_conn) \<times> netop list" where
  "NewTCPConn l dial addr =
     (if l \<ge> 10
      then (Inl (errorf (''there are '' @ itoa l @ '' TCP connections trying to close, this indicates some system level error'') []), [])
      else case dial ''tcp'' addr of
             Inl e \<Rightarrow> (Inl e, [])
           | Inr conn \<Rightarrow>
               (case writer_New conn of
                  Inl e \<Rightarrow> (Inl e, [NetClose conn])
                | Inr w \<Rightarrow> (Inr (TCPConn w), [])))"

section \<open>What a sender relies on\<close>

text \<open>
  Writing a message never makes a record's slice headers ill formed, and a connection of type
  no-op neither fails, nor writes to memory, nor uses the network.
\<close>

locale audit_connection =
  fixes ctype :: "'c \<Rightarrow> ConnType"
    and wr :: "'e \<Rightarrow> mem \<Rightarrow> 'c \<Rightarrow> Msg \<Rightarrow> goerr option \<times> mem \<times> netop list"
  assumes write_keeps: "record_ok m (msg_Record msg) \<Longrightarrow> wr e m c msg = (r, m', os) \<Longrightarrow>
      record_ok m x \<Longrightarrow> record_ok m' x"
    and noop_write: "ctype c = TypeNoOP \<Longrightarrow> wr e m c msg = (None, m, [])"
begin

lemma write_keeps_all:
  assumes "record_ok m (msg_Record msg)" and "wr e m c msg = (r, m', os)"
    and "list_all (\<lambda>x. record_ok m (msg_Record x)) q"
  shows "list_all (\<lambda>x. record_ok m' (msg_Record x)) q"
  using assms(3) by (simp add: list_all_iff write_keeps [OF assms(1,2)])

lemma noop_cannot_fail: "wr e m c msg = (Some err, m', os) \<Longrightarrow> ctype c \<noteq> TypeNoOP"
  by (auto simp: noop_write)

end

lemma MarshalMsgpack_keeps:
  assumes "record_ok m (msg_Record msg)" and "MarshalMsgpack enc t m msg = (r, m')"
    and "record_ok m x"
  shows "record_ok m' x"
proof -
  obtain res m1 where prep: "marshalPrep t m msg = (res, m1)" by fastforce
  with assms(2) have "m' = m1" by (auto simp: MarshalMsgpack_def split: sum.splits)
  with marshalPrep_mem_ok [OF assms(1) prep assms(3)] show ?thesis by simp
qed

interpretation au: audit_connection conn_Type conn_Write
proof unfold_locales
  show "record_ok m' x" if "record_ok m (msg_Record msg)" "conn_Write ne m a msg = (r, m', os)"
    "record_ok m x" for m msg ne a r m' os x
    using that MarshalMsgpack_keeps [OF that(1) _ that(3)]
    by (auto simp: conn_Write_def writer_Write_def Let_def
        split: audit_conn.splits prod.splits sum.splits)
  show "conn_Write ne m a msg = (None, m, [])" if "conn_Type a = TypeNoOP" for ne m a msg
    using that by (auto simp: conn_Type_def conn_Write_def const_defs split: audit_conn.splits)
qed

end
