(* ===== verification/EnumConstants.thy ===== *)
theory EnumConstants
  imports Enums Conn
begin

text \<open>
  Every named constant of the enumerations, and the checks the generated files make on them:
  each lists the constants in order, and compiles only as long as every constant keeps the
  value its table was generated for. With them, the name each constant has in the tables, and the
  bounds of all accesses to the tables.
\<close>

section \<open>The remaining constants\<close>

definition UnknownOperationType :: OperationType where "UnknownOperationType = 0"
definition Read :: OperationType where "Read = 1"
definition Update :: OperationType where "Update = 2"
definition Create :: OperationType where "Create = 3"
definition Delete :: OperationType where "Delete = 4"

definition UnknownOperationCategory :: OperationCategory where "UnknownOperationCategory = 0"
definition UserManagement :: OperationCategory where "UserManagement = 2"
definition GroupManagement :: OperationCategory where "GroupManagement = 3"
definition Authentication :: OperationCategory where "Authentication = 4"
definition Authorization :: OperationCategory where "Authorization = 5"
definition RoleManagement :: OperationCategory where "RoleManagement = 6"
definition ApplicationManagement :: OperationCategory where "ApplicationManagement = 7"
definition KeyManagement :: OperationCategory where "KeyManagement = 8"
definition DirectoryManagement :: OperationCategory where "DirectoryManagement = 9"
definition ResourceManagement :: OperationCategory where "ResourceManagement = 10"
definition PolicyManagement :: OperationCategory where "PolicyManagement = 11"
definition DeviceManagement :: OperationCategory where "DeviceManagement = 12"
definition EntitlementManagement :: OperationCategory where "EntitlementManagement = 13"
definition PasswordManagement :: OperationCategory where "PasswordManagement = 14"
definition IdentityProtection :: OperationCategory where "IdentityProtection = 15"
definition ObjectManagement :: OperationCategory where "ObjectManagement = 16"
definition ProvisioningManagement :: OperationCategory where "ProvisioningManagement = 17"
definition CustomerFacing :: OperationCategory where "CustomerFacing = 18"
definition EUII :: OperationCategory where "EUII = 19"

definition UnknownOperationResult :: OperationResult where "UnknownOperationResult = 0"
definition Success :: OperationResult where "Success = 1"

definition UnknownCallerIdentityType :: CallerIdentityType where "UnknownCallerIdentityType = 0"
definition CIOther :: CallerIdentityType where "CIOther = 1"
definition UPN :: CallerIdentityType where "UPN = 2"
definition PUID :: CallerIdentityType where "PUID = 3"
definition ObjectID :: CallerIdentityType where "ObjectID = 4"
definition Certificate :: CallerIdentityType where "Certificate = 5"
definition Claim :: CallerIdentityType where "Claim = 6"
definition Username :: CallerIdentityType where "Username = 7"
definition AccessKeyName :: CallerIdentityType where "AccessKeyName = 8"
definition SubscriptionID :: CallerIdentityType where "SubscriptionID = 9"
definition ApplicationID :: CallerIdentityType where "ApplicationID = 10"
definition TenantID :: CallerIdentityType where "TenantID = 11"
definition TokenID :: CallerIdentityType where "TokenID = 12"
definition SasURL :: CallerIdentityType where "SasURL = 13"
definition System :: CallerIdentityType where "System = 14"

lemmas [const_defs] = UnknownOperationType_def Read_def Update_def Create_def
  Delete_def UnknownOperationCategory_def UserManagement_def GroupManagement_def
  Authentication_def Authorization_def RoleManagement_def ApplicationManagement_def
  KeyManagement_def DirectoryManagement_def ResourceManagement_def PolicyManagement_def
  DeviceManagement_def EntitlementManagement_def PasswordManagement_def IdentityProtection_def
  ObjectManagement_def ProvisioningManagement_def CustomerFacing_def EUII_def
  UnknownOperationResult_def Success_def UnknownCallerIdentityType_def CIOther_def
  UPN_def PUID_def ObjectID_def Certificate_def
  Claim_def Username_def AccessKeyName_def SubscriptionID_def
  ApplicationID_def TenantID_def TokenID_def SasURL_def
  System_def

section \<open>The generated checks\<close>

text \<open>
  \<open>x[C-k]\<close> for an array \<open>x\<close> of one element is a constant index; it compiles only for
  the index 0. Go's constant subtraction is that of the integers.
\<close>

definition check_compiles :: "('r::len) word \<times> int \<Rightarrow> bool" where
  "check_compiles p \<longleftrightarrow> 0 \<le> uint (fst p) - snd p \<and> uint (fst p) - snd p < 1"

definition Type_checks :: "(Type \<times> int) list" where
  "Type_checks = [(ATUnknown, 0), (DataPlane, 1), (ControlPlane, 2), (Heartbeat, 3),
    (Diagnostic, 4)]"

definition OperationType_checks :: "(OperationType \<times> int) list" where
  "OperationType_checks = [(UnknownOperationType, 0), (Read, 1), (Update, 2), (Create, 3),
    (Delete, 4)]"

definition OperationCategory_checks :: "(OperationCategory \<times> int) list" where
  "OperationCategory_checks = [(UnknownOperationCategory, 0), (OCOther, 1), (UserManagement, 2),
    (GroupManagement, 3), (Authentication, 4), (Authorization, 5), (RoleManagement, 6),
    (ApplicationManagement, 7), (KeyManagement, 8), (DirectoryManagement, 9),
    (ResourceManagement, 10), (PolicyManagement, 11), (DeviceManagement, 12),
    (EntitlementManagement, 13), (PasswordManagement, 14), (IdentityProtection, 15),
    (ObjectManagement, 16), (ProvisioningManagement, 17), (CustomerFacing, 18), (EUII, 19)]"

definition OperationResult_checks :: "(OperationResult \<times> int) list" where
  "OperationResult_checks = [(UnknownOperationResult, 0), (Success, 1), (Failure, 2)]"

definition CallerIdentityType_checks :: "(CallerIdentityType \<times> int) list" where
  "CallerIdentityType_checks = [(UnknownCallerIdentityType, 0), (CIOther, 1), (UPN, 2), (PUID, 3),
    (ObjectID, 4), (Certificate, 5), (Claim, 6), (Username, 7), (AccessKeyName, 8),
    (SubscriptionID, 9), (ApplicationID, 10), (TenantID, 11), (TokenID, 12), (SasURL, 13),
    (System, 14)]"

definition ConnType_checks :: "(ConnType \<times> int) list" where
  "ConnType_checks = [(TypeUnknown, 0), (TypeNoOP, 1), (TypeDomainSocket, 2), (TypeTCP, 3)]"

text \<open>The names the constants print as.\<close>

definition printed :: "(('r::len) word \<Rightarrow> string option) \<Rightarrow> ('r word \<times> int) list \<Rightarrow> string list \<Rightarrow> bool" where
  "printed to_string xs names \<longleftrightarrow> map (to_string \<circ> fst) xs = map Some names"

lemma checks_compile:
  "list_all check_compiles Type_checks" "list_all check_compiles OperationType_checks"
  "list_all check_compiles OperationCategory_checks" "list_all check_compiles OperationResult_checks"
  "list_all check_compiles CallerIdentityType_checks" "list_all check_compiles ConnType_checks"
  by code_simp+

abbreviation ci_names :: "string list" where
  "ci_names \<equiv> [''UnknownCallerIdentityType'', ''CIOther'', ''UPN'', ''PUID'', ''ObjectID'', ''Certificate'',
    ''Claim'', ''Username'', ''AccessKeyName'', ''SubscriptionID'', ''ApplicationID'',
    ''TenantID'', ''TokenID'', ''SasURL'', ''System'']"

lemma constants_print:
  "printed Type_String Type_checks
     [''ATUnknown'', ''AsmAuditDP'', ''AsmAuditCP'', ''AsmAuditHB'', ''AsmAuditDG'']"
  "printed OperationType_String OperationType_checks
     [''UnknownOperationType'', ''Read'', ''Update'', ''Create'', ''Delete'']"
  "printed OperationCategory_String OperationCategory_checks oc_names"
  "printed OperationResult_String OperationResult_checks [''UnknownOperationResult'', ''Success'', ''Failure'']"
  "printed CallerIdentityType_String CallerIdentityType_checks ci_names"
  "printed ConnType_String ConnType_checks [''Unknown'', ''NoOP'', ''UnixDomainSocket'', ''TCP'']"
  by code_simp+

text \<open>
  The generated checks hold for the constants as declared, and each constant prints as the name it was
  declared with (the record types and the connection types as the names of their line comments):
  no constant was renumbered without its table.
\<close>

lemma enum_constants_named:
  "list_all check_compiles Type_checks \<and> list_all check_compiles OperationType_checks \<and>
   list_all check_compiles OperationCategory_checks \<and> list_all check_compiles OperationResult_checks \<and>
   list_all check_compiles CallerIdentityType_checks \<and> list_all check_compiles ConnType_checks \<and>
   printed Type_String Type_checks
     [''ATUnknown'', ''AsmAuditDP'', ''AsmAuditCP'', ''AsmAuditHB'', ''AsmAuditDG''] \<and>
   printed OperationType_String OperationType_checks
     [''UnknownOperationType'', ''Read'', ''Update'', ''Create'', ''Delete''] \<and>
   printed OperationCategory_String OperationCategory_checks oc_names \<and>
   printed OperationResult_String OperationResult_checks [''UnknownOperationResult'', ''Success'', ''Failure''] \<and>
   printed CallerIdentityType_String CallerIdentityType_checks ci_names \<and>
   printed ConnType_String ConnType_checks [''Unknown'', ''NoOP'', ''UnixDomainSocket'', ''TCP'']"
  using checks_compile constants_print by blast

section \<open>No access out of range\<close>

context named_table
begin

lemma unString_declared:
  assumes "n < 2 ^ LENGTH('r)"
  shows "\<exists>r :: ('r::len) word. unString ul from names index = Some r \<and> unat r < n"
proof -
  obtain r :: "'r word" where r: "unString ul from names index = Some r"
    using unString_total by blast
  with unString_sound [OF r _ assms] n_pos show ?thesis by (cases "r = 0") auto
qed

end

lemma declared_word: "unat (r :: ('r::len) word) < n \<Longrightarrow> r \<in> word_of_nat ` {0..<n}"
  by (intro image_eqI [of _ _ "unat r"]) simp_all

lemma checks_declare:
  "fst ` set OperationType_checks = word_of_nat ` {0..<5}"
  "fst ` set OperationCategory_checks = word_of_nat ` {0..<20}"
  "fst ` set OperationResult_checks = word_of_nat ` {0..<3}"
  "fst ` set CallerIdentityType_checks = word_of_nat ` {0..<15}"
proof -
  have "map fst OperationType_checks = map word_of_nat [0..<5]" by code_simp
  then show "fst ` set OperationType_checks = word_of_nat ` {0..<5}"
    by (metis image_set set_upt)
  have "map fst OperationCategory_checks = map word_of_nat [0..<20]" by code_simp
  then show "fst ` set OperationCategory_checks = word_of_nat ` {0..<20}"
    by (metis image_set set_upt)
  have "map fst OperationResult_checks = map word_of_nat [0..<3]" by code_simp
  then show "fst ` set OperationResult_checks = word_of_nat ` {0..<3}"
    by (metis image_set set_upt)
  have "map fst CallerIdentityType_checks = map word_of_nat [0..<15]" by code_simp
  then show "fst ` set CallerIdentityType_checks = word_of_nat ` {0..<15}"
    by (metis image_set set_upt)
qed

lemmas declared = declared_word checks_declare

text \<open>
  A decoder's result on the bytes \<open>b\<close>: no panic, an error on short input only, else a constant of the checked
  list.
\<close>

definition decodes_in :: "('r \<times> int) list \<Rightarrow> string \<Rightarrow> (goerr + 'r) option \<Rightarrow> bool" where
  "decodes_in xs b d \<longleftrightarrow> (case d of None \<Rightarrow> False | Some (Inl e) \<Rightarrow> length b < 2
      | Some (Inr r) \<Rightarrow> r \<in> fst ` set xs)"

lemma Strings_total:
  "Type_String ty \<noteq> None" "OperationType_String ot \<noteq> None" "OperationCategory_String oc \<noteq> None"
  "OperationResult_String rt \<noteq> None" "CallerIdentityType_String ci \<noteq> None"
  unfolding Type_String_def OperationType_String_def OperationCategory_String_def
    OperationResult_String_def CallerIdentityType_String_def
  by (rule ty.String_total ot.String_total oc.String_total ort.String_total ci.String_total, simp)+

lemma decodes_Msgpack:
  assumes "\<And>r :: ('r::len) word. unat r < n \<Longrightarrow> r \<in> fst ` set xs"
    and "\<exists>r :: 'r word. unString ul (drop 1 b) names index = Some r \<and> unat r < n"
  shows "decodes_in xs b (enum_UnmarshalMsgpack ul tname names index b)"
  using assms by (auto simp: decodes_in_def enum_UnmarshalMsgpack_def)

lemma decodes_JSON:
  assumes "\<And>r :: ('r::len) word. unat r < n \<Longrightarrow> r \<in> fst ` set xs"
    and "\<exists>r :: 'r word. unString ul (Trim_quotes b) names index = Some r \<and> unat r < n"
  shows "\<exists>r \<in> fst ` set xs. enum_UnmarshalJSON ul names index b = Some (Inr r)"
  using assms by (auto simp: enum_UnmarshalJSON_def)

text \<open>
  C37. Bounds: whatever the value, \<open>String\<close> of each of the six types slices its name table in range; whatever
  the bytes, each of the four MessagePack decoders and the four JSON decoders returns without a
  panic, and a value it returns is one of the declared constants; only the MessagePack decoders
  report an error, and only on fewer than two bytes.
\<close>

theorem enum_bounds:
  "Type_String ty \<noteq> None \<and> OperationType_String ot \<noteq> None \<and> OperationCategory_String oc \<noteq> None \<and>
   OperationResult_String rt \<noteq> None \<and> CallerIdentityType_String ci \<noteq> None \<and> ConnType_String ct \<noteq> None \<and>
   decodes_in OperationType_checks b (OperationType_UnmarshalMsgpack ul b) \<and>
   decodes_in OperationCategory_checks b (OperationCategory_UnmarshalMsgpack ul b) \<and>
   decodes_in OperationResult_checks b (OperationResult_UnmarshalMsgpack ul b) \<and>
   decodes_in CallerIdentityType_checks b (CallerIdentityType_UnmarshalMsgpack ul b) \<and>
   (\<exists>r \<in> fst ` set OperationType_checks. OperationType_UnmarshalJSON ul b = Some (Inr r)) \<and>
   (\<exists>r \<in> fst ` set OperationCategory_checks. OperationCategory_UnmarshalJSON ul b = Some (Inr r)) \<and>
   (\<exists>r \<in> fst ` set OperationResult_checks. OperationResult_UnmarshalJSON ul b = Some (Inr r)) \<and>
   (\<exists>r \<in> fst ` set CallerIdentityType_checks. CallerIdentityType_UnmarshalJSON ul b = Some (Inr r))"
  unfolding OperationType_UnmarshalMsgpack_def OperationCategory_UnmarshalMsgpack_def
    OperationResult_UnmarshalMsgpack_def CallerIdentityType_UnmarshalMsgpack_def
    OperationType_UnmarshalJSON_def OperationCategory_UnmarshalJSON_def
    OperationResult_UnmarshalJSON_def CallerIdentityType_UnmarshalJSON_def
  by (intro conjI Strings_total ConnType_String_total
      decodes_Msgpack [OF _ ot.unString_declared] decodes_Msgpack [OF _ oc.unString_declared]
      decodes_Msgpack [OF _ ort.unString_declared] decodes_Msgpack [OF _ ci.unString_declared]
      decodes_JSON [OF _ ot.unString_declared] decodes_JSON [OF _ oc.unString_declared]
      decodes_JSON [OF _ ort.unString_declared] decodes_JSON [OF _ ci.unString_declared])
     (simp_all add: declared)

end
