(* ===== verification/GoChan.thy ===== *)
theory GoChan
  imports Prelude
begin

text \<open>
  Buffered Go channels and the two non-blocking operations the client uses on them: a
  send under \<open>select\<close> with a \<open>default\<close> branch (written out in \<open>msgSender.write\<close>, and wrapped
  as \<open>chans.TryPut\<close>) and the matching receive (\<open>chans.TryGet\<close>). A nil channel is \<open>None\<close> of a
  \<open>chan option\<close>. No code path closes these channels. A channel of capacity 0 has no
  buffer, so with no receiver waiting a non-blocking send on it fails.

  The interface the rest of the program relies on is the locale \<open>nonblocking_queue\<close>: a bounded
  FIFO queue. Its lemmas are proved from the laws alone.
\<close>

section \<open>The interface\<close>

locale nonblocking_queue =
  fixes contents :: "'c \<Rightarrow> 'a list"
    and capacity :: "'c \<Rightarrow> nat"
    and put :: "'c \<Rightarrow> 'a \<Rightarrow> bool \<times> 'c"
    and get :: "'c \<Rightarrow> 'a option \<times> 'c"
  assumes put_room: "length (contents c) < capacity c \<Longrightarrow> put c x = (b, c') \<Longrightarrow>
      b \<and> contents c' = contents c @ [x] \<and> capacity c' = capacity c"
    and put_full: "\<not> length (contents c) < capacity c \<Longrightarrow> put c x = (False, c)"
    and get_first: "contents c = x # xs \<Longrightarrow> get c = (r, c') \<Longrightarrow>
      r = Some x \<and> contents c' = xs \<and> capacity c' = capacity c"
    and get_none: "contents c = [] \<Longrightarrow> get c = (None, c)"
begin

definition bounded :: "'c \<Rightarrow> bool" where
  "bounded c \<longleftrightarrow> length (contents c) \<le> capacity c"

lemma put_capacity: "put c x = (b, c') \<Longrightarrow> capacity c' = capacity c"
  by (cases "length (contents c) < capacity c") (auto dest: put_room simp: put_full)

lemma put_iff: "put c x = (b, c') \<Longrightarrow> b \<longleftrightarrow> length (contents c) < capacity c"
  by (cases "length (contents c) < capacity c") (auto dest: put_room simp: put_full)

lemma put_contents:
  "put c x = (b, c') \<Longrightarrow> contents c' = contents c @ (if b then [x] else [])"
  by (cases "length (contents c) < capacity c") (auto dest: put_room simp: put_full)

lemma put_bounded: "bounded c \<Longrightarrow> put c x = (b, c') \<Longrightarrow> bounded c'"
  using put_contents [of c x b c'] put_capacity [of c x b c'] put_iff [of c x b c']
  by (auto simp: bounded_def)

lemma get_capacity: "get c = (r, c') \<Longrightarrow> capacity c' = capacity c"
  by (cases "contents c") (auto dest: get_first simp: get_none)

lemma get_contents:
  "get c = (r, c') \<Longrightarrow> contents c = (case r of None \<Rightarrow> [] | Some x \<Rightarrow> [x]) @ contents c'"
  by (cases "contents c") (auto dest: get_first simp: get_none)

lemma get_bounded: "bounded c \<Longrightarrow> get c = (r, c') \<Longrightarrow> bounded c'"
  using get_contents [of c r c'] get_capacity [of c r c'] by (auto simp: bounded_def)

text \<open>Evicting the oldest element of a full buffer makes room for exactly one more.\<close>

lemma evict_put:
  assumes "bounded c" and "0 < capacity c" and "\<not> length (contents c) < capacity c"
    and "get c = (r, c1)" and "put c1 x = (b, c2)"
  shows "b \<and> r \<noteq> None \<and> contents c2 = tl (contents c) @ [x] \<and> bounded c2"
proof -
  from assms(2,3) obtain y ys where c: "contents c = y # ys"
    by (cases "contents c") auto
  from get_first [OF c assms(4)] have c1: "r = Some y" "contents c1 = ys" "capacity c1 = capacity c"
    by simp_all
  from c c1 assms(1) have "length (contents c1) < capacity c1"
    by (simp add: bounded_def)
  from put_room [OF this assms(5)] c c1 assms(1) show ?thesis
    by (simp add: bounded_def)
qed

end

section \<open>The implementation\<close>

record 'a chan =
  buf :: "'a list"
  cap :: nat

definition make_chan :: "nat \<Rightarrow> 'a chan" where
  "make_chan n = \<lparr>buf = [], cap = n\<rparr>"

definition TryPut :: "'a chan \<Rightarrow> 'a \<Rightarrow> bool \<times> 'a chan" where
  "TryPut c x = (if length (buf c) < cap c then (True, c\<lparr>buf := buf c @ [x]\<rparr>) else (False, c))"

definition TryGet :: "'a chan \<Rightarrow> 'a option \<times> 'a chan" where
  "TryGet c = (case buf c of [] \<Rightarrow> (None, c) | x # xs \<Rightarrow> (Some x, c\<lparr>buf := xs\<rparr>))"

interpretation ch: nonblocking_queue buf cap TryPut TryGet
  by unfold_locales (auto simp: TryPut_def TryGet_def)

lemma bounded_make_chan [simp]: "ch.bounded (make_chan n)"
  by (simp add: ch.bounded_def make_chan_def)

lemma make_chan_simps [simp]: "buf (make_chan n) = []" "cap (make_chan n) = n"
  by (simp_all add: make_chan_def)

end
