(* ===== verification/Client.thy ===== *)
theory Client
  imports Conn GoChan
begin

text \<open>
  The client of \<open>audit/audit.go\<close> and its counters (\<open>audit/metrics.go\<close>): its state, options, the
  notification channel, \<open>Send\<close>, the heartbeat message and the closing of connections in
  the background. Every operation takes the client and returns it updated. The program's memory
  (the backing arrays of record slices) is carried in the field \<open>memory\<close>.
\<close>

section \<open>Outcomes\<close>

text \<open>A step blocks, panics, or is done with a result.\<close>

datatype 'a outcome = Blocked | Panics | Done 'a

section \<open>Counters\<close>

text \<open>A counter that was never created is a nil interface; adding to it panics.\<close>

record metrics =
  msgsSent :: "nat option"
  msgsRequeued :: "nat option"
  msgsDropped :: "nat option"
  msgErrs :: "nat option"
  heartbeatDropped :: "nat option"
  diagnosticDropped :: "nat option"

datatype counter = MsgsSent | MsgsRequeued | MsgsDropped | MsgErrs | HeartbeatDropped | DiagnosticDropped

fun Add :: "counter \<Rightarrow> metrics \<Rightarrow> metrics option" where
  "Add MsgsSent m = map_option (\<lambda>n. m\<lparr>msgsSent := Some (Suc n)\<rparr>) (msgsSent m)"
| "Add MsgsRequeued m = map_option (\<lambda>n. m\<lparr>msgsRequeued := Some (Suc n)\<rparr>) (msgsRequeued m)"
| "Add MsgsDropped m = map_option (\<lambda>n. m\<lparr>msgsDropped := Some (Suc n)\<rparr>) (msgsDropped m)"
| "Add MsgErrs m = map_option (\<lambda>n. m\<lparr>msgErrs := Some (Suc n)\<rparr>) (msgErrs m)"
| "Add HeartbeatDropped m = map_option (\<lambda>n. m\<lparr>heartbeatDropped := Some (Suc n)\<rparr>) (heartbeatDropped m)"
| "Add DiagnosticDropped m = map_option (\<lambda>n. m\<lparr>diagnosticDropped := Some (Suc n)\<rparr>) (diagnosticDropped m)"

text \<open>
  \<open>newMetrics\<close>: \<open>mk name\<close> is the error of creating the counter \<open>name\<close>, if any. Five counters are
  created; \<open>diagnosticDropped\<close> is not among them.
\<close>

definition newMetrics :: "(string \<Rightarrow> goerr option) \<Rightarrow> goerr + metrics" where
  "newMetrics mk =
     (let fail = (\<lambda>name. case mk name of None \<Rightarrow> None
                       | Some e \<Rightarrow> Some (errorf (''failed to create '' @ name @ '' counter: %w'') [e]))
      in case first_error [fail ''messages_sent'', fail ''messages_requeued'',
                fail ''messages_dropped'', fail ''messages_errors'', fail ''heartbeat_dropped''] of
           Some e \<Rightarrow> Inl e
         | None \<Rightarrow> Inr \<lparr>msgsSent = Some 0, msgsRequeued = Some 0, msgsDropped = Some 0,
                         msgErrs = Some 0, heartbeatDropped = Some 0, diagnosticDropped = None\<rparr>)"

section \<open>The client\<close>

record NotifyError =
  ne_Time :: int
  ne_Err :: goerr

text \<open>A line of the logger: its text and the error attached to it.\<close>

type_synonym log_line = "string \<times> goerr option"

text \<open>\<open>closers\<close> is the group of running \<open>CloseSend\<close> calls, by the connection each closes.\<close>

record Client =
  serviceTreeID :: string
  kver :: string
  goos :: string
  queueSize :: int
  sendCh :: "Msg chan option"
  closers :: "audit_conn list"
  maxClosers :: int
  notifier :: "NotifyError chan option"
  clientDead :: bool
  metrics :: "metrics option"
  log :: "log_line list option"
  deferredConn :: bool
  memory :: mem

definition DefaultQueueSize :: int where
  "DefaultQueueSize = 2048"

definition log_add :: "log_line \<Rightarrow> Client \<Rightarrow> Client" where
  "log_add l c = c\<lparr>log := map_option (\<lambda>ls. ls @ [l]) (log c)\<rparr>"

definition metrics_Add :: "counter \<Rightarrow> Client \<Rightarrow> Client outcome" where
  "metrics_Add k c =
     (case metrics c of None \<Rightarrow> Panics
      | Some ms \<Rightarrow> (case Add k ms of None \<Rightarrow> Panics | Some ms' \<Rightarrow> Done (c\<lparr>metrics := Some ms'\<rparr>)))"

section \<open>Options\<close>

type_synonym Option = "Client \<Rightarrow> goerr + Client"

definition WithQueueSize :: "int \<Rightarrow> Option" where
  "WithQueueSize sz = (\<lambda>c.
     if sz \<le> 0
     then Inl (errorf (''queue size must be greater than 0, got '' @ itoa sz) [])
     else Inr (c\<lparr>queueSize := sz\<rparr>))"

definition WithLogger :: "log_line list option \<Rightarrow> Option" where
  "WithLogger l = (\<lambda>c. Inr (c\<lparr>log := l\<rparr>))"

definition WithDeferredConnection :: Option where
  "WithDeferredConnection = (\<lambda>c. Inr (c\<lparr>deferredConn := True\<rparr>))"

fun apply_options :: "Option list \<Rightarrow> Client \<Rightarrow> goerr + Client" where
  "apply_options [] c = Inr c"
| "apply_options (f # fs) c = (case f c of Inl e \<Rightarrow> Inl e | Inr c' \<Rightarrow> apply_options fs c')"

section \<open>Notifications\<close>

text \<open>\<open>now\<close> is the clock reading of the call.\<close>

definition notice :: "int \<Rightarrow> Client \<Rightarrow> goerr option \<Rightarrow> NotifyError option" where
  "notice now c err =
     (case (notifier c, err) of
        (Some n, Some e) \<Rightarrow> Some \<lparr>ne_Time = now, ne_Err = e\<rparr>
      | _ \<Rightarrow> None)"

definition Notify :: "Client \<Rightarrow> NotifyError chan option" where
  "Notify c = notifier c"

definition logDrop :: "goerr \<Rightarrow> Client \<Rightarrow> Client" where
  "logDrop e c =
     log_add (''audit.Client notifier channel is full, dropping notification'', Some e) c"

definition sendNotify :: "int \<Rightarrow> Client \<Rightarrow> goerr option \<Rightarrow> Client" where
  "sendNotify now c err =
     (case (notifier c, err, notice now c err) of
        (Some n, Some e, Some v) \<Rightarrow>
          (case TryPut n v of
             (True, n') \<Rightarrow> c\<lparr>notifier := Some n'\<rparr>
           | (False, n') \<Rightarrow> logDrop e c)
      | _ \<Rightarrow> c)"

text \<open>
  \<open>sendNotifyDead\<close> retries until its notice is in the channel, evicting the oldest notice each
  time the channel is full, while other goroutines may put notices (\<open>Producer\<close>) or receive them
  (\<open>Consumer\<close>). The schedule says what they do in each round, before and after the
  eviction. \<open>None\<close> means that the schedule ended and the call has not returned yet.
\<close>

datatype notify_act = Producer NotifyError | Consumer

fun act :: "notify_act \<Rightarrow> NotifyError chan \<Rightarrow> NotifyError chan" where
  "act (Producer v) n = snd (TryPut n v)"
| "act Consumer n = snd (TryGet n)"

type_synonym schedule = "(notify_act list \<times> notify_act list) list"

fun dead_loop :: "schedule \<Rightarrow> NotifyError \<Rightarrow> NotifyError chan \<Rightarrow> NotifyError list
    \<Rightarrow> (NotifyError chan \<times> NotifyError list) option" where
  "dead_loop sched v n evicted =
     (case TryPut n v of
        (True, n') \<Rightarrow> Some (n', evicted)
      | (False, n') \<Rightarrow>
          (case sched of
             [] \<Rightarrow> None
           | (before, after) # rest \<Rightarrow>
               (case TryGet (fold act before n') of
                  (r, n'') \<Rightarrow> dead_loop rest v (fold act after n'')
                     (evicted @ (case r of None \<Rightarrow> [] | Some x \<Rightarrow> [x])))))"

declare dead_loop.simps [simp del]

definition sendNotifyDead :: "schedule \<Rightarrow> int \<Rightarrow> Client \<Rightarrow> goerr option \<Rightarrow> Client option" where
  "sendNotifyDead sched now c err =
     (case (notifier c, err, notice now c err) of
        (Some n, Some e, Some v) \<Rightarrow>
          (if cap n = 0 then Some (logDrop e c)
           else case dead_loop sched v n [] of
                  None \<Rightarrow> None
                | Some (n', evicted) \<Rightarrow>
                    Some (fold (\<lambda>x. log_add (''audit.Client notifier channel is full, evicting notification for the client death notice'', Some (ne_Err x)))
                            evicted (c\<lparr>notifier := Some n'\<rparr>)))
      | _ \<Rightarrow> Some c)"

section \<open>Closing a connection in the background\<close>

text \<open>The call joins the group at once; it leaves it when \<open>CloseSend\<close> returns.\<close>

definition closeAuditConn :: "Client \<Rightarrow> audit_conn \<Rightarrow> Client" where
  "closeAuditConn c a = c\<lparr>closers := closers c @ [a]\<rparr>"

definition closer_returns :: "int \<Rightarrow> Client \<Rightarrow> audit_conn \<Rightarrow> goerr option \<Rightarrow> Client" where
  "closer_returns now c a err =
     (let c' = (case err of None \<Rightarrow> c
                | Some e \<Rightarrow> sendNotify now c (Some (errorf ''failed to close audit connection: %w'' [e])))
      in c'\<lparr>closers := remove1 a (closers c')\<rparr>)"

definition closers_Running :: "Client \<Rightarrow> int" where
  "closers_Running c = int (length (closers c))"

section \<open>Heartbeat and Send\<close>

definition version_Semantic :: string where
  "version_Semantic = ''v.1.1.0''"

text \<open>\<open>lang\<close> is \<open>runtime.Version()\<close>.\<close>

definition heartbeat :: "string \<Rightarrow> Client \<Rightarrow> ConnType \<Rightarrow> Msg" where
  "heartbeat lang c t =
     Msg_zero\<lparr>msg_Type := Heartbeat,
       msg_Heartbeat := \<lparr>hb_ServiceTreeID = serviceTreeID c, hb_AuditVersion = version_Semantic,
         hb_OsVersion = kver c, hb_Language = lang, hb_Destination = the (ConnType_String t)\<rparr>\<rparr>"

text \<open>A non-blocking send on a channel that may be nil: on a nil channel it never succeeds.\<close>

definition TryPut_nilable :: "'a chan option \<Rightarrow> 'a \<Rightarrow> bool \<times> 'a chan option" where
  "TryPut_nilable ch x =
     (case ch of None \<Rightarrow> (False, None)
      | Some n \<Rightarrow> (case TryPut n x of (ok, n') \<Rightarrow> (ok, Some n')))"

text \<open>
  \<open>Send\<close> in its three parts, between which other goroutines may run: it loads whether the client is dead, checks
  the message (its type, then the stamped record), and puts it into the queue. The check gives the error, or the message to put.
\<close>

definition Send_check :: "Client \<Rightarrow> Msg \<Rightarrow> goerr + Msg" where
  "Send_check c msg =
     (if msg_Type msg = ATUnknown \<or> ControlPlane < msg_Type msg
      then Inl (errorf (''audit type ('' @ the (Type_String (msg_Type msg)) @ '') is invalid: %w'')
                  [ErrValidation])
      else
        (let msg' = (if msg_Type msg = ControlPlane \<or> msg_Type msg = DataPlane
                     then msg\<lparr>msg_Record := (msg_Record msg)\<lparr>ServiceTreeID := serviceTreeID c\<rparr>\<rparr>
                     else msg)
         in case Validate (memory c) (msg_Record msg') of
              Some err \<Rightarrow> Inl (errorf ''%w: %w'' [err, ErrValidation])
            | None \<Rightarrow> Inr msg'))"

definition Send_put :: "Client \<Rightarrow> Msg \<Rightarrow> goerr option \<times> Client" where
  "Send_put c msg =
     (case TryPut_nilable (sendCh c) msg of
        (False, ch) \<Rightarrow> (Some ErrQueueFull, c)
      | (True, ch) \<Rightarrow> (None, c\<lparr>sendCh := ch\<rparr>))"

definition Send_client :: "Client \<Rightarrow> Msg \<Rightarrow> goerr option \<times> Client" where
  "Send_client c msg =
     (if clientDead c then (Some ErrClientDead, c)
      else case Send_check c msg of
             Inl err \<Rightarrow> (Some err, c)
           | Inr msg' \<Rightarrow> Send_put c msg')"

text \<open>The method on a client pointer that may be nil.\<close>

definition Send :: "Client option \<Rightarrow> Msg \<Rightarrow> goerr option \<times> Client option" where
  "Send cp msg =
     (case cp of None \<Rightarrow> (Some ErrClientDead, None)
      | Some c \<Rightarrow> (case Send_client c msg of (r, c') \<Rightarrow> (r, Some c')))"

end
