(* ===== verification/MsgSender.thy ===== *)
theory MsgSender
  imports Client
begin

text \<open>
  The message sender of \<open>audit/msgsender.go\<close>: it owns one connection, takes messages off the
  client's queue, writes them, and sends a heartbeat after the first message and at every tick
  after that. A sender's state is its connection, its heartbeat message and its ticker; the
  client is passed along. The choice a \<open>select\<close> makes is an argument (an \<open>event\<close>); one that is
  not ready blocks.
\<close>

section \<open>State and construction\<close>

text \<open>The ticker is nil, running, or stopped; \<open>tickerCh\<close> is nil exactly if it is nil.\<close>

datatype ticker = NilTicker | Ticking | Stopped

record msgSender =
  ms_conn :: audit_conn
  ms_heartbeat :: Msg
  ms_ticker :: ticker

text \<open>The arguments: an interface, a message and a pointer, of which two may be nil.\<close>

record msgSenderArgs =
  ma_conn :: "audit_conn option"
  ma_heartbeat :: Msg
  ma_client :: "Client option"

definition msgSenderArgs_validate :: "msgSenderArgs \<Rightarrow> goerr option" where
  "msgSenderArgs_validate m =
     (if ma_conn m = None then Some (errorf ''audit connection cannot be nil'' [])
      else if msg_Type (ma_heartbeat m) \<noteq> Heartbeat
      then Some (errorf (''heartbeat message type must be '' @ the (Type_String Heartbeat) @
                  '', got '' @ the (Type_String (msg_Type (ma_heartbeat m)))) [])
      else case ma_client m of
             None \<Rightarrow> Some (errorf ''audit client cannot be nil'' [])
           | Some c \<Rightarrow> first_error [
               fail_if (notifier c = None) (errorf ''notifier channel cannot be nil'' []),
               fail_if (sendCh c = None) (errorf ''send channel cannot be nil'' []),
               fail_if (metrics c = None) (errorf ''metrics cannot be nil'' [])])"

definition newMsgSender :: "msgSenderArgs \<Rightarrow> goerr + msgSender" where
  "newMsgSender args =
     (case (msgSenderArgs_validate args, ma_conn args) of
        (Some err, _) \<Rightarrow> Inl (errorf ''invalid msgSenderArgs: %w: %w'' [err, ErrPermanent])
      | (None, Some a) \<Rightarrow>
          Inr \<lparr>ms_conn = a, ms_heartbeat = ma_heartbeat args, ms_ticker = NilTicker\<rparr>
      | (None, None) \<Rightarrow> Inl (errorf ''invalid msgSenderArgs: %w: %w''
            [errorf ''audit connection cannot be nil'' [], ErrPermanent]))"

definition Stop_ticker :: "msgSender \<Rightarrow> msgSender" where
  "Stop_ticker m = (if ms_ticker m = NilTicker then m else m\<lparr>ms_ticker := Stopped\<rparr>)"

section \<open>Other goroutines\<close>

text \<open>
  What other goroutines do to the client while the sender runs: a user calls \<open>Send\<close>, a background
  close returns, a consumer of \<open>Notify\<close> receives.
\<close>

datatype other = UserSend Msg | CloserReturns int audit_conn "goerr option" | UserReceive

fun other_step :: "other \<Rightarrow> Client \<Rightarrow> Client" where
  "other_step (UserSend msg) c = snd (Send_client c msg)"
| "other_step (CloserReturns now a err) c = closer_returns now c a err"
| "other_step UserReceive c = c\<lparr>notifier := map_option (\<lambda>n. snd (TryGet n)) (notifier c)\<rparr>"

definition others :: "other list \<Rightarrow> Client \<Rightarrow> Client" where
  "others xs c = fold other_step xs c"

section \<open>Writing one message\<close>

text \<open>
  What a write needs from outside: the connection's environment, what other goroutines do while
  the connection writes, and the clock of a notice.
\<close>

record wenv =
  we_net :: netenv
  we_others :: "other list"
  we_now :: int

definition requeue :: "Client \<Rightarrow> Msg \<Rightarrow> Client outcome" where
  "requeue c msg =
     (case TryPut_nilable (sendCh c) msg of
        (True, ch) \<Rightarrow> metrics_Add MsgsRequeued (c\<lparr>sendCh := ch\<rparr>)
      | (False, ch) \<Rightarrow> metrics_Add MsgsDropped c)"

text \<open>
  The two switches on the message type, of a failed write and of a write to a no-op connection.
  A message of another type is only logged (to the context's logger, not the client's).
\<close>

definition count_failed :: "Client \<Rightarrow> Msg \<Rightarrow> Client outcome" where
  "count_failed c msg =
     (if msg_Type msg = DataPlane \<or> msg_Type msg = ControlPlane then requeue c msg
      else if msg_Type msg = Heartbeat then metrics_Add HeartbeatDropped c
      else if msg_Type msg = Diagnostic then metrics_Add DiagnosticDropped c
      else Done c)"

definition count_noop :: "Client \<Rightarrow> Msg \<Rightarrow> Client outcome" where
  "count_noop c msg =
     (if msg_Type msg = DataPlane \<or> msg_Type msg = ControlPlane then metrics_Add MsgsDropped c
      else if msg_Type msg = Heartbeat then metrics_Add HeartbeatDropped c
      else if msg_Type msg = Diagnostic then metrics_Add DiagnosticDropped c
      else Done c)"

fun bind_outcome :: "'a outcome \<Rightarrow> ('a \<Rightarrow> 'b outcome) \<Rightarrow> 'b outcome" where
  "bind_outcome Blocked f = Blocked"
| "bind_outcome Panics f = Panics"
| "bind_outcome (Done x) f = f x"

text \<open>What follows the connection's write, by its result.\<close>

definition finish_write :: "int \<Rightarrow> audit_conn \<Rightarrow> Client \<Rightarrow> Msg \<Rightarrow> goerr option \<Rightarrow> Client outcome" where
  "finish_write now a c msg r =
     (case r of
        Some err \<Rightarrow>
          bind_outcome (metrics_Add MsgErrs c) (\<lambda>c1.
          bind_outcome (count_failed c1 msg) (\<lambda>c2.
          Done (sendNotify now c2 (Some (errorf ''audit.Client write failed: %w'' [err])))))
      | None \<Rightarrow>
          if conn_Type a = TypeNoOP then count_noop c msg else metrics_Add MsgsSent c)"

text \<open>
  A write: others may act until the connection's write has returned. The result is the error, the client and
  the calls made on the network connection.
\<close>

definition msgSender_write ::
  "wenv \<Rightarrow> audit_conn \<Rightarrow> Client \<Rightarrow> Msg \<Rightarrow> (goerr option \<times> Client \<times> netop list) outcome" where
  "msgSender_write e a c msg =
     (case conn_Write (we_net e) (memory c) a msg of
        (r, m', os) \<Rightarrow>
          bind_outcome (finish_write (we_now e) a (others (we_others e) (c\<lparr>memory := m'\<rparr>)) msg r)
            (\<lambda>c1. Done (r, c1, os)))"

section \<open>Servicing one event\<close>

datatype event = CtxDone | MsgReady | Tick

text \<open>
  One \<open>serviceMsg\<close>. \<open>e1\<close> and \<open>e2\<close> are the environments of its first and second write. The result
  is the error, the sender, the client and the network calls. A failing service stops a
  running ticker (the deferred function).
\<close>

definition stop_on_error ::
  "(goerr option \<times> msgSender \<times> Client \<times> netop list) outcome
     \<Rightarrow> (goerr option \<times> msgSender \<times> Client \<times> netop list) outcome" where
  "stop_on_error r = bind_outcome r (\<lambda>(err, m, c, os).
     Done (err, if err \<noteq> None then Stop_ticker m else m, c, os))"

definition serviceMsg ::
  "event \<Rightarrow> wenv \<Rightarrow> wenv \<Rightarrow> msgSender \<Rightarrow> Client
     \<Rightarrow> (goerr option \<times> msgSender \<times> Client \<times> netop list) outcome" where
  "serviceMsg ev e1 e2 m c = stop_on_error
     (case ev of
        CtxDone \<Rightarrow> Done (Some Canceled, m, c, [])
      | MsgReady \<Rightarrow>
          (case sendCh c of
             None \<Rightarrow> Blocked
           | Some ch \<Rightarrow>
               (case TryGet ch of
                  (None, ch') \<Rightarrow> Blocked
                | (Some msg, ch') \<Rightarrow>
                    bind_outcome (msgSender_write e1 (ms_conn m) (c\<lparr>sendCh := Some ch'\<rparr>) msg)
                      (\<lambda>(err, c1, os1).
                        if err \<noteq> None then Done (err, m, c1, os1)
                        else if ms_ticker m = NilTicker then
                          bind_outcome (msgSender_write e2 (ms_conn m) c1 (ms_heartbeat m))
                            (\<lambda>(err2, c2, os2).
                              if err2 \<noteq> None then Done (err2, m, c2, os1 @ os2)
                              else Done (None, m\<lparr>ms_ticker := Ticking\<rparr>, c2, os1 @ os2))
                        else Done (None, m, c1, os1))))
      | Tick \<Rightarrow>
          (if ms_ticker m \<noteq> Ticking then Blocked
           else bind_outcome (msgSender_write e1 (ms_conn m) c (ms_heartbeat m))
                  (\<lambda>(err, c1, os). Done (err, m, c1, os))))"

section \<open>The sender loop\<close>

text \<open>
  One round of the loop in \<open>sender\<close>: whether the context is cancelled when the round starts, the
  event its \<open>select\<close> takes, the environments of its writes, and what other goroutines did to
  the client before it.
\<close>

record round =
  rd_cancelled :: bool
  rd_event :: event
  rd_env1 :: wenv
  rd_env2 :: wenv
  rd_others :: "other list"

datatype sender_status =
    Running msgSender Client "netop list"
  | Returned "goerr option" msgSender Client "netop list"
  | Crashed

text \<open>
  The loop over a list of rounds: \<open>Running\<close> when the list ends, or when a round's event is not
  ready. On return the deferred function stops the ticker.
\<close>

fun sender :: "round list \<Rightarrow> msgSender \<Rightarrow> Client \<Rightarrow> netop list \<Rightarrow> sender_status" where
  "sender [] m c os = Running m c os"
| "sender (r # rs) m c os =
     (if rd_cancelled r then Returned None (Stop_ticker m) (others (rd_others r) c) os
      else case serviceMsg (rd_event r) (rd_env1 r) (rd_env2 r) m (others (rd_others r) c) of
             Blocked \<Rightarrow> Running m (others (rd_others r) c) os
           | Panics \<Rightarrow> Crashed
           | Done (Some err, m', c', os') \<Rightarrow> Returned (Some err) (Stop_ticker m') c' (os @ os')
           | Done (None, m', c', os') \<Rightarrow> sender rs m' c' (os @ os'))"

text \<open>
  \<open>start\<close> runs the loop as a task and gives a channel: it carries the error of starting the task
  if that fails, else the error the loop returns; it is closed empty, which reads as nil, if
  the loop returns nil. \<open>None\<close> while the loop runs.
\<close>

definition start :: "goerr option \<Rightarrow> round list \<Rightarrow> msgSender \<Rightarrow> Client \<Rightarrow> goerr option option" where
  "start once_err rs m c =
     (case once_err of
        Some err \<Rightarrow> Some (Some err)
      | None \<Rightarrow> (case sender rs m c [] of
                   Returned err m' c' os \<Rightarrow> Some err
                 | _ \<Rightarrow> None))"

end
