(* ===== verification/Manager.thy ===== *)
theory Manager
  imports MsgSender
begin

text \<open>
  The connection manager of \<open>audit/audit.go\<close>: \<open>New\<close>, the creation of senders, \<open>reconnect\<close>, the
  manager loop and the deferred start, with the host functions they call (\<open>audit_unix.go\<close>,
  \<open>audit_other.go\<close>). What the host and the libraries answer is an argument: \<open>host\<close>, the results
  of the caller's \<open>CreateConn\<close>, and the function \<open>Retry\<close> of the back-off library. Background
  tasks are values (\<open>task\<close>), run by the definition they name.
\<close>

section \<open>The host\<close>

text \<open>
  \<open>h_testing\<close> is \<open>testing.Testing()\<close>; \<open>h_uname\<close> is the release field of \<open>unix.Uname\<close>, NUL padded;
  \<open>h_backoff\<close> and \<open>h_counter\<close> are the errors of \<open>exponential.New\<close> and of creating a counter.
\<close>

record host =
  h_goos :: string
  h_version :: string
  h_testing :: bool
  h_unix :: bool
  h_uname :: "goerr + string"
  h_backoff :: "goerr option"
  h_counter :: "string \<Rightarrow> goerr option"

definition Trim_NUL :: "string \<Rightarrow> string" where
  "Trim_NUL s = rev (dropWhile (\<lambda>b. b = CHR 0x00) (rev (dropWhile (\<lambda>b. b = CHR 0x00) s)))"

text \<open>Reading the bytes as a string does not change them.\<close>

definition bytesToStr :: "string \<Rightarrow> string" where
  "bytesToStr b = b"

text \<open>\<open>uname\<close> passes on what the system call gives: an error, or the release field.\<close>

definition uname :: "host \<Rightarrow> goerr + string" where
  "uname h = (case h_uname h of Inl err \<Rightarrow> Inl err | Inr uts \<Rightarrow> Inr uts)"

definition kernelVer_unix :: "host \<Rightarrow> goerr + string" where
  "kernelVer_unix h =
     (case uname h of Inl err \<Rightarrow> Inl err | Inr release \<Rightarrow> Inr (bytesToStr (Trim_NUL release)))"

definition kernelVer_other :: "goerr + string" where
  "kernelVer_other = Inr ''unsupported system, if you see this in logs, something is wrong''"

definition kernelVer :: "host \<Rightarrow> goerr + string" where
  "kernelVer h = (if h_unix h then kernelVer_unix h else kernelVer_other)"

section \<open>Creating senders\<close>

text \<open>What one call of the caller's \<open>CreateConn\<close> gives: an error, or a value that may be nil.\<close>

type_synonym created = "goerr + audit_conn option"

text \<open>
  The connection's type is asked for before \<open>newMsgSender\<close> validates its arguments: on a nil
  connection that call panics.
\<close>

definition newSender :: "host \<Rightarrow> created \<Rightarrow> Client \<Rightarrow> ((goerr + msgSender) \<times> Client) outcome" where
  "newSender h r c =
     (case r of
        Inl err \<Rightarrow> Done (Inl (errorf ''failed to create audit connection: %w'' [err]), c)
      | Inr None \<Rightarrow> Panics
      | Inr (Some a) \<Rightarrow>
          if goos c \<noteq> ''linux'' \<and> \<not> h_testing h \<and> conn_Type a \<noteq> TypeNoOP
          then Done (Inl (errorf ''audit: only linux clients can use Audit with a non-NoOp conn.Audit type: %w''
                       [ErrPermanent]), closeAuditConn c a)
          else case newMsgSender \<lparr>ma_conn = Some a,
                       ma_heartbeat = heartbeat (h_version h) c (conn_Type a), ma_client = Some c\<rparr> of
                 Inl err \<Rightarrow> Done (Inl (errorf ''failed to create message sender: %w'' [err]),
                              closeAuditConn c a)
               | Inr s \<Rightarrow> Done (Inr s, c))"

text \<open>\<open>createSender\<close> without the fake senders a test may substitute.\<close>

definition createSender ::
  "host \<Rightarrow> created \<Rightarrow> Client \<Rightarrow> (goerr option \<times> msgSender option \<times> Client) outcome" where
  "createSender h r c =
     bind_outcome (newSender h r c) (\<lambda>(res, c'). case res of
         Inl err \<Rightarrow> Done (Some err, None, c')
       | Inr s \<Rightarrow> Done (None, Some s, c'))"

definition newNoopSender :: "host \<Rightarrow> Client \<Rightarrow> goerr + msgSender" where
  "newNoopSender h c =
     (case newMsgSender \<lparr>ma_conn = Some NoOP,
             ma_heartbeat = heartbeat (h_version h) c (conn_Type NoOP), ma_client = Some c\<rparr> of
        Inl err \<Rightarrow> Inl (errorf ''failed to create no-op message sender: %w'' [err])
      | Inr s \<Rightarrow> Inr s)"

section \<open>Reconnecting\<close>

text \<open>
  The state a reconnect works on: the no-op sender that serves meanwhile, if any, the sender
  made, and the client. \<open>reconnect_env\<close> gives, for each attempt: the rounds the no-op sender runs before it,
  what other goroutines do, the result of \<open>CreateConn\<close> and the clock; and for the end the schedule and
  the clock of the death notice.
\<close>

record conn_state =
  cs_noop :: "msgSender option"
  cs_sender :: "msgSender option"
  cs_client :: Client

record reconnect_env =
  re_noop :: "nat \<Rightarrow> round list"
  re_others :: "nat \<Rightarrow> other list"
  re_create :: "nat \<Rightarrow> created"
  re_now :: "nat \<Rightarrow> int"
  re_sched :: schedule
  re_dead_now :: int

text \<open>The no-op sender, while it serves: gone once its loop has returned.\<close>

definition run_noop :: "round list \<Rightarrow> conn_state \<Rightarrow> conn_state outcome" where
  "run_noop rs s =
     (case cs_noop s of
        None \<Rightarrow> Done s
      | Some m \<Rightarrow> (case sender rs m (cs_client s) [] of
            Crashed \<Rightarrow> Panics
          | Running m' c' os \<Rightarrow> Done (s\<lparr>cs_noop := Some m', cs_client := c'\<rparr>)
          | Returned r m' c' os \<Rightarrow> Done (s\<lparr>cs_noop := None, cs_client := c'\<rparr>)))"

text \<open>The operation given to \<open>Retry\<close>, at its attempt \<open>n\<close>.\<close>

definition attempt ::
  "host \<Rightarrow> reconnect_env \<Rightarrow> nat \<Rightarrow> conn_state \<Rightarrow> (goerr option \<times> conn_state) outcome" where
  "attempt h e n s0 =
     bind_outcome (run_noop (re_noop e n) s0) (\<lambda>s.
       (let c = others (re_others e n) (cs_client s); running = closers_Running c
        in if running > maxClosers c
           then Done (Some (errorf (''%w ('' @ itoa running @ '' > '' @ itoa (maxClosers c) @ ''): %w'')
                        [errTooManyClosers, ErrPermanent]), s\<lparr>cs_client := c\<rparr>)
           else bind_outcome (createSender h (re_create e n) c) (\<lambda>(err, sn, c1).
                  case err of
                    Some x \<Rightarrow> Done (Some x, s\<lparr>cs_sender := sn, cs_client :=
                       sendNotify (re_now e n) c1 (Some (errorf ''audit.Client connection error: %w'' [x]))\<rparr>)
                  | None \<Rightarrow> Done (None, s\<lparr>cs_sender := sn, cs_client := c1\<rparr>))))"

text \<open>
  \<open>Retry\<close> belongs to the back-off library. It is applied to the operation and a state; \<open>None\<close>
  says that it has not returned. What its documentation promises is \<open>retry_contract\<close>: it calls
  the operation again after every failure that is not permanent, returns nil after the first success,
  and otherwise returns an error after a permanent failure (which that error wraps)
  or when its context is cancelled (tagged \<open>ErrRetryCanceled\<close>).
\<close>

type_synonym retry =
  "(nat \<Rightarrow> conn_state \<Rightarrow> (goerr option \<times> conn_state) outcome) \<Rightarrow> conn_state
     \<Rightarrow> (goerr option \<times> conn_state) outcome option"

inductive attempts ::
  "(nat \<Rightarrow> 's \<Rightarrow> (goerr option \<times> 's) outcome) \<Rightarrow> 's \<Rightarrow> nat \<Rightarrow> 's \<Rightarrow> bool"
  for op s where
  no_attempt: "attempts op s 0 s"
| failed_attempt: "attempts op s n s1 \<Longrightarrow> op n s1 = Done (Some e, s2) \<Longrightarrow> \<not> permanent e \<Longrightarrow>
     attempts op s (Suc n) s2"

definition retry_done ::
  "(goerr option \<times> 's) outcome \<Rightarrow> (goerr option \<times> 's) outcome \<Rightarrow> bool" where
  "retry_done final res \<longleftrightarrow>
     (final = Panics \<and> res = Panics) \<or>
     (\<exists>s'. final = Done (None, s') \<and> res = Done (None, s')) \<or>
     (\<exists>e e' s'. final = Done (Some e, s') \<and> permanent e \<and> res = Done (Some e', s') \<and>
        (\<forall>t. errors_is e t \<longrightarrow> errors_is e' t))"

definition retry_end ::
  "(goerr option \<times> 's) outcome \<Rightarrow> 's \<Rightarrow> (goerr option \<times> 's) outcome \<Rightarrow> bool" where
  "retry_end final s res \<longleftrightarrow> retry_done final res \<or>
     (\<exists>e'. res = Done (Some e', s) \<and> errors_is e' SRetryCanceled)"

definition retry_contract :: "retry \<Rightarrow> bool" where
  "retry_contract R \<longleftrightarrow> (\<forall>op s res. R op s = Some res \<longrightarrow>
     (\<exists>n s'. attempts op s n s' \<and> retry_end (op n s') s' res))"

text \<open>A \<open>Retry\<close> whose context is never cancelled, as the background context of the package.\<close>

definition retry_uncancelled :: "retry \<Rightarrow> bool" where
  "retry_uncancelled R \<longleftrightarrow> (\<forall>op s res. R op s = Some res \<longrightarrow>
     (\<exists>n s'. attempts op s n s' \<and> retry_done (op n s') res))"

definition reconnect ::
  "retry \<Rightarrow> host \<Rightarrow> reconnect_env \<Rightarrow> conn_state \<Rightarrow> conn_state outcome option" where
  "reconnect R h e s =
     (case R (attempt h e) (s\<lparr>cs_sender := None\<rparr>) of
        None \<Rightarrow> None
      | Some Blocked \<Rightarrow> Some Blocked
      | Some Panics \<Rightarrow> Some Panics
      | Some (Done (None, s1)) \<Rightarrow> Some (Done s1)
      | Some (Done (Some err, s1)) \<Rightarrow>
          (case sendNotifyDead (re_sched e) (re_dead_now e) (cs_client s1)
                  (Some (errorf ''audit.Client connection error: stopping connection manager: %w'' [err])) of
             None \<Rightarrow> None
           | Some c2 \<Rightarrow> Some (Done (s1\<lparr>cs_sender := None, cs_client := c2\<lparr>clientDead := True\<rparr>\<rparr>))))"

section \<open>The manager loop\<close>

text \<open>
  One generation of the manager: the error of starting the sender's task, if any, the rounds its
  sender runs, the clock of the notice at its end, and the reconnect that follows.
\<close>

record generation =
  g_once :: "goerr option"
  g_rounds :: "round list"
  g_now :: int
  g_re :: reconnect_env

text \<open>
  Where the manager is: serving with a sender (its loop runs), in a call that has not returned,
  returned, or crashed by a panic.
\<close>

datatype manager_status = Serving msgSender Client | Waiting | Ended Client | Failed

definition run_sender :: "goerr option \<Rightarrow> round list \<Rightarrow> msgSender \<Rightarrow> Client \<Rightarrow> sender_status" where
  "run_sender once_err rs m c =
     (case once_err of Some err \<Rightarrow> Returned (Some err) m c [] | None \<Rightarrow> sender rs m c [])"

fun manageSender ::
  "retry \<Rightarrow> host \<Rightarrow> generation list \<Rightarrow> msgSender \<Rightarrow> Client \<Rightarrow> manager_status" where
  "manageSender R h [] m c = Serving m c"
| "manageSender R h (g # gs) m c =
     (case run_sender (g_once g) (g_rounds g) m c of
        Crashed \<Rightarrow> Failed
      | Running m' c' os \<Rightarrow> Serving m' c'
      | Returned None m' c' os \<Rightarrow> Ended
          (if h_testing h then c'
           else sendNotify (g_now g) c'
             (Some (errorf ''bug: audit.Client connection looks to be closed by user, but we don't have a Close() method: %w'' [ErrClientDead])))
      | Returned (Some err) m' c' os \<Rightarrow>
          (case reconnect R h (g_re g) \<lparr>cs_noop = None, cs_sender = None, cs_client =
                  sendNotify (g_now g) c' (Some (errorf ''audit.Client connection error: %w'' [err]))\<rparr> of
             None \<Rightarrow> Waiting
           | Some Blocked \<Rightarrow> Waiting
           | Some Panics \<Rightarrow> Failed
           | Some (Done s) \<Rightarrow>
               (case cs_sender s of
                  None \<Rightarrow> Ended (cs_client s)
                | Some m2 \<Rightarrow> manageSender R h gs m2 (cs_client s))))"

section \<open>Starting\<close>

text \<open>A background task, and the error of handing it to the task group, which both callers ignore.\<close>

datatype task = ManageTask msgSender | DeferredTask msgSender goerr

definition launchManager :: "goerr option \<Rightarrow> msgSender \<Rightarrow> goerr option \<times> task option" where
  "launchManager once_err s = (None, if once_err = None then Some (ManageTask s) else None)"

definition startDeferred ::
  "goerr option \<Rightarrow> host \<Rightarrow> Client \<Rightarrow> goerr \<Rightarrow> goerr option \<times> task option" where
  "startDeferred once_err h c startErr =
     (case newNoopSender h c of
        Inl err \<Rightarrow> (Some (errorf ''failed to create no-op sender (initial connection failed with: %w): %w''
                      [startErr, err]), None)
      | Inr noop \<Rightarrow> (None, if once_err = None then Some (DeferredTask noop startErr) else None))"

definition startConnManager ::
  "goerr option \<Rightarrow> host \<Rightarrow> created \<Rightarrow> Client \<Rightarrow> (goerr option \<times> task option \<times> Client) outcome" where
  "startConnManager once_err h r c =
     bind_outcome (createSender h r c) (\<lambda>(err, sn, c').
       case err of
         Some e \<Rightarrow>
           if \<not> deferredConn c' then Done (Some e, None, c')
           else if permanent e then Done (Some (errorf ''%w: %w'' [e, ErrClientDead]), None, c')
           else (case startDeferred once_err h c' e of (r', t) \<Rightarrow> Done (r', t, c'))
       | None \<Rightarrow> (case launchManager once_err (the sn) of (r', t) \<Rightarrow> Done (r', t, c')))"

text \<open>
  \<open>deferredConnect\<close>: \<open>df_last\<close> is what the no-op sender does after it is told to stop. The logger
  is used without a test for nil: with a nil logger the call panics.
\<close>

record deferred_env =
  df_now :: int
  df_once :: "goerr option"
  df_re :: reconnect_env
  df_last :: "round list"

definition deferredConnect ::
  "retry \<Rightarrow> host \<Rightarrow> deferred_env \<Rightarrow> generation list \<Rightarrow> msgSender \<Rightarrow> goerr \<Rightarrow> Client
     \<Rightarrow> manager_status" where
  "deferredConnect R h e gs noop startErr c =
     (let c1 = sendNotify (df_now e) c
                 (Some (errorf ''audit.Client initial connection failed, deferring connection: %w'' [startErr]))
      in if log c1 = None then Failed
         else case reconnect R h (df_re e)
                \<lparr>cs_noop = (if df_once e = None then Some noop else None), cs_sender = None,
                 cs_client = log_add (''audit.Client initial connection failed, starting deferred connection'',
                               Some startErr) c1\<rparr> of
           None \<Rightarrow> Waiting
         | Some Blocked \<Rightarrow> Waiting
         | Some Panics \<Rightarrow> Failed
         | Some (Done s) \<Rightarrow>
             (case run_noop (df_last e) s of
                Blocked \<Rightarrow> Waiting
              | Panics \<Rightarrow> Failed
              | Done s' \<Rightarrow>
                  if cs_noop s' \<noteq> None then Waiting
                  else case cs_sender s' of
                         None \<Rightarrow> Ended (cs_client s')
                       | Some m \<Rightarrow> manageSender R h gs m
                           (log_add (''audit.Client deferred connection established, switching to real sender'', None)
                              (cs_client s'))))"

definition run_task ::
  "retry \<Rightarrow> host \<Rightarrow> deferred_env \<Rightarrow> generation list \<Rightarrow> task \<Rightarrow> Client \<Rightarrow> manager_status" where
  "run_task R h e gs t c =
     (case t of ManageTask m \<Rightarrow> manageSender R h gs m c
      | DeferredTask noop err \<Rightarrow> deferredConnect R h e gs noop err c)"

section \<open>New\<close>

text \<open>
  A service tree ID is the 128-bit value of its UUID; \<open>ustr\<close> is \<open>uuid.UUID.String\<close>. \<open>once_err\<close> is the
  error of handing over the background task. Making a channel of negative capacity panics.
\<close>

definition initial_client :: "host \<Rightarrow> string \<Rightarrow> string \<Rightarrow> metrics \<Rightarrow> mem \<Rightarrow> Client" where
  "initial_client h stid kv ms mem =
     \<lparr>serviceTreeID = stid, kver = kv, goos = h_goos h, queueSize = DefaultQueueSize,
      sendCh = None, closers = [], maxClosers = 1000, notifier = Some (make_chan 2),
      clientDead = False, metrics = Some ms, log = Some [], deferredConn = False, memory = mem\<rparr>"

definition New ::
  "host \<Rightarrow> (128 word \<Rightarrow> string) \<Rightarrow> goerr option \<Rightarrow> mem \<Rightarrow> 128 word \<Rightarrow> created \<Rightarrow> Option list
     \<Rightarrow> ((goerr + Client) \<times> task option) outcome" where
  "New h ustr once_err mem uid r options =
     (if uid = 0 then Done (Inl (errorf ''serviceTreeID cannot be nil: %w'' [ErrValidation]), None)
      else case kernelVer h of
        Inl err \<Rightarrow> Done (Inl (errorf ''could not determine kernel version on platform: %w'' [err]), None)
      | Inr kv \<Rightarrow> (case h_backoff h of
        Some err \<Rightarrow> Done (Inl (errorf ''failed to create exponential backoff: %w'' [err]), None)
      | None \<Rightarrow> (case newMetrics (h_counter h) of
        Inl err \<Rightarrow> Done (Inl (errorf ''failed to create metrics: %w'' [err]), None)
      | Inr ms \<Rightarrow> (case apply_options options (initial_client h (ustr uid) kv ms mem) of
        Inl err \<Rightarrow> Done (Inl err, None)
      | Inr c \<Rightarrow>
          if queueSize c < 0 then Panics
          else bind_outcome
                 (startConnManager once_err h r (c\<lparr>sendCh := Some (make_chan (nat (queueSize c)))\<rparr>))
                 (\<lambda>(err, t, c'). case err of
                    Some e \<Rightarrow> Done (Inl (errorf ''failed to start connection manager: %w'' [e]), t)
                  | None \<Rightarrow> Done (Inr c', t))))))"

end
