(* ===== verification/ClientFacts.thy ===== *)
theory ClientFacts
  imports Client
begin

text \<open>
  What the client's operations guarantee: the invariant \<open>client_ok\<close> (bounded channels, counters in
  place, well-formed messages of this client in the queue) and its preservation, the complete
  behaviour of \<open>Send\<close>, and the delivery of notifications, the death notice included.
\<close>

section \<open>The client invariant\<close>

definition metrics_ok :: "metrics \<Rightarrow> bool" where
  "metrics_ok ms \<longleftrightarrow> msgsSent ms \<noteq> None \<and> msgsRequeued ms \<noteq> None \<and> msgsDropped ms \<noteq> None \<and>
     msgErrs ms \<noteq> None \<and> heartbeatDropped ms \<noteq> None"

definition message_ok :: "string \<Rightarrow> mem \<Rightarrow> Msg \<Rightarrow> bool" where
  "message_ok stid m msg \<longleftrightarrow> user_type (msg_Type msg) \<and> ServiceTreeID (msg_Record msg) = stid \<and>
     record_ok m (msg_Record msg)"

definition queue :: "Client \<Rightarrow> Msg list" where
  "queue c = (case sendCh c of None \<Rightarrow> [] | Some ch \<Rightarrow> buf ch)"

definition notices :: "Client \<Rightarrow> NotifyError list" where
  "notices c = (case notifier c of None \<Rightarrow> [] | Some n \<Rightarrow> buf n)"

definition client_ok :: "Client \<Rightarrow> bool" where
  "client_ok c \<longleftrightarrow>
     (\<exists>ch. sendCh c = Some ch \<and> ch.bounded ch \<and> 0 < cap ch) \<and>
     (\<exists>n. notifier c = Some n \<and> ch.bounded n \<and> 0 < cap n) \<and>
     (\<exists>ms. metrics c = Some ms \<and> metrics_ok ms) \<and>
     list_all (message_ok (serviceTreeID c) (memory c)) (queue c)"

lemma TryPut_room: "length (buf n) < cap n \<Longrightarrow> TryPut n x = (True, n\<lparr>buf := buf n @ [x]\<rparr>)"
  by (simp add: TryPut_def)

lemma TryPut_full: "\<not> length (buf n) < cap n \<Longrightarrow> TryPut n x = (False, n)"
  by (simp add: TryPut_def)

lemma user_type_iff: "user_type t \<longleftrightarrow> \<not> (t = ATUnknown \<or> ControlPlane < t)"
proof -
  have "t = 0 \<or> t = 1 \<or> t = 2 \<or> 2 < t" for t :: "8 word"
    by (auto simp: word_less_nat_alt word_unat_eq_iff)
  from this [of t] show ?thesis
    by (auto simp: user_type_def const_defs)
qed

lemma user_types: "user_type DataPlane" "user_type ControlPlane"
  by (simp_all add: user_type_def)

lemma not_user_types: "\<not> user_type Heartbeat" "\<not> user_type Diagnostic" "\<not> user_type ATUnknown"
  by (simp_all add: user_type_def const_defs)

section \<open>Send\<close>

text \<open>The message as \<open>Send\<close> completes it.\<close>

definition stamped :: "Client \<Rightarrow> Msg \<Rightarrow> Msg" where
  "stamped c msg = msg\<lparr>msg_Record := (msg_Record msg)\<lparr>ServiceTreeID := serviceTreeID c\<rparr>\<rparr>"

definition has_room :: "Client \<Rightarrow> bool" where
  "has_room c = (case sendCh c of None \<Rightarrow> False | Some ch \<Rightarrow> length (buf ch) < cap ch)"

lemma TryPut_nilable_cases:
  "TryPut_nilable (sendCh c) x =
     (if has_room c then (True, Some ((the (sendCh c))\<lparr>buf := queue c @ [x]\<rparr>))
      else (False, sendCh c))"
  by (auto simp: TryPut_nilable_def has_room_def queue_def TryPut_def split: option.split)

lemma Send_check_eq:
  "Send_check c msg =
    (if \<not> user_type (msg_Type msg)
     then Inl (errorf (''audit type ('' @ the (Type_String (msg_Type msg)) @ '') is invalid: %w'')
                   [ErrValidation])
     else case Validate (memory c) (msg_Record (stamped c msg)) of
            Some err \<Rightarrow> Inl (errorf ''%w: %w'' [err, ErrValidation])
          | None \<Rightarrow> Inr (stamped c msg))"
proof (cases "user_type (msg_Type msg)")
  case True
  then have "msg_Type msg = ControlPlane \<or> msg_Type msg = DataPlane"
    by (auto simp: user_type_def)
  with True show ?thesis
    by (auto simp: Send_check_def stamped_def user_type_iff Let_def split: option.split)
next
  case False
  then show ?thesis
    using user_type_iff by (auto simp: Send_check_def)
qed

lemma Send_put_eq:
  "Send_put c msg =
    (if has_room c then (None, c\<lparr>sendCh := Some ((the (sendCh c))\<lparr>buf := queue c @ [msg]\<rparr>)\<rparr>)
     else (Some ErrQueueFull, c))"
  by (simp add: Send_put_def TryPut_nilable_cases)

lemma Send_client_eq:
  "Send_client c msg =
    (if clientDead c then (Some ErrClientDead, c)
     else if \<not> user_type (msg_Type msg)
     then (Some (errorf (''audit type ('' @ the (Type_String (msg_Type msg)) @ '') is invalid: %w'')
                   [ErrValidation]), c)
     else case Validate (memory c) (msg_Record (stamped c msg)) of
            Some err \<Rightarrow> (Some (errorf ''%w: %w'' [err, ErrValidation]), c)
          | None \<Rightarrow> if has_room c
                    then (None, c\<lparr>sendCh := Some ((the (sendCh c))\<lparr>buf := queue c @ [stamped c msg]\<rparr>)\<rparr>)
                    else (Some ErrQueueFull, c))"
  by (simp add: Send_client_def Send_check_eq Send_put_eq split: option.split)

text \<open>What passes the check is well-formed and stamped; the put keeps the client's invariant.\<close>

lemma Send_check_ok:
  assumes "Send_check c msg = Inr msg'" and "record_ok (memory c) (msg_Record msg)"
  shows "msg' = stamped c msg" and "message_ok (serviceTreeID c) (memory c) msg'"
  using assms
  by (auto simp: Send_check_eq message_ok_def stamped_def record_ok_def split: if_splits option.splits)

lemma Send_put_keeps:
  assumes "client_ok c" and "message_ok (serviceTreeID c) (memory c) msg" and "Send_put c msg = (r, c')"
  shows "client_ok c'" and "queue c' = queue c @ (if r = None then [msg] else [])"
    and "r \<noteq> None \<Longrightarrow> c' = c" and "c'\<lparr>sendCh := sendCh c\<rparr> = c"
  using assms
  by (auto simp: Send_put_eq client_ok_def queue_def has_room_def ch.bounded_def split: if_splits option.splits)

lemma Send_client_keeps:
  assumes "client_ok c" and "record_ok (memory c) (msg_Record msg)"
    and "Send_client c msg = (r, c')"
  shows "client_ok c'"
proof (cases "r = None")
  case False
  with assms(3) have "c' = c" by (auto simp: Send_client_eq split: if_splits option.splits)
  with assms(1) show ?thesis by simp
next
  case True
  with assms(3) have user: "user_type (msg_Type msg)" and room: "has_room c"
    and c': "c' = c\<lparr>sendCh := Some ((the (sendCh c))\<lparr>buf := queue c @ [stamped c msg]\<rparr>)\<rparr>"
    by (auto simp: Send_client_eq split: if_splits option.splits)
  from user assms(2) have "message_ok (serviceTreeID c) (memory c) (stamped c msg)"
    by (simp add: message_ok_def stamped_def record_ok_def)
  with assms(1) room show ?thesis
    by (auto simp: client_ok_def c' queue_def has_room_def ch.bounded_def)
qed

text \<open>
  C19. \<open>Send\<close> accepts a message exactly if the client is alive, the message has a user type, its
  record (stamped with the client's service tree ID) validates and the queue has room. An
  accepted message is appended to the queue with the stamp, and nothing else changes.
\<close>

theorem Send_accepts:
  assumes "Send_client c msg = (r, c')"
  shows "(r = None \<longleftrightarrow> \<not> clientDead c \<and> user_type (msg_Type msg) \<and>
       Validate (memory c) (msg_Record (stamped c msg)) = None \<and> has_room c) \<and>
     (r = None \<longrightarrow> queue c' = queue c @ [stamped c msg] \<and> c'\<lparr>sendCh := sendCh c\<rparr> = c)"
  using assms by (auto simp: Send_client_eq queue_def split: if_splits option.splits)

text \<open>A client as \<open>New\<close> makes it, with a queue of two, over the sample memory.\<close>

definition sample_metrics :: metrics where
  "sample_metrics = \<lparr>msgsSent = Some 0, msgsRequeued = Some 0, msgsDropped = Some 0,
     msgErrs = Some 0, heartbeatDropped = Some 0, diagnosticDropped = None\<rparr>"

definition sample_client :: Client where
  "sample_client = \<lparr>serviceTreeID = ''id'', kver = ''6.1'', goos = ''linux'', queueSize = 2,
     sendCh = Some (make_chan 2), closers = [], maxClosers = 1000, notifier = Some (make_chan 2),
     clientDead = False, metrics = Some sample_metrics, log = Some [], deferredConn = False,
     memory = sample_mem\<rparr>"

definition sample_msg :: Msg where
  "sample_msg = Msg_zero\<lparr>msg_Type := DataPlane, msg_Record := sample_record\<rparr>"

lemma sample_client_ok: "client_ok sample_client"
  by (simp add: client_ok_def sample_client_def sample_metrics_def metrics_ok_def queue_def)

lemma sample_stamped: "stamped sample_client sample_msg = sample_msg"
  by (simp add: stamped_def sample_client_def sample_msg_def sample_record_def)

lemma sample_msg_simps [simp]:
  "msg_Record sample_msg = sample_record" "msg_Type sample_msg = DataPlane"
  by (simp_all add: sample_msg_def)

lemma sample_client_simps [simp]:
  "memory sample_client = sample_mem" "clientDead sample_client = False"
  "has_room sample_client" "queue sample_client = []" "notices sample_client = []"
  "serviceTreeID sample_client = ''id''"
  by (simp_all add: sample_client_def has_room_def queue_def notices_def)

lemma sample_Validate: "Validate sample_mem sample_record = None"
  using Validate_None [OF sample_ok] sample_valid by simp

theorem Send_accepts_witness:
  "\<exists>c'. Send_client sample_client sample_msg = (None, c') \<and> queue c' = [sample_msg]"
  using Send_accepts [of sample_client sample_msg "fst (Send_client sample_client sample_msg)"
      "snd (Send_client sample_client sample_msg)"]
  by (simp add: sample_stamped sample_Validate user_types)
     (metis prod.collapse)

text \<open>
  C28. The errors of \<open>Send\<close>, on any client pointer: an error leaves the client unchanged and
  is of exactly one of the three documented kinds, dead client, validation, queue full; it is
  tagged permanent unless the queue was full. A nil or dead client gives the dead-client
  error for every message.
\<close>

theorem Send_errors:
  assumes "Send cp msg = (Some err, cp')"
  shows "cp' = cp \<and>
    (errors_is err SClientDead \<longleftrightarrow> cp = None \<or> (\<exists>c. cp = Some c \<and> clientDead c)) \<and>
    (errors_is err SPermanent \<longleftrightarrow> \<not> errors_is err SQueueFull) \<and>
    (errors_is err SValidation \<longleftrightarrow> \<not> errors_is err SClientDead \<and> \<not> errors_is err SQueueFull)"
  using assms
  by (cases cp)
     (auto simp: Send_def Send_client_eq Validate_error_unclassified
       split: if_splits option.splits prod.splits)

theorem Send_errors_witness:
  "\<exists>err. Send None sample_msg = (Some err, None) \<and> errors_is err SClientDead"
  using Send_errors [of None sample_msg ErrClientDead None] by (simp add: Send_def)

section \<open>Notifications\<close>

text \<open>
  An ordinary notification never blocks and never displaces another: with room it is appended
  with its time; on a full channel it is dropped, the channel is unchanged, and the drop is
  logged if there is a logger. No other part of the client changes.
\<close>

lemma sendNotify_spec:
  assumes "notifier c = Some n"
  shows "sendNotify now c (Some e) =
    (if length (buf n) < cap n
     then c\<lparr>notifier := Some (n\<lparr>buf := buf n @ [\<lparr>ne_Time = now, ne_Err = e\<rparr>]\<rparr>)\<rparr>
     else c\<lparr>log := map_option (\<lambda>ls. ls @
        [(''audit.Client notifier channel is full, dropping notification'', Some e)]) (log c)\<rparr>)"
  using assms by (simp add: sendNotify_def notice_def TryPut_def logDrop_def log_add_def)

lemma sendNotify_frame:
  "sendCh (sendNotify now c err) = sendCh c" "clientDead (sendNotify now c err) = clientDead c"
  "memory (sendNotify now c err) = memory c" "metrics (sendNotify now c err) = metrics c"
  "serviceTreeID (sendNotify now c err) = serviceTreeID c" "closers (sendNotify now c err) = closers c"
  "queue (sendNotify now c err) = queue c" "goos (sendNotify now c err) = goos c"
  "maxClosers (sendNotify now c err) = maxClosers c" "kver (sendNotify now c err) = kver c"
  "deferredConn (sendNotify now c err) = deferredConn c"
  by (auto simp: sendNotify_def logDrop_def log_add_def queue_def split: option.splits prod.splits bool.splits)

lemmas [simp] = sendNotify_frame

lemma sendNotify_bounded:
  assumes "notifier c = Some n" and "ch.bounded n" and "0 < cap n"
  shows "\<exists>n'. notifier (sendNotify now c err) = Some n' \<and> ch.bounded n' \<and> cap n' = cap n"
  using assms
  by (cases err) (auto simp: sendNotify_def notice_def TryPut_def logDrop_def log_add_def ch.bounded_def)

lemma sendNotify_ok: "client_ok c \<Longrightarrow> client_ok (sendNotify now c err)"
  using sendNotify_bounded [of c _ now err] by (fastforce simp: client_ok_def)

subsection \<open>The death notice\<close>

lemma act_keeps: "ch.bounded n \<Longrightarrow> ch.bounded (act x n) \<and> cap (act x n) = cap n"
  by (cases x) (auto simp: ch.bounded_def TryPut_def TryGet_def split: list.split)

lemma acts_keep: "ch.bounded n \<Longrightarrow> ch.bounded (fold act xs n) \<and> cap (fold act xs n) = cap n"
  by (induction xs arbitrary: n) (auto simp: act_keeps)

definition is_producer :: "notify_act \<Rightarrow> bool" where
  "is_producer x = (case x of Producer v \<Rightarrow> True | Consumer \<Rightarrow> False)"

lemma consumers_keep_room:
  "list_all (\<lambda>x. \<not> is_producer x) xs \<Longrightarrow> length (buf n) < cap n \<Longrightarrow>
   length (buf (fold act xs n)) < cap (fold act xs n)"
proof (induction xs arbitrary: n)
  case (Cons x xs)
  from Cons.prems have "length (buf (act x n)) < cap (act x n)"
    by (cases x) (auto simp: is_producer_def TryGet_def split: list.split)
  with Cons show ?case by simp
qed simp

text \<open>How many notices other goroutines put between an eviction and the next attempt.\<close>

definition intruders :: "schedule \<Rightarrow> nat" where
  "intruders sched = (\<Sum>(before, after) \<leftarrow> sched. length (filter is_producer after))"

lemma TryGet_room:
  "ch.bounded n \<Longrightarrow> 0 < cap n \<Longrightarrow> TryGet n = (r, n') \<Longrightarrow>
   length (buf n') < cap n' \<and> ch.bounded n' \<and> cap n' = cap n"
  by (auto simp: TryGet_def ch.bounded_def split: list.splits)

lemma intruders_Cons:
  "intruders ((before, after) # rest) = length (filter is_producer after) + intruders rest"
  by (simp add: intruders_def)

text \<open>One round of the loop on a full channel.\<close>

lemma dead_loop_round:
  "\<not> length (buf n) < cap n \<Longrightarrow> TryGet (fold act before n) = (r, m) \<Longrightarrow>
   dead_loop ((before, after) # rest) v n ev =
     dead_loop rest v (fold act after m) (ev @ (case r of None \<Rightarrow> [] | Some x \<Rightarrow> [x]))"
  by (subst dead_loop.simps) (simp add: TryPut_full)

lemma dead_loop_returns:
  "ch.bounded n \<Longrightarrow> 0 < cap n \<Longrightarrow> intruders sched < length sched \<Longrightarrow>
   \<exists>n' ev'. dead_loop sched v n ev = Some (n', ev')"
proof (induction sched arbitrary: n ev)
  case (Cons ba rest)
  obtain before after where ba: "ba = (before, after)" by fastforce
  show ?case
  proof (cases "length (buf n) < cap n")
    case True
    then show ?thesis by (subst dead_loop.simps) (simp add: TryPut_room)
  next
    case full: False
    let ?m = "fold act before n"
    obtain r m' where get: "TryGet ?m = (r, m')" by fastforce
    have m: "ch.bounded ?m" "cap ?m = cap n" using acts_keep [OF Cons.prems(1)] by auto
    with TryGet_room [OF m(1) _ get] Cons.prems(2)
    have m': "length (buf m') < cap m'" "ch.bounded m'" "cap m' = cap n" by auto
    let ?k = "fold act after m'"
    have k: "ch.bounded ?k" "cap ?k = cap n" using acts_keep [OF m'(2)] m'(3) by auto
    have step: "dead_loop (ba # rest) v n ev =
        dead_loop rest v ?k (ev @ (case r of None \<Rightarrow> [] | Some x \<Rightarrow> [x]))"
      unfolding ba by (rule dead_loop_round [OF full get])
    show ?thesis
    proof (cases "list_all (\<lambda>x. \<not> is_producer x) after")
      case True
      from consumers_keep_room [OF True m'(1)] show ?thesis
        unfolding step by (subst dead_loop.simps) (simp add: TryPut_room)
    next
      case False
      then have "0 < length (filter is_producer after)"
        by (auto simp: list_all_iff filter_empty_conv)
      moreover have "length (filter is_producer after) + intruders rest < Suc (length rest)"
        using Cons.prems(3) by (simp add: intruders_Cons ba)
      ultimately have "intruders rest < length rest" by linarith
      with Cons.IH [OF k(1)] k(2) Cons.prems(2) show ?thesis unfolding step by simp
    qed
  qed
qed (simp add: intruders_def)

lemma dead_loop_result:
  "dead_loop sched v n ev = Some (n', ev') \<Longrightarrow> ch.bounded n \<Longrightarrow>
   (\<exists>xs. buf n' = xs @ [v]) \<and> ch.bounded n' \<and> cap n' = cap n"
proof (induction sched arbitrary: n ev)
  case Nil
  then show ?case
    by (cases "length (buf n) < cap n")
       (auto simp: dead_loop.simps [of "[]"] TryPut_room TryPut_full ch.bounded_def)
next
  case (Cons ba rest)
  obtain before after where ba: "ba = (before, after)" by fastforce
  show ?case
  proof (cases "length (buf n) < cap n")
    case True
    with Cons.prems show ?thesis
      by (auto simp: dead_loop.simps [of "ba # rest"] TryPut_room ch.bounded_def)
  next
    case False
    obtain r m' where get: "TryGet (fold act before n) = (r, m')" by fastforce
    have m: "ch.bounded (fold act before n)" "cap (fold act before n) = cap n"
      using acts_keep [OF Cons.prems(2)] by auto
    have m': "ch.bounded m'" "cap m' = cap n"
      using ch.get_bounded [OF m(1) get] ch.get_capacity [OF get] m(2) by auto
    from Cons.prems(1) False have
      "dead_loop rest v (fold act after m') (ev @ (case r of None \<Rightarrow> [] | Some x \<Rightarrow> [x])) = Some (n', ev')"
      by (simp add: dead_loop_round [OF False get] ba)
    from Cons.IH [OF this] acts_keep [OF m'(1)] m'(2) show ?thesis by simp
  qed
qed

lemma fold_log_add [simp]:
  "notifier (fold (\<lambda>x. log_add (f x)) xs c) = notifier c"
  "sendCh (fold (\<lambda>x. log_add (f x)) xs c) = sendCh c"
  "metrics (fold (\<lambda>x. log_add (f x)) xs c) = metrics c"
  "memory (fold (\<lambda>x. log_add (f x)) xs c) = memory c"
  "serviceTreeID (fold (\<lambda>x. log_add (f x)) xs c) = serviceTreeID c"
  "clientDead (fold (\<lambda>x. log_add (f x)) xs c) = clientDead c"
  "closers (fold (\<lambda>x. log_add (f x)) xs c) = closers c"
  by (induction xs arbitrary: c) (simp_all add: log_add_def)

text \<open>
  C22. The death notice is always delivered, and the loop that delivers it ends: on a buffered
  channel, if fewer notices are put by other goroutines between an eviction and the next attempt
  than there are rounds, \<open>sendNotifyDead\<close> returns, the notice is the newest entry of the channel,
  and the channel is within its capacity. Without other goroutines one round is enough.
\<close>

theorem sendNotifyDead_delivers:
  assumes "notifier c = Some n" and "ch.bounded n" and "0 < cap n"
    and "intruders sched < length sched"
  shows "\<exists>c' xs. sendNotifyDead sched now c (Some e) = Some c' \<and>
    notices c' = xs @ [\<lparr>ne_Time = now, ne_Err = e\<rparr>] \<and> length (notices c') \<le> cap n"
proof -
  let ?v = "\<lparr>ne_Time = now, ne_Err = e\<rparr>"
  obtain n' ev where loop: "dead_loop sched ?v n [] = Some (n', ev)"
    using dead_loop_returns [OF assms(2-4)] by blast
  from dead_loop_result [OF loop assms(2)] obtain xs where
    "buf n' = xs @ [?v]" "ch.bounded n'" "cap n' = cap n" by blast
  with assms(1,3) loop show ?thesis
    by (auto simp: sendNotifyDead_def notice_def notices_def ch.bounded_def)
qed

theorem sendNotifyDead_delivers_witness:
  "\<exists>c' xs. sendNotifyDead [([], [Producer \<lparr>ne_Time = 1, ne_Err = ErrQueueFull\<rparr>]), ([], [])] 7
      (sample_client\<lparr>notifier := Some \<lparr>buf = [\<lparr>ne_Time = 1, ne_Err = ErrQueueFull\<rparr>], cap = 1\<rparr>\<rparr>)
      (Some ErrClientDead) = Some c' \<and> notices c' = xs @ [\<lparr>ne_Time = 7, ne_Err = ErrClientDead\<rparr>]"
  using sendNotifyDead_delivers [of "sample_client\<lparr>notifier := Some \<lparr>buf = [\<lparr>ne_Time = 1, ne_Err = ErrQueueFull\<rparr>], cap = 1\<rparr>\<rparr>"
      "\<lparr>buf = [\<lparr>ne_Time = 1, ne_Err = ErrQueueFull\<rparr>], cap = 1\<rparr>"
      "[([], [Producer \<lparr>ne_Time = 1, ne_Err = ErrQueueFull\<rparr>]), ([], [])]" 7 ErrClientDead]
  by (auto simp: ch.bounded_def intruders_def is_producer_def)

end
