(* ===== verification/MsgSenderFacts.thy ===== *)
theory MsgSenderFacts
  imports MsgSender ClientFacts
begin

text \<open>
  What the message sender guarantees: a write ends in exactly one of sent, requeued, dropped and
  is counted as such; no service of an event panics or breaks the client's invariant; every
  message taken off the queue is accounted for; heartbeats follow the first message and stop
  with the sender; and how the loop ends.
\<close>

section \<open>Counters\<close>

fun counter_val :: "counter \<Rightarrow> metrics \<Rightarrow> nat option" where
  "counter_val MsgsSent m = msgsSent m"
| "counter_val MsgsRequeued m = msgsRequeued m"
| "counter_val MsgsDropped m = msgsDropped m"
| "counter_val MsgErrs m = msgErrs m"
| "counter_val HeartbeatDropped m = heartbeatDropped m"
| "counter_val DiagnosticDropped m = diagnosticDropped m"

definition count :: "Client \<Rightarrow> counter \<Rightarrow> nat" where
  "count c k = (case metrics c of None \<Rightarrow> 0
     | Some ms \<Rightarrow> (case counter_val k ms of None \<Rightarrow> 0 | Some n \<Rightarrow> n))"

text \<open>The change of the counters: those listed went up by one, the others stayed.\<close>

definition counted :: "counter list \<Rightarrow> Client \<Rightarrow> Client \<Rightarrow> bool" where
  "counted ks c c' \<longleftrightarrow> (\<forall>k. count c' k = count c k + count_list ks k)"

lemma Add_counter_val:
  "Add k m = Some m' \<Longrightarrow>
   counter_val j m' = (if j = k then map_option Suc (counter_val k m) else counter_val j m)"
  by (cases k; cases j) auto

lemma Add_Some_iff: "(\<exists>m'. Add k m = Some m') \<longleftrightarrow> counter_val k m \<noteq> None"
  by (cases k) auto

lemma all_counter:
  "(\<forall>k. P k) \<longleftrightarrow> P MsgsSent \<and> P MsgsRequeued \<and> P MsgsDropped \<and> P MsgErrs \<and>
     P HeartbeatDropped \<and> P DiagnosticDropped"
proof (intro iffI allI)
  fix k
  assume "P MsgsSent \<and> P MsgsRequeued \<and> P MsgsDropped \<and> P MsgErrs \<and>
     P HeartbeatDropped \<and> P DiagnosticDropped"
  then show "P k" by (cases k) auto
qed simp

lemma metrics_ok_iff: "metrics_ok m \<longleftrightarrow> (\<forall>k. k \<noteq> DiagnosticDropped \<longrightarrow> counter_val k m \<noteq> None)"
  by (simp add: all_counter metrics_ok_def)

lemma metrics_Add_ok:
  assumes "client_ok c" and "k \<noteq> DiagnosticDropped"
  obtains ms where "metrics_Add k c = Done (c\<lparr>metrics := Some ms\<rparr>)" "metrics_ok ms"
    "counted [k] c (c\<lparr>metrics := Some ms\<rparr>)"
proof -
  from assms(1) obtain m where m: "metrics c = Some m" "metrics_ok m"
    by (auto simp: client_ok_def)
  with assms(2) have "counter_val k m \<noteq> None" by (simp add: metrics_ok_iff)
  with Add_Some_iff obtain ms where ms: "Add k m = Some ms" by blast
  from m(2) ms have "metrics_ok ms"
    unfolding metrics_ok_iff by (simp add: Add_counter_val [OF ms])
  moreover have "counted [k] c (c\<lparr>metrics := Some ms\<rparr>)"
    using \<open>counter_val k m \<noteq> None\<close>
    by (auto simp: counted_def count_def m Add_counter_val [OF ms] split: option.split)
  ultimately show ?thesis using that ms by (simp add: metrics_Add_def m)
qed

lemma client_ok_metrics: "client_ok c \<Longrightarrow> metrics_ok ms \<Longrightarrow> client_ok (c\<lparr>metrics := Some ms\<rparr>)"
  by (auto simp: client_ok_def queue_def)

lemma counted_trans: "counted ks c c' \<Longrightarrow> counted js c' c'' \<Longrightarrow> counted (ks @ js) c c''"
  by (simp add: counted_def)

lemma count_cong: "metrics c' = metrics c \<Longrightarrow> count c' k = count c k"
  by (simp add: count_def)

lemma counted_refl: "metrics c' = metrics c \<Longrightarrow> counted [] c c'"
  by (simp add: counted_def count_def)

lemma counted_cong:
  "metrics a' = metrics a \<Longrightarrow> metrics b' = metrics b \<Longrightarrow> counted ks a' b' = counted ks a b"
  by (simp add: counted_def count_def)

section \<open>Other goroutines\<close>

fun other_ok :: "mem \<Rightarrow> other \<Rightarrow> bool" where
  "other_ok m (UserSend msg) = record_ok m (msg_Record msg)"
| "other_ok m (CloserReturns now a err) = True"
| "other_ok m UserReceive = True"

fun is_send :: "other \<Rightarrow> bool" where
  "is_send (UserSend msg) = True"
| "is_send (CloserReturns now a err) = False"
| "is_send UserReceive = False"

text \<open>What one client state may become by the acts of others: more messages at the end of the queue.\<close>

definition others_effect :: "nat \<Rightarrow> Client \<Rightarrow> Client \<Rightarrow> bool" where
  "others_effect k c c' \<longleftrightarrow> client_ok c' \<and> serviceTreeID c' = serviceTreeID c \<and>
     memory c' = memory c \<and> metrics c' = metrics c \<and>
     (\<exists>xs. queue c' = queue c @ xs \<and> length xs \<le> k)"

lemma others_effect_trans:
  "others_effect j c c' \<Longrightarrow> others_effect k c' c'' \<Longrightarrow> others_effect (j + k) c c''"
  by (auto simp: others_effect_def)

lemma client_ok_receive:
  assumes "client_ok c"
  shows "client_ok (c\<lparr>notifier := map_option (\<lambda>n. snd (TryGet n)) (notifier c)\<rparr>)"
proof -
  from assms obtain n where n: "notifier c = Some n" "ch.bounded n" "0 < cap n"
    by (auto simp: client_ok_def)
  obtain r n' where "TryGet n = (r, n')" by fastforce
  with n ch.get_bounded [OF n(2) this] ch.get_capacity [OF this] assms show ?thesis
    by (simp add: client_ok_def queue_def)
qed

lemma client_ok_closers [simp]: "client_ok (c\<lparr>closers := xs\<rparr>) = client_ok c"
  by (simp add: client_ok_def queue_def)

lemma other_step_effect:
  assumes "client_ok c" and "other_ok (memory c) x"
  shows "others_effect (if is_send x then 1 else 0) c (other_step x c)"
proof (cases x)
  case (UserSend msg)
  obtain r c' where s: "Send_client c msg = (r, c')" by fastforce
  with assms UserSend have "client_ok c'" by (auto intro: Send_client_keeps)
  with s UserSend show ?thesis
    by (auto simp: others_effect_def Send_client_eq queue_def split: if_splits option.splits)
next
  case (CloserReturns now a err)
  with assms show ?thesis
    by (auto simp: others_effect_def closer_returns_def Let_def sendNotify_ok queue_def
        split: option.split)
next
  case UserReceive
  with assms client_ok_receive [OF assms(1)] show ?thesis
    by (simp add: others_effect_def queue_def)
qed

lemma others_ok:
  "client_ok c \<Longrightarrow> list_all (other_ok (memory c)) xs \<Longrightarrow>
   others_effect (length (filter is_send xs)) c (others xs c)"
proof (induction xs arbitrary: c)
  case Nil
  then show ?case by (simp add: others_def others_effect_def)
next
  case (Cons x xs)
  from Cons.prems have x: "others_effect (if is_send x then 1 else 0) c (other_step x c)"
    by (intro other_step_effect) auto
  then have "client_ok (other_step x c)" "memory (other_step x c) = memory c"
    by (auto simp: others_effect_def)
  with Cons have "others_effect (length (filter is_send xs)) (other_step x c) (others xs (other_step x c))"
    by auto
  from others_effect_trans [OF x this] show ?case
    by (auto simp: others_def split: if_splits)
qed

section \<open>Writing\<close>

lemma client_ok_memory:
  assumes "client_ok c" and "record_ok (memory c) (msg_Record msg)"
    and "conn_Write e (memory c) a msg = (r, m', os)"
  shows "client_ok (c\<lparr>memory := m'\<rparr>)"
  using assms(1) au.write_keeps [OF assms(2,3)]
  by (auto simp: client_ok_def queue_def message_ok_def list_all_iff)

lemma requeue_effect:
  assumes "client_ok c" and "message_ok (serviceTreeID c) (memory c) msg"
  obtains c' where "requeue c msg = Done c'" "client_ok c'"
    "queue c' = queue c @ (if has_room c then [msg] else [])"
    "counted [if has_room c then MsgsRequeued else MsgsDropped] c c'"
    "serviceTreeID c' = serviceTreeID c" "memory c' = memory c" "notifier c' = notifier c"
proof (cases "has_room c")
  case True
  let ?c = "c\<lparr>sendCh := Some ((the (sendCh c))\<lparr>buf := queue c @ [msg]\<rparr>)\<rparr>"
  from assms True have ok: "client_ok ?c"
    by (auto simp: client_ok_def queue_def has_room_def ch.bounded_def)
  obtain ms where "metrics_Add MsgsRequeued ?c = Done (?c\<lparr>metrics := Some ms\<rparr>)" "metrics_ok ms"
    "counted [MsgsRequeued] ?c (?c\<lparr>metrics := Some ms\<rparr>)"
    using metrics_Add_ok [OF ok, of MsgsRequeued] by auto
  with True ok show ?thesis
    by (intro that [of "?c\<lparr>metrics := Some ms\<rparr>"])
       (auto simp: requeue_def TryPut_nilable_cases client_ok_metrics queue_def
         counted_def count_def)
next
  case False
  obtain ms where "metrics_Add MsgsDropped c = Done (c\<lparr>metrics := Some ms\<rparr>)" "metrics_ok ms"
    "counted [MsgsDropped] c (c\<lparr>metrics := Some ms\<rparr>)"
    using metrics_Add_ok [OF assms(1), of MsgsDropped] by auto
  with False assms(1) show ?thesis
    by (intro that [of "c\<lparr>metrics := Some ms\<rparr>"])
       (auto simp: requeue_def TryPut_nilable_cases client_ok_metrics queue_def)
qed

text \<open>A heartbeat's record is the zero record: its headers are nil.\<close>

definition writable :: "Client \<Rightarrow> Msg \<Rightarrow> bool" where
  "writable c msg \<longleftrightarrow> message_ok (serviceTreeID c) (memory c) msg \<or>
     msg_Type msg = Heartbeat \<and> msg_Record msg = Record_zero"

lemma record_ok_zero [simp]: "record_ok m Record_zero"
  by (simp add: record_ok_def Record_zero_def slice_ok_def)

lemma writable_record_ok: "writable c msg \<Longrightarrow> record_ok (memory c) (msg_Record msg)"
  by (auto simp: writable_def message_ok_def)

lemma writable_cases:
  "writable c msg \<Longrightarrow> user_type (msg_Type msg) \<or> \<not> user_type (msg_Type msg) \<and> msg_Type msg = Heartbeat"
  by (auto simp: writable_def message_ok_def not_user_types)

lemma count_failed_eq:
  "count_failed c msg =
    (if user_type (msg_Type msg) then requeue c msg
     else if msg_Type msg = Heartbeat then metrics_Add HeartbeatDropped c
     else if msg_Type msg = Diagnostic then metrics_Add DiagnosticDropped c else Done c)"
  "count_noop c msg =
    (if user_type (msg_Type msg) then metrics_Add MsgsDropped c
     else if msg_Type msg = Heartbeat then metrics_Add HeartbeatDropped c
     else if msg_Type msg = Diagnostic then metrics_Add DiagnosticDropped c else Done c)"
  by (simp_all add: count_failed_def count_noop_def user_type_def)

definition notify_room :: "Client \<Rightarrow> bool" where
  "notify_room c = (case notifier c of None \<Rightarrow> False | Some n \<Rightarrow> length (buf n) < cap n)"

lemma notices_sendNotify:
  "notices (sendNotify now c (Some e)) =
     notices c @ (if notify_room c then [\<lparr>ne_Time = now, ne_Err = e\<rparr>] else [])"
  by (auto simp: sendNotify_def notice_def notices_def notify_room_def logDrop_def log_add_def
      TryPut_def split: option.splits)

lemma count_sendNotify [simp]: "counted ks c (sendNotify now c' err) = counted ks c c'"
  by (rule counted_cong) simp_all

text \<open>The notices a write adds: one for a failure, if the channel has room.\<close>

definition write_notices :: "int \<Rightarrow> Client \<Rightarrow> goerr option \<Rightarrow> NotifyError list" where
  "write_notices now c r = (case r of
       Some err \<Rightarrow> if notify_room c
                   then [\<lparr>ne_Time = now, ne_Err = errorf ''audit.Client write failed: %w'' [err]\<rparr>]
                   else []
     | None \<Rightarrow> [])"

lemma write_failed_user:
  assumes ok: "client_ok c" and user: "user_type (msg_Type msg)"
    and msg: "message_ok (serviceTreeID c) (memory c) msg"
  obtains c1 c2 where "metrics_Add MsgErrs c = Done c1" "count_failed c1 msg = Done c2"
    "client_ok c2" "queue c2 = queue c @ (if has_room c then [msg] else [])"
    "counted [MsgErrs, if has_room c then MsgsRequeued else MsgsDropped] c c2"
    "serviceTreeID c2 = serviceTreeID c" "memory c2 = memory c" "notifier c2 = notifier c"
proof -
  obtain ms where 1: "metrics_Add MsgErrs c = Done (c\<lparr>metrics := Some ms\<rparr>)" "metrics_ok ms"
    "counted [MsgErrs] c (c\<lparr>metrics := Some ms\<rparr>)"
    by (rule metrics_Add_ok [OF ok, of MsgErrs]) simp_all
  let ?c = "c\<lparr>metrics := Some ms\<rparr>"
  have room: "has_room ?c = has_room c" "queue ?c = queue c" by (simp_all add: has_room_def queue_def)
  have "client_ok ?c" "message_ok (serviceTreeID ?c) (memory ?c) msg"
    using client_ok_metrics [OF ok 1(2)] msg by simp_all
  then obtain c2 where 2: "requeue ?c msg = Done c2" "client_ok c2"
    "queue c2 = queue ?c @ (if has_room ?c then [msg] else [])"
    "counted [if has_room ?c then MsgsRequeued else MsgsDropped] ?c c2"
    "serviceTreeID c2 = serviceTreeID ?c" "memory c2 = memory ?c" "notifier c2 = notifier ?c"
    by (rule requeue_effect)
  show ?thesis
  proof (rule that [OF 1(1)])
    show "count_failed ?c msg = Done c2" using user 2(1) by (simp add: count_failed_eq)
    show "counted [MsgErrs, if has_room c then MsgsRequeued else MsgsDropped] c c2"
      using counted_trans [OF 1(3) 2(4)] by (simp add: room)
  qed (use 2 in \<open>simp_all add: room\<close>)
qed

lemma write_failed_heartbeat:
  assumes ok: "client_ok c" and hb: "msg_Type msg = Heartbeat"
  obtains c1 c2 where "metrics_Add MsgErrs c = Done c1" "count_failed c1 msg = Done c2"
    "client_ok c2" "queue c2 = queue c" "counted [MsgErrs, HeartbeatDropped] c c2"
    "serviceTreeID c2 = serviceTreeID c" "memory c2 = memory c" "notifier c2 = notifier c"
proof -
  obtain ms where 1: "metrics_Add MsgErrs c = Done (c\<lparr>metrics := Some ms\<rparr>)" "metrics_ok ms"
    "counted [MsgErrs] c (c\<lparr>metrics := Some ms\<rparr>)"
    by (rule metrics_Add_ok [OF ok, of MsgErrs]) simp_all
  let ?c = "c\<lparr>metrics := Some ms\<rparr>"
  have ok1: "client_ok ?c" by (rule client_ok_metrics [OF ok 1(2)])
  obtain ns where 2: "metrics_Add HeartbeatDropped ?c = Done (?c\<lparr>metrics := Some ns\<rparr>)" "metrics_ok ns"
    "counted [HeartbeatDropped] ?c (?c\<lparr>metrics := Some ns\<rparr>)"
    by (rule metrics_Add_ok [OF ok1, of HeartbeatDropped]) simp_all
  show ?thesis
  proof (rule that [OF 1(1)])
    show "count_failed ?c msg = Done (?c\<lparr>metrics := Some ns\<rparr>)"
      using hb 2(1) not_user_types by (simp add: count_failed_eq)
    show "client_ok (?c\<lparr>metrics := Some ns\<rparr>)" by (rule client_ok_metrics [OF ok1 2(2)])
    show "counted [MsgErrs, HeartbeatDropped] c (?c\<lparr>metrics := Some ns\<rparr>)"
      using counted_trans [OF 1(3) 2(3)] by simp
  qed (simp_all add: queue_def)
qed

text \<open>A write that did not fail counts one of three counters.\<close>

definition success_counter :: "audit_conn \<Rightarrow> Msg \<Rightarrow> counter" where
  "success_counter a msg =
     (if conn_Type a \<noteq> TypeNoOP then MsgsSent
      else if user_type (msg_Type msg) then MsgsDropped else HeartbeatDropped)"

lemma write_succeeded:
  assumes ok: "client_ok c" and msg: "user_type (msg_Type msg) \<or> msg_Type msg = Heartbeat"
  obtains c1 where "(if conn_Type a = TypeNoOP then count_noop c msg else metrics_Add MsgsSent c) = Done c1"
    "client_ok c1" "queue c1 = queue c" "counted [success_counter a msg] c c1"
    "serviceTreeID c1 = serviceTreeID c" "memory c1 = memory c" "notifier c1 = notifier c"
proof -
  have "success_counter a msg \<noteq> DiagnosticDropped" by (simp add: success_counter_def)
  from metrics_Add_ok [OF ok this] obtain ms where
    ms: "metrics_Add (success_counter a msg) c = Done (c\<lparr>metrics := Some ms\<rparr>)" "metrics_ok ms"
      "counted [success_counter a msg] c (c\<lparr>metrics := Some ms\<rparr>)" by blast
  have "(if conn_Type a = TypeNoOP then count_noop c msg else metrics_Add MsgsSent c) =
      Done (c\<lparr>metrics := Some ms\<rparr>)"
    using ms(1) msg by (auto simp: success_counter_def count_failed_eq)
  then show ?thesis
    using ms by (intro that [of "c\<lparr>metrics := Some ms\<rparr>"]) (auto simp: client_ok_metrics [OF ok] queue_def)
qed

text \<open>The client when the connection's write has returned: others ran while it was writing.\<close>

definition after_io :: "wenv \<Rightarrow> audit_conn \<Rightarrow> Client \<Rightarrow> Msg \<Rightarrow> Client" where
  "after_io e a c msg =
     others (we_others e) (c\<lparr>memory := fst (snd (conn_Write (we_net e) (memory c) a msg))\<rparr>)"

definition write_effect :: "audit_conn \<Rightarrow> Client \<Rightarrow> Msg \<Rightarrow> goerr option \<Rightarrow> Client \<Rightarrow> bool" where
  "write_effect a c msg r c' \<longleftrightarrow>
     (if r = None then queue c' = queue c \<and> counted [success_counter a msg] c c'
      else if \<not> user_type (msg_Type msg)
      then queue c' = queue c \<and> counted [MsgErrs, HeartbeatDropped] c c'
      else if has_room c
      then queue c' = queue c @ [msg] \<and> counted [MsgErrs, MsgsRequeued] c c'
      else queue c' = queue c \<and> counted [MsgErrs, MsgsDropped] c c')"

lemma after_io_ok:
  assumes "client_ok c" and "writable c msg" and "list_all (other_ok (memory c)) (we_others e)"
  shows "others_effect (length (filter is_send (we_others e)))
      (c\<lparr>memory := memory (after_io e a c msg)\<rparr>) (after_io e a c msg)"
    and "writable (after_io e a c msg) msg"
    and "record_ok (memory c) x \<Longrightarrow> record_ok (memory (after_io e a c msg)) x"
    and "fst (snd (conn_Write (we_net e) (memory c) a msg)) = memory (after_io e a c msg)"
proof -
  obtain r m' os where w: "conn_Write (we_net e) (memory c) a msg = (r, m', os)"
    using prod_cases3 by blast
  note rok = writable_record_ok [OF assms(2)]
  have keep: "record_ok (memory c) y \<Longrightarrow> record_ok m' y" for y
    by (rule au.write_keeps [OF rok w])
  have "other_ok (memory c) y \<Longrightarrow> other_ok m' y" for y
    by (cases y) (auto simp: keep)
  with assms(3) have "list_all (other_ok (memory (c\<lparr>memory := m'\<rparr>))) (we_others e)"
    by (auto simp: list_all_iff)
  from others_ok [OF client_ok_memory [OF assms(1) rok w] this] w
  have e: "others_effect (length (filter is_send (we_others e))) (c\<lparr>memory := m'\<rparr>) (after_io e a c msg)"
    by (simp add: after_io_def)
  then have m: "memory (after_io e a c msg) = m'" by (simp add: others_effect_def)
  show "others_effect (length (filter is_send (we_others e)))
      (c\<lparr>memory := memory (after_io e a c msg)\<rparr>) (after_io e a c msg)"
    using e by (simp add: m)
  show "writable (after_io e a c msg) msg"
    using assms(2) e keep by (auto simp: writable_def message_ok_def others_effect_def)
  show "record_ok (memory c) x \<Longrightarrow> record_ok (memory (after_io e a c msg)) x"
    by (simp add: m keep)
  show "fst (snd (conn_Write (we_net e) (memory c) a msg)) = memory (after_io e a c msg)"
    by (simp add: w m)
qed

text \<open>The part after the connection's write always comes back, with all its effects.\<close>

lemma finish_done:
  assumes "client_ok c" and "writable c msg"
  obtains c' where "finish_write now a c msg r = Done c'" "client_ok c'" "write_effect a c msg r c'"
    "notices c' = notices c @ write_notices now c r"
    "serviceTreeID c' = serviceTreeID c" "memory c' = memory c"
proof (cases r)
  case None
  obtain c1 where 1: "(if conn_Type a = TypeNoOP then count_noop c msg else metrics_Add MsgsSent c) = Done c1"
    "client_ok c1" "queue c1 = queue c" "counted [success_counter a msg] c c1"
    "serviceTreeID c1 = serviceTreeID c" "memory c1 = memory c" "notifier c1 = notifier c"
    using write_succeeded [OF assms(1), of msg a] writable_cases [OF assms(2)] by blast
  then show thesis
    by (intro that [of c1])
       (simp_all add: None finish_write_def write_effect_def write_notices_def notices_def)
next
  case (Some err)
  obtain c1 c2 where 2: "metrics_Add MsgErrs c = Done c1" "count_failed c1 msg = Done c2"
    "client_ok c2" "write_effect a c msg (Some err) c2"
    "serviceTreeID c2 = serviceTreeID c" "memory c2 = memory c" "notifier c2 = notifier c"
  proof (cases "user_type (msg_Type msg)")
    case True
    with assms(2) have "message_ok (serviceTreeID c) (memory c) msg"
      using not_user_types by (auto simp: writable_def)
    from write_failed_user [OF assms(1) True this] obtain c1 c2 where f:
      "metrics_Add MsgErrs c = Done c1" "count_failed c1 msg = Done c2"
      "client_ok c2" "queue c2 = queue c @ (if has_room c then [msg] else [])"
      "counted [MsgErrs, if has_room c then MsgsRequeued else MsgsDropped] c c2"
      "serviceTreeID c2 = serviceTreeID c" "memory c2 = memory c" "notifier c2 = notifier c"
      by blast
    have "write_effect a c msg (Some err) c2"
      using f(4,5) True by (simp add: write_effect_def split: if_splits)
    then show thesis by (rule that [OF f(1-3) _ f(6-8)])
  next
    case False
    with writable_cases [OF assms(2)] have "msg_Type msg = Heartbeat" by simp
    from write_failed_heartbeat [OF assms(1) this] obtain c1 c2 where f:
      "metrics_Add MsgErrs c = Done c1" "count_failed c1 msg = Done c2"
      "client_ok c2" "queue c2 = queue c" "counted [MsgErrs, HeartbeatDropped] c c2"
      "serviceTreeID c2 = serviceTreeID c" "memory c2 = memory c" "notifier c2 = notifier c"
      by blast
    have "write_effect a c msg (Some err) c2"
      using f(4,5) False by (simp add: write_effect_def)
    then show thesis by (rule that [OF f(1-3) _ f(6-8)])
  qed
  let ?d = "sendNotify now c2 (Some (errorf ''audit.Client write failed: %w'' [err]))"
  have same: "notices c2 = notices c" "notify_room c2 = notify_room c"
    using 2(7) by (simp_all add: notices_def notify_room_def)
  show thesis
  proof (rule that [of ?d])
    show "write_effect a c msg r ?d"
      using 2(4) by (auto simp: Some write_effect_def split: if_splits)
  qed (use 2 same in \<open>simp_all add: Some finish_write_def sendNotify_ok notices_sendNotify write_notices_def\<close>)
qed

text \<open>A write that comes back, with all its effects.\<close>

lemma write_done:
  assumes "client_ok c" and "writable c msg" and "list_all (other_ok (memory c)) (we_others e)"
  obtains r c' os where "msgSender_write e a c msg = Done (r, c', os)"
    "conn_Write (we_net e) (memory c) a msg = (r, memory c', os)" "client_ok c'"
    "write_effect a (after_io e a c msg) msg r c'"
    "notices c' = notices (after_io e a c msg) @ write_notices (we_now e) (after_io e a c msg) r"
    "serviceTreeID c' = serviceTreeID c" "memory c' = memory (after_io e a c msg)"
proof -
  obtain r m' os where w: "conn_Write (we_net e) (memory c) a msg = (r, m', os)"
    using prod_cases3 by blast
  let ?c = "after_io e a c msg"
  have c: "?c = others (we_others e) (c\<lparr>memory := m'\<rparr>)" by (simp add: after_io_def w)
  have ok: "client_ok ?c" "serviceTreeID ?c = serviceTreeID c" "writable ?c msg"
    using after_io_ok(1,2) [OF assms, of a] by (simp_all add: others_effect_def)
  have m: "memory ?c = m'"
    using after_io_ok(4) [OF assms, of a] w by simp
  obtain c' where f: "finish_write (we_now e) a ?c msg r = Done c'" "client_ok c'"
    "write_effect a ?c msg r c'" "notices c' = notices ?c @ write_notices (we_now e) ?c r"
    "serviceTreeID c' = serviceTreeID ?c" "memory c' = memory ?c"
    by (rule finish_done [OF ok(1,3)])
  show thesis
    by (rule that [of r c' os])
       (use f ok m w in \<open>simp_all add: msgSender_write_def c [symmetric]\<close>)
qed

text \<open>
  C23. Every write comes back, on a well-formed client, with the connection's own error, and its
  message ends in exactly one place: delivered (counted as sent), dropped by a no-op connection
  (counted as dropped), put back at the end of the queue (counted as an error and a requeue) or,
  if it is a heartbeat or the queue is full by then, dropped (counted as an error and a drop). A
  failure adds one notice wrapping the error if the channel has room, and the client's
  invariant is kept.
\<close>

theorem write_accounts:
  assumes "client_ok c" and "writable c msg" and "list_all (other_ok (memory c)) (we_others e)"
  shows "\<exists>r c' os. msgSender_write e a c msg = Done (r, c', os) \<and>
    r = fst (conn_Write (we_net e) (memory c) a msg) \<and> client_ok c' \<and>
    write_effect a (after_io e a c msg) msg r c' \<and>
    notices c' = notices (after_io e a c msg) @ write_notices (we_now e) (after_io e a c msg) r"
  by (rule write_done [OF assms, of a]) (metis fst_conv)

definition sample_net :: netenv where
  "sample_net = \<lparr>ne_now = 0, ne_unix = 0, ne_enc = (\<lambda>w. Inr (w_tag w)), ne_write = (\<lambda>b. None)\<rparr>"

definition sample_env :: wenv where
  "sample_env = \<lparr>we_net = sample_net, we_others = [UserSend sample_msg, UserReceive], we_now = 5\<rparr>"

definition broken_env :: wenv where
  "broken_env = sample_env\<lparr>we_net := sample_net\<lparr>ne_write := (\<lambda>b. Some (errorf ''broken pipe'' []))\<rparr>\<rparr>"

lemma sample_env_simps [simp]:
  "we_others sample_env = [UserSend sample_msg, UserReceive]" "we_others broken_env = we_others sample_env"
  "we_net sample_env = sample_net"
  "we_net broken_env = sample_net\<lparr>ne_write := (\<lambda>b. Some (errorf ''broken pipe'' []))\<rparr>"
  by (simp_all add: sample_env_def broken_env_def)

lemma sample_writable: "writable sample_client sample_msg"
  using sample_ok by (simp add: writable_def message_ok_def user_types sample_record_def)

theorem write_accounts_witness:
  "\<exists>c' os. msgSender_write broken_env (TCPConn \<lparr>wr_conn = 3\<rparr>) sample_client sample_msg =
     Done (Some (errorf ''broken pipe'' []), c', os) \<and> client_ok c'"
  using write_accounts [OF sample_client_ok sample_writable, of broken_env "TCPConn \<lparr>wr_conn = 3\<rparr>"] sample_ok
  by (auto simp: conn_Write_def writer_Write_def sample_net_def MarshalMsgpack_def marshalPrep_def
      Let_def split: prod.splits)

text \<open>
  The counter of dropped diagnostics is never created, so a diagnostic message that is not
  delivered, by a failed write or by a no-op connection, panics in the sender.
\<close>

lemma write_diagnostic_panics:
  assumes "newMetrics mk = Inr ms" and "msg_Type msg = Diagnostic"
    and "metrics c = Some ms" and "we_others e = []"
    and "conn_Type a = TypeNoOP \<or> fst (conn_Write (we_net e) (memory c) a msg) \<noteq> None"
  shows "msgSender_write e a c msg = Panics"
proof -
  have ms: "ms = sample_metrics"
    using assms(1) by (auto simp: newMetrics_def sample_metrics_def Let_def split: option.splits)
  obtain r m' os where w: "conn_Write (we_net e) (memory c) a msg = (r, m', os)"
    using prod_cases3 by blast
  have types: "Diagnostic \<noteq> DataPlane" "Diagnostic \<noteq> ControlPlane" "Diagnostic \<noteq> Heartbeat"
    by (simp_all add: const_defs)
  show ?thesis
  proof (cases r)
    case None
    with assms(5) w have "conn_Type a = TypeNoOP" by simp
    with None w show ?thesis
      using assms(2-4) types
      by (simp add: msgSender_write_def finish_write_def others_def count_noop_def metrics_Add_def ms sample_metrics_def)
  next
    case (Some err)
    with w show ?thesis
      using assms(2-4) types
      by (simp add: msgSender_write_def finish_write_def others_def count_failed_def metrics_Add_def ms sample_metrics_def)
  qed
qed

end
