(* ===== verification/SenderRuns.thy ===== *)
theory SenderRuns
  imports MsgSenderFacts
begin

text \<open>
  Services and whole runs of the message sender (\<open>serviceMsg\<close>, \<open>sender\<close>, \<open>start\<close>): every message
  taken off the queue is accounted for, no service panics, the heartbeat protocol on the
  wire, and how a run ends.
\<close>

section \<open>One service\<close>

text \<open>A message is accounted for while it is queued, and once it is sent or dropped.\<close>

definition accounted :: "Client \<Rightarrow> nat" where
  "accounted c = length (queue c) + count c MsgsSent + count c MsgsDropped + count c HeartbeatDropped"

definition sender_ok :: "msgSender \<Rightarrow> bool" where
  "sender_ok m \<longleftrightarrow> msg_Type (ms_heartbeat m) = Heartbeat \<and> msg_Record (ms_heartbeat m) = Record_zero"

definition sends :: "wenv \<Rightarrow> nat" where
  "sends e = length (filter is_send (we_others e))"

lemma accounted_write:
  "write_effect a c msg r c' \<Longrightarrow> accounted c' = accounted c + 1"
  by (auto simp: write_effect_def counted_def accounted_def success_counter_def split: if_splits)

lemma accounted_others: "others_effect k c c' \<Longrightarrow> \<exists>n. accounted c' = accounted c + n \<and> n \<le> k"
  by (auto simp: others_effect_def accounted_def count_def)

lemma accounted_memory [simp]: "accounted (c\<lparr>memory := m\<rparr>) = accounted c"
  by (simp add: accounted_def queue_def count_def)

lemma write_step:
  assumes "client_ok c" and "writable c msg" and "list_all (other_ok (memory c)) (we_others e)"
  obtains r c' os n where "msgSender_write e a c msg = Done (r, c', os)"
    "conn_Write (we_net e) (memory c) a msg = (r, memory c', os)" "client_ok c'"
    "accounted c' = accounted c + 1 + n" "n \<le> sends e"
    "\<And>x. record_ok (memory c) x \<Longrightarrow> record_ok (memory c') x" "serviceTreeID c' = serviceTreeID c"
proof -
  from write_done [OF assms, of a] obtain r c' os where w: "msgSender_write e a c msg = Done (r, c', os)"
    "conn_Write (we_net e) (memory c) a msg = (r, memory c', os)" "client_ok c'"
    "write_effect a (after_io e a c msg) msg r c'" "serviceTreeID c' = serviceTreeID c"
    "memory c' = memory (after_io e a c msg)" by blast
  from accounted_others [OF after_io_ok(1) [OF assms, of a]] obtain n where
    n: "accounted (after_io e a c msg) = accounted c + n" "n \<le> sends e"
    by (auto simp: sends_def)
  show ?thesis
  proof (rule that [OF w(1-3)])
    show "accounted c' = accounted c + 1 + n" using accounted_write [OF w(4)] n by simp
  qed (use n w(5,6) after_io_ok(3) [OF assms, where a = a] in auto)
qed

lemma writable_heartbeat: "sender_ok m \<Longrightarrow> writable c (ms_heartbeat m)"
  by (simp add: sender_ok_def writable_def)

lemma other_ok_mono:
  "(\<And>x. record_ok m x \<Longrightarrow> record_ok m' x) \<Longrightarrow> list_all (other_ok m) xs \<Longrightarrow> list_all (other_ok m') xs"
  unfolding list_all_iff by (metis other_ok.elims(2) other_ok.simps)

text \<open>Taking the next message off the queue.\<close>

lemma take_message:
  assumes "client_ok c" and "sendCh c = Some ch" and "TryGet ch = (Some msg, ch')"
  shows "client_ok (c\<lparr>sendCh := Some ch'\<rparr>)" "writable (c\<lparr>sendCh := Some ch'\<rparr>) msg"
    "accounted c = accounted (c\<lparr>sendCh := Some ch'\<rparr>) + 1"
    "queue c = msg # queue (c\<lparr>sendCh := Some ch'\<rparr>)"
proof -
  from ch.get_contents [OF assms(3)] have q: "buf ch = msg # buf ch'" by simp
  from assms(1,2) q ch.get_capacity [OF assms(3)] show "client_ok (c\<lparr>sendCh := Some ch'\<rparr>)"
    by (auto simp: client_ok_def queue_def ch.bounded_def)
  from assms(1,2) q show "writable (c\<lparr>sendCh := Some ch'\<rparr>) msg"
    by (auto simp: client_ok_def queue_def writable_def)
  show "accounted c = accounted (c\<lparr>sendCh := Some ch'\<rparr>) + 1"
    "queue c = msg # queue (c\<lparr>sendCh := Some ch'\<rparr>)"
    using assms(2) q by (simp_all add: accounted_def queue_def count_def)
qed

text \<open>Whether a service may write a heartbeat.\<close>

definition may_beat :: "event \<Rightarrow> msgSender \<Rightarrow> bool" where
  "may_beat ev m \<longleftrightarrow> ev = Tick \<or> ev = MsgReady \<and> ms_ticker m = NilTicker"

text \<open>What a service that comes back leaves behind.\<close>

definition service_post ::
  "event \<Rightarrow> wenv \<Rightarrow> wenv \<Rightarrow> msgSender \<Rightarrow> Client \<Rightarrow> goerr option \<Rightarrow> msgSender \<Rightarrow> Client \<Rightarrow> bool" where
  "service_post ev e1 e2 m c r m' c' \<longleftrightarrow> client_ok c' \<and> sender_ok m' \<and>
     ms_conn m' = ms_conn m \<and> ms_heartbeat m' = ms_heartbeat m \<and>
     (\<forall>x. record_ok (memory c) x \<longrightarrow> record_ok (memory c') x) \<and>
     accounted c \<le> accounted c' \<and>
     accounted c' \<le> accounted c + (if may_beat ev m then 1 else 0) + sends e1 + sends e2"

lemma sender_ok_ticker [simp]:
  "sender_ok (m\<lparr>ms_ticker := x\<rparr>) = sender_ok m" "sender_ok (Stop_ticker m) = sender_ok m"
  "ms_conn (Stop_ticker m) = ms_conn m" "ms_heartbeat (Stop_ticker m) = ms_heartbeat m"
  by (simp_all add: sender_ok_def Stop_ticker_def)

lemma service_post_stop [simp]:
  "service_post ev e1 e2 m c r (Stop_ticker m') c' = service_post ev e1 e2 m c r m' c'"
  by (simp add: service_post_def)

lemma stop_on_error_simps [simp]:
  "stop_on_error Blocked = Blocked" "stop_on_error Panics = Panics"
  "stop_on_error (Done (None, m, c, os)) = Done (None, m, c, os)"
  "stop_on_error (Done (Some err, m, c, os)) = Done (Some err, Stop_ticker m, c, os)"
  by (simp_all add: stop_on_error_def)

lemma service_message:
  assumes "client_ok c" and "sender_ok m" and "queue c \<noteq> []"
    and "list_all (other_ok (memory c)) (we_others e1)"
    and "list_all (other_ok (memory c)) (we_others e2)"
  shows "\<exists>r m' c' os. serviceMsg MsgReady e1 e2 m c = Done (r, m', c', os) \<and>
    service_post MsgReady e1 e2 m c r m' c'"
proof -
  from assms(1) obtain ch where ch: "sendCh c = Some ch" by (auto simp: client_ok_def)
  with assms(3) obtain msg ch' where "TryGet ch = (Some msg, ch')"
    by (cases "buf ch") (auto simp: queue_def TryGet_def)
  note c = ch this
  let ?c = "c\<lparr>sendCh := Some ch'\<rparr>"
  note take = take_message [OF assms(1) c]
  have o1: "list_all (other_ok (memory ?c)) (we_others e1)" using assms(4) by simp
  from write_step [OF take(1,2) o1, of "ms_conn m"] obtain r1 c1 os1 n1 where
    w1: "msgSender_write e1 (ms_conn m) ?c msg = Done (r1, c1, os1)" "client_ok c1"
      "accounted c1 = accounted ?c + 1 + n1" "n1 \<le> sends e1"
    and mono1: "\<And>x. record_ok (memory ?c) x \<Longrightarrow> record_ok (memory c1) x" by metis
  show ?thesis
  proof (cases "r1 = None \<and> ms_ticker m = NilTicker")
    case False
    with w1 c mono1 take(3) assms(2) show ?thesis
      by (cases r1) (auto simp: serviceMsg_def service_post_def)
  next
    case True
    have o2: "list_all (other_ok (memory c1)) (we_others e2)"
      by (rule other_ok_mono [OF _ assms(5)]) (use mono1 in simp)
    from write_step [OF w1(2) writable_heartbeat [OF assms(2)] o2, of "ms_conn m"] obtain r2 c2 os2 n2 where
      w2: "msgSender_write e2 (ms_conn m) c1 (ms_heartbeat m) = Done (r2, c2, os2)" "client_ok c2"
        "accounted c2 = accounted c1 + 1 + n2" "n2 \<le> sends e2"
      and mono2: "\<And>x. record_ok (memory c1) x \<Longrightarrow> record_ok (memory c2) x" by metis
    have post: "service_post MsgReady e1 e2 m c r2 (m\<lparr>ms_ticker := x\<rparr>) c2" for x
      unfolding service_post_def using w1 w2 mono1 mono2 take(3) assms(2) True
      by (auto simp: may_beat_def)
    from post [of "ms_ticker m"] have "service_post MsgReady e1 e2 m c r2 m c2" by simp
    with post show ?thesis
      using w1(1) w2(1) c True by (cases r2) (auto simp: serviceMsg_def)
  qed
qed

lemma service_tick:
  assumes "client_ok c" and "sender_ok m" and "ms_ticker m = Ticking"
    and "list_all (other_ok (memory c)) (we_others e1)"
  shows "\<exists>r m' c' os. serviceMsg Tick e1 e2 m c = Done (r, m', c', os) \<and>
    service_post Tick e1 e2 m c r m' c'"
proof -
  from write_step [OF assms(1) writable_heartbeat [OF assms(2)] assms(4), of "ms_conn m"]
  obtain r c' os n where
    w: "msgSender_write e1 (ms_conn m) c (ms_heartbeat m) = Done (r, c', os)" "client_ok c'"
      "accounted c' = accounted c + 1 + n" "n \<le> sends e1"
    and mono: "\<And>x. record_ok (memory c) x \<Longrightarrow> record_ok (memory c') x" by metis
  then have "service_post Tick e1 e2 m c r m c'"
    unfolding service_post_def using assms(2) by (auto simp: may_beat_def)
  with w(1) assms(3) show ?thesis by (cases r) (auto simp: serviceMsg_def)
qed

text \<open>When an event is not ready, the service blocks.\<close>

definition not_ready :: "event \<Rightarrow> msgSender \<Rightarrow> Client \<Rightarrow> bool" where
  "not_ready ev m c \<longleftrightarrow> ev = MsgReady \<and> queue c = [] \<or> ev = Tick \<and> ms_ticker m \<noteq> Ticking"

lemma service_blocked: "not_ready ev m c \<Longrightarrow> serviceMsg ev e1 e2 m c = Blocked"
  by (auto simp: not_ready_def serviceMsg_def queue_def TryGet_def split: option.split)

lemma service_cases:
  assumes "client_ok c" and "sender_ok m" and "\<not> not_ready ev m c"
    and "list_all (other_ok (memory c)) (we_others e1)"
    and "list_all (other_ok (memory c)) (we_others e2)"
  shows "\<exists>r m' c' os. serviceMsg ev e1 e2 m c = Done (r, m', c', os) \<and>
    service_post ev e1 e2 m c r m' c'"
proof (cases ev)
  case CtxDone
  then show ?thesis using assms(1,2) by (simp add: serviceMsg_def service_post_def)
next
  case MsgReady
  with assms service_message show ?thesis by (simp add: not_ready_def)
next
  case Tick
  with assms service_tick show ?thesis by (simp add: not_ready_def)
qed

text \<open>
  One write of a service, with what it leaves: the connection's answer and its calls on the network, and the one place
  where the message went, by that answer.
\<close>

definition one_write ::
  "wenv \<Rightarrow> msgSender \<Rightarrow> Client \<Rightarrow> Msg \<Rightarrow> goerr option \<Rightarrow> Client \<Rightarrow> netop list \<Rightarrow> bool" where
  "one_write e m c msg r c' os \<longleftrightarrow>
     conn_Write (we_net e) (memory c) (ms_conn m) msg = (r, memory c', os) \<and> client_ok c' \<and>
     write_effect (ms_conn m) (after_io e (ms_conn m) c msg) msg r c'"

lemma one_write_done:
  assumes "client_ok c" and "writable c msg" and "list_all (other_ok (memory c)) (we_others e)"
  obtains r c' os where "msgSender_write e (ms_conn m) c msg = Done (r, c', os)" "one_write e m c msg r c' os"
    "client_ok c'" "\<forall>x. record_ok (memory c) x \<longrightarrow> record_ok (memory c') x"
proof -
  from write_done [OF assms, of "ms_conn m"] obtain r c' os where
    w: "msgSender_write e (ms_conn m) c msg = Done (r, c', os)"
      "conn_Write (we_net e) (memory c) (ms_conn m) msg = (r, memory c', os)" "client_ok c'"
      "write_effect (ms_conn m) (after_io e (ms_conn m) c msg) msg r c'" by blast
  with that au.write_keeps [OF writable_record_ok [OF assms(2)] w(2)] show ?thesis
    by (auto simp: one_write_def)
qed

text \<open>The heartbeat that goes with the first message, and the service of a taken message.\<close>

lemma service_first:
  assumes "TryGet ch = (Some msg, ch')" and "sendCh c = Some ch"
    and "msgSender_write e1 (ms_conn m) (c\<lparr>sendCh := Some ch'\<rparr>) msg = Done (r1, c1, os1)"
    and "\<not> (r1 = None \<and> ms_ticker m = NilTicker)"
  shows "serviceMsg MsgReady e1 e2 m c = Done (r1, if r1 = None then m else Stop_ticker m, c1, os1)"
  using assms by (cases r1) (auto simp: serviceMsg_def)

lemma service_with_beat:
  assumes "TryGet ch = (Some msg, ch')" and "sendCh c = Some ch"
    and "msgSender_write e1 (ms_conn m) (c\<lparr>sendCh := Some ch'\<rparr>) msg = Done (None, c1, os1)"
    and "ms_ticker m = NilTicker"
    and "msgSender_write e2 (ms_conn m) c1 (ms_heartbeat m) = Done (r2, c2, os2)"
  shows "serviceMsg MsgReady e1 e2 m c =
    Done (r2, if r2 = None then m\<lparr>ms_ticker := Ticking\<rparr> else m, c2, os1 @ os2)"
  using assms by (cases r2) (auto simp: serviceMsg_def Stop_ticker_def)

text \<open>
  C13. What a service of one event does, on every event and every answer of the connection. A cancelled context
  ends it. A message is taken only if there is one, it is the oldest of the queue, and that very message is
  written, once; if it was delivered and no heartbeat was ever sent, the heartbeat follows and the ticker starts. A
  tick writes a heartbeat. The result is that of the last write, and each message written has
  gone to the one place its answer tells: sent, dropped or back in the queue, and is counted so. It never panics, blocks
  exactly if the chosen event is not ready, and stops a running ticker if it fails.
\<close>

theorem serviceMsg_exact:
  assumes "client_ok c" and "sender_ok m"
    and "list_all (other_ok (memory c)) (we_others e1)"
    and "list_all (other_ok (memory c)) (we_others e2)"
  shows "case ev of
      CtxDone \<Rightarrow> serviceMsg ev e1 e2 m c = Done (Some Canceled, Stop_ticker m, c, [])
    | Tick \<Rightarrow>
        if ms_ticker m \<noteq> Ticking then serviceMsg ev e1 e2 m c = Blocked
        else \<exists>r c' os. one_write e1 m c (ms_heartbeat m) r c' os \<and>
          serviceMsg ev e1 e2 m c = Done (r, if r = None then m else Stop_ticker m, c', os)
    | MsgReady \<Rightarrow>
        (case queue c of
           [] \<Rightarrow> serviceMsg ev e1 e2 m c = Blocked
         | msg # q \<Rightarrow> \<exists>ch r1 c1 os1. queue (c\<lparr>sendCh := Some ch\<rparr>) = q \<and>
             one_write e1 m (c\<lparr>sendCh := Some ch\<rparr>) msg r1 c1 os1 \<and>
             (if r1 = None \<and> ms_ticker m = NilTicker
              then \<exists>r2 c2 os2. one_write e2 m c1 (ms_heartbeat m) r2 c2 os2 \<and>
                serviceMsg ev e1 e2 m c =
                  Done (r2, if r2 = None then m\<lparr>ms_ticker := Ticking\<rparr> else m, c2, os1 @ os2)
              else serviceMsg ev e1 e2 m c = Done (r1, if r1 = None then m else Stop_ticker m, c1, os1)))"
proof (cases ev)
  case CtxDone
  then show ?thesis by (simp add: serviceMsg_def)
next
  case Tick
  show ?thesis
  proof (cases "ms_ticker m = Ticking")
    case True
    obtain r c' os where w: "msgSender_write e1 (ms_conn m) c (ms_heartbeat m) = Done (r, c', os)"
        "one_write e1 m c (ms_heartbeat m) r c' os"
      by (rule one_write_done [OF assms(1) writable_heartbeat [OF assms(2)] assms(3), of m])
    then have s: "serviceMsg Tick e1 e2 m c = Done (r, if r = None then m else Stop_ticker m, c', os)"
      using True by (cases r) (simp_all add: serviceMsg_def)
    from True have P: "\<not> ms_ticker m \<noteq> Ticking" by simp
    show ?thesis
      unfolding Tick event.case if_not_P [OF P]
      by (intro exI [of _ r] exI [of _ c'] exI [of _ os] conjI w(2) s)
  qed (use Tick in \<open>simp add: service_blocked not_ready_def\<close>)
next
  case MsgReady
  show ?thesis
  proof (cases "queue c")
    case Nil
    with MsgReady show ?thesis by (simp add: service_blocked not_ready_def)
  next
    case (Cons msg q)
    from assms(1) obtain ch where ch: "sendCh c = Some ch" by (auto simp: client_ok_def)
    with Cons have get: "TryGet ch = (Some msg, ch\<lparr>buf := q\<rparr>)" by (auto simp: queue_def TryGet_def)
    let ?c = "c\<lparr>sendCh := Some (ch\<lparr>buf := q\<rparr>)\<rparr>"
    note take = take_message [OF assms(1) ch get]
    have q: "queue ?c = q" by (simp add: queue_def)
    have o1: "list_all (other_ok (memory ?c)) (we_others e1)" using assms(3) by simp
    obtain r1 c1 os1 where
      w1: "msgSender_write e1 (ms_conn m) ?c msg = Done (r1, c1, os1)" "one_write e1 m ?c msg r1 c1 os1" "client_ok c1"
      and mono: "\<forall>x. record_ok (memory ?c) x \<longrightarrow> record_ok (memory c1) x"
      by (rule one_write_done [OF take(1,2) o1, of m])
    show ?thesis
    proof (cases "r1 = None \<and> ms_ticker m = NilTicker")
      case False
      note first = service_first [OF get ch w1(1) False, of e2]
      have "if r1 = None \<and> ms_ticker m = NilTicker
          then \<exists>r2 c2 os2. one_write e2 m c1 (ms_heartbeat m) r2 c2 os2 \<and> serviceMsg MsgReady e1 e2 m c =
            Done (r2, if r2 = None then m\<lparr>ms_ticker := Ticking\<rparr> else m, c2, os1 @ os2)
          else serviceMsg MsgReady e1 e2 m c = Done (r1, if r1 = None then m else Stop_ticker m, c1, os1)"
        unfolding if_not_P [OF False] by (rule first)
      with q w1(2) show ?thesis
        unfolding MsgReady Cons event.case list.case
        by (intro exI [of _ "ch\<lparr>buf := q\<rparr>"] exI [of _ r1] exI [of _ c1] exI [of _ os1] conjI)
    next
      case True
      have o2: "list_all (other_ok (memory c1)) (we_others e2)"
        by (rule other_ok_mono [OF _ assms(4)]) (use mono in simp)
      obtain r2 c2 os2 where w2: "msgSender_write e2 (ms_conn m) c1 (ms_heartbeat m) = Done (r2, c2, os2)"
          "one_write e2 m c1 (ms_heartbeat m) r2 c2 os2"
        by (rule one_write_done [OF w1(3) writable_heartbeat [OF assms(2)] o2, of m])
      from True w1(1) have first: "msgSender_write e1 (ms_conn m) ?c msg = Done (None, c1, os1)" by simp
      from True have "ms_ticker m = NilTicker" by simp
      note beat = service_with_beat [OF get ch first this w2(1)]
      from True have P: "r1 = None \<and> ms_ticker m = NilTicker" .
      have "one_write e2 m c1 (ms_heartbeat m) r2 c2 os2 \<and> serviceMsg MsgReady e1 e2 m c =
          Done (r2, if r2 = None then m\<lparr>ms_ticker := Ticking\<rparr> else m, c2, os1 @ os2)"
        using w2(2) beat by blast
      then have "if r1 = None \<and> ms_ticker m = NilTicker
          then \<exists>r2 c2 os2. one_write e2 m c1 (ms_heartbeat m) r2 c2 os2 \<and> serviceMsg MsgReady e1 e2 m c =
            Done (r2, if r2 = None then m\<lparr>ms_ticker := Ticking\<rparr> else m, c2, os1 @ os2)
          else serviceMsg MsgReady e1 e2 m c = Done (r1, if r1 = None then m else Stop_ticker m, c1, os1)"
        unfolding if_P [OF P] by blast
      with q w1(2) show ?thesis
        unfolding MsgReady Cons event.case list.case
        by (intro exI [of _ "ch\<lparr>buf := q\<rparr>"] exI [of _ r1] exI [of _ c1] exI [of _ os1] conjI)
    qed
  qed
qed

definition sample_heartbeat :: Msg where
  "sample_heartbeat = heartbeat ''go1.24'' sample_client TypeTCP"

definition sample_sender :: msgSender where
  "sample_sender = \<lparr>ms_conn = TCPConn \<lparr>wr_conn = 3\<rparr>, ms_heartbeat = sample_heartbeat,
     ms_ticker = NilTicker\<rparr>"

definition sample_loaded :: Client where
  "sample_loaded = sample_client\<lparr>sendCh := Some \<lparr>buf = [sample_msg], cap = 2\<rparr>\<rparr>"

lemma sample_sender_ok: "sender_ok sample_sender"
  by (simp add: sender_ok_def sample_sender_def sample_heartbeat_def heartbeat_def Msg_zero_def)

lemma sample_loaded_ok: "client_ok sample_loaded"
  using sample_client_ok sample_ok
  by (simp add: client_ok_def sample_loaded_def sample_client_def queue_def message_ok_def
      user_types ch.bounded_def sample_record_def)

lemma sample_loaded_simps [simp]:
  "memory sample_loaded = sample_mem" "queue sample_loaded = [sample_msg]"
  "ms_ticker sample_sender = NilTicker"
  by (simp_all add: sample_loaded_def queue_def sample_sender_def)

theorem serviceMsg_exact_witness:
  "\<exists>ch r c os. one_write sample_env sample_sender (sample_loaded\<lparr>sendCh := Some ch\<rparr>) sample_msg r c os \<and>
     queue (sample_loaded\<lparr>sendCh := Some ch\<rparr>) = []"
  using serviceMsg_exact [OF sample_loaded_ok sample_sender_ok, of sample_env broken_env MsgReady] sample_ok
  by auto

section \<open>A whole run\<close>

definition round_ok :: "mem \<Rightarrow> round \<Rightarrow> bool" where
  "round_ok m rd \<longleftrightarrow> list_all (other_ok m) (rd_others rd) \<and>
     list_all (other_ok m) (we_others (rd_env1 rd)) \<and> list_all (other_ok m) (we_others (rd_env2 rd))"

lemma round_ok_mono:
  "(\<And>x. record_ok m x \<Longrightarrow> record_ok m' x) \<Longrightarrow> list_all (round_ok m) rs \<Longrightarrow> list_all (round_ok m') rs"
  using other_ok_mono [of m m'] by (auto simp: list_all_iff round_ok_def)

lemma Stop_ticker_stops [simp]: "ms_ticker (Stop_ticker m) \<noteq> Ticking"
  by (simp add: Stop_ticker_def)

text \<open>What holds of a run, whichever way it stands.\<close>

definition run_post :: "round list \<Rightarrow> mem \<Rightarrow> sender_status \<Rightarrow> bool" where
  "run_post rs m0 st \<longleftrightarrow> (case st of
      Crashed \<Rightarrow> False
    | Running m c os \<Rightarrow> client_ok c \<and> sender_ok m \<and> (\<forall>x. record_ok m0 x \<longrightarrow> record_ok (memory c) x)
    | Returned r m c os \<Rightarrow> client_ok c \<and> sender_ok m \<and> (\<forall>x. record_ok m0 x \<longrightarrow> record_ok (memory c) x) \<and>
        ms_ticker m \<noteq> Ticking \<and> (r = None \<longrightarrow> (\<exists>rd \<in> set rs. rd_cancelled rd)))"

lemma run_post_Cons:
  assumes "run_post rs m1 st" and "\<And>x. record_ok m0 x \<Longrightarrow> record_ok m1 x"
  shows "run_post (rd # rs) m0 st"
  using assms by (auto simp: run_post_def split: sender_status.splits)

lemma sender_run:
  assumes "client_ok c" and "sender_ok m" and "list_all (round_ok (memory c)) rs"
  shows "run_post rs (memory c) (sender rs m c os)"
  using assms
proof (induction rs arbitrary: m c os)
  case (Cons rd rs)
  let ?c = "others (rd_others rd) c"
  from Cons.prems(3) have rd: "list_all (other_ok (memory c)) (rd_others rd)"
    "list_all (other_ok (memory c)) (we_others (rd_env1 rd))"
    "list_all (other_ok (memory c)) (we_others (rd_env2 rd))"
    and rs: "list_all (round_ok (memory c)) rs"
    by (simp_all add: round_ok_def [of _ rd])
  from others_ok [OF Cons.prems(1) rd(1)] have c: "client_ok ?c" "memory ?c = memory c"
    by (auto simp: others_effect_def)
  show ?case
  proof (cases "rd_cancelled rd \<or> not_ready (rd_event rd) m ?c")
    case True
    with c Cons.prems(2) show ?thesis by (auto simp: service_blocked run_post_def)
  next
    case False
    then have "\<not> not_ready (rd_event rd) m ?c" by simp
    from service_cases [OF c(1) Cons.prems(2) this] rd(2,3) c(2) obtain r m' c' os' where
      s: "serviceMsg (rd_event rd) (rd_env1 rd) (rd_env2 rd) m ?c = Done (r, m', c', os')"
        "client_ok c'" "sender_ok m'" "\<And>x. record_ok (memory ?c) x \<Longrightarrow> record_ok (memory c') x"
      unfolding service_post_def by metis
    have mono: "\<And>x. record_ok (memory c) x \<Longrightarrow> record_ok (memory c') x" using s(4) c(2) by simp
    have ok: "list_all (round_ok (memory c')) rs" by (rule round_ok_mono [OF mono rs])
    show ?thesis
    proof (cases r)
      case None
      have "run_post rs (memory c') (sender rs m' c' (os @ os'))" by (rule Cons.IH [OF s(2,3) ok])
      from run_post_Cons [OF this mono] False None s(1) show ?thesis by simp
    next
      case (Some err)
      with False s mono show ?thesis by (simp add: run_post_def)
    qed
  qed
qed (simp add: run_post_def)

text \<open>
  C12. The sender loop never panics, whatever the network, the users and the background closes do,
  and keeps the client's invariant all along. When it returns, its ticker is not running, and it
  returns nil only if the context was found cancelled at the start of a round.
\<close>

theorem sender_safe:
  assumes "client_ok c" and "sender_ok m" and "list_all (round_ok (memory c)) rs"
  shows "case sender rs m c os of
      Crashed \<Rightarrow> False
    | Running m' c' os' \<Rightarrow> client_ok c'
    | Returned r m' c' os' \<Rightarrow> client_ok c' \<and> ms_ticker m' \<noteq> Ticking \<and>
        (r = None \<longrightarrow> (\<exists>rd \<in> set rs. rd_cancelled rd))"
  using sender_run [OF assms, of os] by (auto simp: run_post_def split: sender_status.splits)

definition sample_round :: "event \<Rightarrow> wenv \<Rightarrow> round" where
  "sample_round ev e = \<lparr>rd_cancelled = False, rd_event = ev, rd_env1 = sample_env, rd_env2 = e,
     rd_others = [UserReceive]\<rparr>"

theorem sender_safe_witness:
  "sender [sample_round MsgReady sample_env, sample_round MsgReady broken_env, sample_round Tick broken_env]
     sample_sender sample_loaded [] \<noteq> Crashed"
  using sender_safe [OF sample_loaded_ok sample_sender_ok,
      of "[sample_round MsgReady sample_env, sample_round MsgReady broken_env, sample_round Tick broken_env]" "[]"]
    sample_ok
  by (auto simp: round_ok_def sample_round_def)

text \<open>
  A cancellation found by the \<open>select\<close> of a service is returned as the error
  \<open>context.Canceled\<close>, not as nil: the channel of \<open>start\<close> then carries an error although the
  caller stopped the sender.
\<close>

lemma cancelled_in_select:
  assumes "\<not> rd_cancelled rd" and "rd_event rd = CtxDone"
  shows "start None (rd # rs) m c = Some (Some Canceled)"
  using assms by (simp add: start_def serviceMsg_def)

section \<open>The heartbeat protocol\<close>

text \<open>The messages given to the network, in order.\<close>

fun writes :: "netop list \<Rightarrow> string list" where
  "writes [] = []"
| "writes (NetWrite n b # os) = b # writes os"
| "writes (SetWriteDeadline n t # os) = writes os"
| "writes (NetClose n # os) = writes os"

lemma writes_append [simp]: "writes (xs @ ys) = writes xs @ writes ys"
  by (induction xs rule: writes.induct) simp_all

text \<open>
  An encoding from which the type tag can be read back, as MessagePack's array of three,
  tag first: \<open>tag\<close> is that reader.
\<close>

definition tagged :: "(string \<Rightarrow> string) \<Rightarrow> wenv \<Rightarrow> bool" where
  "tagged tag e \<longleftrightarrow> (\<forall>w b. ne_enc (we_net e) w = Inr b \<longrightarrow> tag b = w_tag w)"

definition networked :: "audit_conn \<Rightarrow> bool" where
  "networked a = (case a of DomainSocketConn w \<Rightarrow> True | TCPConn w \<Rightarrow> True | _ \<Rightarrow> False)"

definition tag_of :: "Msg \<Rightarrow> string" where
  "tag_of msg = the (Type_String (msg_Type msg))"

lemma marshal_tag:
  "marshalPrep t m msg = (Inr p, m') \<Longrightarrow> env_tag p = tag_of msg"
  by (auto simp: marshalPrep_def tag_of_def Let_def split: if_splits prod.splits)

lemma MarshalMsgpack_tag:
  assumes "\<And>w b. enc w = Inr b \<Longrightarrow> tag b = w_tag w"
    and "MarshalMsgpack enc t m msg = (Inr b, m')"
  shows "tag b = tag_of msg"
  using assms(2) marshal_tag
  by (fastforce simp: MarshalMsgpack_def resolve_def dest!: assms(1) split: prod.splits sum.splits)

lemma write_tags:
  assumes "conn_Write (we_net e) m a msg = (r, m', os)" and "tagged tag e"
  shows "map tag (writes os) = [] \<or> map tag (writes os) = [tag_of msg]"
    and "networked a \<Longrightarrow> r = None \<Longrightarrow> map tag (writes os) = [tag_of msg]"
    and "\<not> networked a \<Longrightarrow> writes os = []"
  using assms(1) MarshalMsgpack_tag [of "ne_enc (we_net e)" tag] assms(2)
  by (auto simp: conn_Write_def writer_Write_def networked_def tagged_def Let_def
      split: audit_conn.splits prod.splits sum.splits)

text \<open>
  The protocol: the first message is a user's, the second a heartbeat, and every later one
  is either.
\<close>

fun hb_protocol :: "('a \<Rightarrow> bool) \<Rightarrow> 'a \<Rightarrow> 'a list \<Rightarrow> bool" where
  "hb_protocol user hb [] = True"
| "hb_protocol user hb [u] = user u"
| "hb_protocol user hb (u # h # ts) = (user u \<and> h = hb \<and> list_all (\<lambda>t. user t \<or> t = hb) ts)"

definition user_tag :: "string \<Rightarrow> bool" where
  "user_tag t \<longleftrightarrow> t = ''AsmAuditDP'' \<or> t = ''AsmAuditCP''"

lemma tag_user: "user_type (msg_Type msg) \<Longrightarrow> user_tag (tag_of msg)"
  by (auto simp: tag_of_def user_type_def user_tag_def Type_String_user const_defs)

lemma Type_String_Heartbeat: "Type_String 3 = Some ''AsmAuditHB''"
  by code_simp

lemma tag_heartbeat: "sender_ok m \<Longrightarrow> tag_of (ms_heartbeat m) = ''AsmAuditHB''"
  by (simp add: sender_ok_def tag_of_def Heartbeat_def Type_String_Heartbeat)

text \<open>The state of the protocol between two rounds, by the ticker.\<close>

definition trace_state :: "msgSender \<Rightarrow> string list \<Rightarrow> bool" where
  "trace_state m ts \<longleftrightarrow>
     (if ms_ticker m = NilTicker \<or> \<not> networked (ms_conn m) then ts = []
      else 2 \<le> length ts \<and> hb_protocol user_tag ''AsmAuditHB'' ts)"

lemma protocol_extend:
  assumes "2 \<le> length ts" and "hb_protocol user hb ts" and "list_all (\<lambda>t. user t \<or> t = hb) us"
  shows "hb_protocol user hb (ts @ us)"
proof -
  from assms(1) obtain x y zs where "ts = x # y # zs" by (cases ts; cases "tl ts") auto
  with assms(2,3) show ?thesis by simp
qed

lemma trace_state_protocol: "trace_state m ts \<Longrightarrow> hb_protocol user_tag ''AsmAuditHB'' ts"
  by (auto simp: trace_state_def split: if_splits)

lemma trace_state_add:
  assumes "trace_state m ts" and "us = [] \<or> networked (ms_conn m) \<and> ms_ticker m \<noteq> NilTicker"
    and "list_all (\<lambda>t. user_tag t \<or> t = ''AsmAuditHB'') us"
  shows "trace_state m (ts @ us)"
  using assms protocol_extend by (auto simp: trace_state_def split: if_splits)

lemma bind_outcome_Done: "bind_outcome x f = Done y \<longleftrightarrow> (\<exists>z. x = Done z \<and> f z = Done y)"
  by (cases x) simp_all

lemma stop_on_error_Done:
  "stop_on_error x = Done (r, m', c', os) \<longleftrightarrow>
   (\<exists>m1. x = Done (r, m1, c', os) \<and> m' = (if r = None then m1 else Stop_ticker m1))"
  by (cases x) (auto simp: stop_on_error_def)

lemma write_os:
  "msgSender_write e a c msg = Done (r, c', os) \<Longrightarrow>
   \<exists>m'. conn_Write (we_net e) (memory c) a msg = (r, m', os)"
  by (auto simp: msgSender_write_def bind_outcome_Done split: prod.splits)

text \<open>The tags of one write of a message of this sender.\<close>

lemma write_trace:
  assumes "msgSender_write e a c msg = Done (r, c', os)" and "tagged tag e"
    and "user_type (msg_Type msg) \<or> tag_of msg = ''AsmAuditHB''"
  shows "list_all (\<lambda>t. user_tag t \<or> t = ''AsmAuditHB'') (map tag (writes os))"
    and "map tag (writes os) = [] \<or> map tag (writes os) = [tag_of msg]"
    and "networked a \<Longrightarrow> r = None \<Longrightarrow> map tag (writes os) = [tag_of msg]"
    and "\<not> networked a \<Longrightarrow> map tag (writes os) = []"
proof -
  from write_os [OF assms(1)] obtain m' where w: "conn_Write (we_net e) (memory c) a msg = (r, m', os)"
    by blast
  note tags = write_tags [OF w assms(2)]
  show 1: "map tag (writes os) = [] \<or> map tag (writes os) = [tag_of msg]" by (rule tags(1))
  then show "list_all (\<lambda>t. user_tag t \<or> t = ''AsmAuditHB'') (map tag (writes os))"
    using assms(3) tag_user by auto
  show "networked a \<Longrightarrow> r = None \<Longrightarrow> map tag (writes os) = [tag_of msg]" by (rule tags(2))
  show "\<not> networked a \<Longrightarrow> map tag (writes os) = []" using tags(3) by simp
qed

text \<open>The first service of a message: a user message, then a heartbeat.\<close>

lemma first_service_trace:
  assumes w1: "msgSender_write e1 (ms_conn m) c msg = Done (None, c1, os1)"
    and w2: "msgSender_write e2 (ms_conn m) c1 (ms_heartbeat m) = Done (r, c2, os2)"
    and "tagged tag e1" and "tagged tag e2" and "user_type (msg_Type msg)" and hb: "sender_ok m"
  shows "hb_protocol user_tag ''AsmAuditHB'' (map tag (writes (os1 @ os2)))"
    and "r = None \<Longrightarrow> trace_state (m\<lparr>ms_ticker := Ticking\<rparr>) (map tag (writes (os1 @ os2)))"
proof -
  note t1 = write_trace [OF w1 assms(3)] and t2 = write_trace [OF w2 assms(4)]
  have u: "user_tag (tag_of msg)" by (rule tag_user [OF assms(5)])
  note h = tag_heartbeat [OF hb]
  show "hb_protocol user_tag ''AsmAuditHB'' (map tag (writes (os1 @ os2)))"
    using t1(3,4) t2(2,4) assms(5) u h by (cases "networked (ms_conn m)") auto
  show "trace_state (m\<lparr>ms_ticker := Ticking\<rparr>) (map tag (writes (os1 @ os2)))" if "r = None"
    using t1(3,4) t2(3,4) assms(5) u h that
    by (cases "networked (ms_conn m)") (auto simp: trace_state_def)
qed

lemma service_trace:
  assumes ok: "client_ok c" "sender_ok m" and ts: "trace_state m ts"
    and s: "serviceMsg ev e1 e2 m c = Done (r, m', c', os)"
    and e: "tagged tag e1" "tagged tag e2"
  shows "hb_protocol user_tag ''AsmAuditHB'' (ts @ map tag (writes os))"
    and "r = None \<Longrightarrow> trace_state m' (ts @ map tag (writes os))"
proof -
  have "hb_protocol user_tag ''AsmAuditHB'' (ts @ map tag (writes os)) \<and>
      (r = None \<longrightarrow> trace_state m' (ts @ map tag (writes os)))"
  proof (cases ev)
    case CtxDone
    with s trace_state_protocol [OF ts] show ?thesis by (auto simp: serviceMsg_def)
  next
    case Tick
    with s have tick: "ms_ticker m = Ticking"
      by (simp add: serviceMsg_def split: if_splits)
    with s Tick have w: "msgSender_write e1 (ms_conn m) c (ms_heartbeat m) = Done (r, c', os)"
      and m': "r = None \<longrightarrow> m' = m"
      by (auto simp: serviceMsg_def stop_on_error_Done bind_outcome_Done)
    note t = write_trace [OF w e(1)] tag_heartbeat [OF ok(2)]
    have "trace_state m (ts @ map tag (writes os))"
      by (rule trace_state_add [OF ts]) (use t tick in auto)
    with m' trace_state_protocol show ?thesis by blast
  next
    case MsgReady
    with s obtain ch msg ch' where c: "sendCh c = Some ch" "TryGet ch = (Some msg, ch')"
      by (auto simp: serviceMsg_def split: option.splits prod.splits)
    from take_message(2,4) [OF ok(1) c] ok(1) have user: "user_type (msg_Type msg)"
      by (auto simp: client_ok_def message_ok_def)
    from s MsgReady c obtain r1 c1 os1 where
      w1: "msgSender_write e1 (ms_conn m) (c\<lparr>sendCh := Some ch'\<rparr>) msg = Done (r1, c1, os1)"
      by (auto simp: serviceMsg_def stop_on_error_Done bind_outcome_Done)
    note t1 = write_trace [OF w1 e(1)]
    show ?thesis
    proof (cases "r1 = None \<and> ms_ticker m = NilTicker")
      case True
      with s MsgReady c w1 obtain c2 os2 where
        w2: "msgSender_write e2 (ms_conn m) c1 (ms_heartbeat m) = Done (r, c2, os2)" "os = os1 @ os2"
          "r = None \<longrightarrow> m' = m\<lparr>ms_ticker := Ticking\<rparr>"
        by (auto simp: serviceMsg_def stop_on_error_Done bind_outcome_Done split: if_splits)
      from ts True have "ts = []" by (simp add: trace_state_def)
      with first_service_trace [OF _ w2(1) e user ok(2)] w1 True w2 show ?thesis by auto
    next
      case False
      with s MsgReady c w1 have os: "os = os1" "r = r1" "r = None \<longrightarrow> m' = m"
        by (auto simp: serviceMsg_def stop_on_error_Done bind_outcome_Done split: if_splits)
      show ?thesis
      proof (cases "ms_ticker m = NilTicker")
        case True
        with ts False os user t1(2) tag_user [OF user] show ?thesis
          by (auto simp: trace_state_def)
      next
        case ticker: False
        have "trace_state m (ts @ map tag (writes os1))"
          by (rule trace_state_add [OF ts]) (use t1 user ticker in auto)
        with os trace_state_protocol show ?thesis by blast
      qed
    qed
  qed
  then show "hb_protocol user_tag ''AsmAuditHB'' (ts @ map tag (writes os))"
    and "r = None \<Longrightarrow> trace_state m' (ts @ map tag (writes os))" by blast+
qed

fun traffic :: "sender_status \<Rightarrow> netop list" where
  "traffic (Running m c os) = os"
| "traffic (Returned r m c os) = os"
| "traffic Crashed = []"

lemma run_protocol:
  assumes "client_ok c" and "sender_ok m" and "list_all (round_ok (memory c)) rs"
    and "list_all (\<lambda>rd. tagged tag (rd_env1 rd) \<and> tagged tag (rd_env2 rd)) rs"
    and "trace_state m (map tag (writes os))"
  shows "hb_protocol user_tag ''AsmAuditHB'' (map tag (writes (traffic (sender rs m c os))))"
  using assms
proof (induction rs arbitrary: m c os)
  case Nil
  then show ?case by (simp add: trace_state_protocol)
next
  case (Cons rd rs)
  let ?c = "others (rd_others rd) c"
  from Cons.prems(3) have rd: "list_all (other_ok (memory c)) (rd_others rd)"
    "list_all (other_ok (memory c)) (we_others (rd_env1 rd))"
    "list_all (other_ok (memory c)) (we_others (rd_env2 rd))"
    and rs: "list_all (round_ok (memory c)) rs"
    by (simp_all add: round_ok_def [of _ rd])
  from Cons.prems(4) have tags: "tagged tag (rd_env1 rd)" "tagged tag (rd_env2 rd)"
    and tags': "list_all (\<lambda>rd. tagged tag (rd_env1 rd) \<and> tagged tag (rd_env2 rd)) rs" by simp_all
  from others_ok [OF Cons.prems(1) rd(1)] have c: "client_ok ?c" "memory ?c = memory c"
    by (auto simp: others_effect_def)
  note now = trace_state_protocol [OF Cons.prems(5)]
  show ?case
  proof (cases "rd_cancelled rd \<or> not_ready (rd_event rd) m ?c")
    case True
    with now show ?thesis by (auto simp: service_blocked)
  next
    case False
    then have "\<not> not_ready (rd_event rd) m ?c" by simp
    from service_cases [OF c(1) Cons.prems(2) this] rd(2,3) c(2) obtain r m' c' os' where
      s: "serviceMsg (rd_event rd) (rd_env1 rd) (rd_env2 rd) m ?c = Done (r, m', c', os')"
        "client_ok c'" "sender_ok m'" "\<And>x. record_ok (memory ?c) x \<Longrightarrow> record_ok (memory c') x"
      unfolding service_post_def by metis
    have ok: "list_all (round_ok (memory c')) rs"
      by (rule round_ok_mono [OF _ rs]) (use s(4) c(2) in simp)
    note trace = service_trace [OF c(1) Cons.prems(2,5) s(1) tags]
    show ?thesis
    proof (cases r)
      case None
      with trace(2) have "trace_state m' (map tag (writes (os @ os')))" by simp
      from Cons.IH [OF s(2,3) ok tags' this] False s(1) None show ?thesis by simp
    next
      case (Some err)
      with trace(1) False s(1) show ?thesis by simp
    qed
  qed
qed

text \<open>
  C21. The heartbeat protocol. On every run of a fresh sender, over any connection, the messages
  handed to the network start with a user's message; the second one is the heartbeat; later
  ones are user messages and heartbeats. So no heartbeat is sent before a first user
  message went out, and the first success is followed by a heartbeat at once.
\<close>

theorem heartbeat_protocol:
  assumes "client_ok c" and "sender_ok m" and "ms_ticker m = NilTicker"
    and "list_all (round_ok (memory c)) rs"
    and "list_all (\<lambda>rd. tagged tag (rd_env1 rd) \<and> tagged tag (rd_env2 rd)) rs"
  shows "hb_protocol user_tag ''AsmAuditHB'' (map tag (writes (traffic (sender rs m c []))))"
  by (rule run_protocol [OF assms(1,2,4,5)]) (simp add: trace_state_def assms(3))

theorem heartbeat_protocol_witness:
  "hb_protocol user_tag ''AsmAuditHB'' (writes (traffic (sender
      [sample_round MsgReady sample_env, sample_round MsgReady broken_env] sample_sender sample_loaded [])))"
  using heartbeat_protocol [OF sample_loaded_ok sample_sender_ok, where tag = id and
      rs = "[sample_round MsgReady sample_env, sample_round MsgReady broken_env]"] sample_ok
  by (auto simp: round_ok_def sample_round_def tagged_def sample_net_def)

end
