(* ===== verification/ManagerFacts.thy ===== *)
theory ManagerFacts
  imports Manager SenderRuns
begin

text \<open>
  What the connection manager guarantees: how senders are created, what \<open>New\<close> returns, how a
  reconnect ends, that the death of the client is announced before it is visible, and that the
  whole background task never breaks the client's invariant.
\<close>

section \<open>What the sender leaves alone\<close>

text \<open>
  The fields of the client that only the manager or \<open>New\<close> writes, and the group of background
  closes, which shrinks.
\<close>

definition frame :: "Client \<Rightarrow> Client \<Rightarrow> bool" where
  "frame c c' \<longleftrightarrow> set (closers c') \<subseteq> set (closers c) \<and> goos c' = goos c \<and>
     maxClosers c' = maxClosers c \<and> clientDead c' = clientDead c \<and>
     serviceTreeID c' = serviceTreeID c \<and> kver c' = kver c \<and> (log c' = None \<longleftrightarrow> log c = None)"

lemma frame_refl [simp]: "frame c c"
  by (simp add: frame_def)

lemma frame_trans: "frame a b \<Longrightarrow> frame b c \<Longrightarrow> frame a c"
  by (auto simp: frame_def)

lemma frame_updates [simp]:
  "frame c (c'\<lparr>sendCh := x1\<rparr>) = frame c c'" "frame c (c'\<lparr>metrics := x2\<rparr>) = frame c c'"
  "frame c (c'\<lparr>memory := x3\<rparr>) = frame c c'" "frame c (c'\<lparr>notifier := x4\<rparr>) = frame c c'"
  "frame (c\<lparr>sendCh := x1\<rparr>) c' = frame c c'" "frame (c\<lparr>memory := x3\<rparr>) c' = frame c c'"
  by (simp_all add: frame_def)

lemma frame_log_add [simp]: "frame c (log_add l c') = frame c c'"
  by (simp add: frame_def log_add_def)

lemma log_sendNotify [simp]: "log (sendNotify now c err) = None \<longleftrightarrow> log c = None"
  by (auto simp: sendNotify_def logDrop_def log_add_def split: option.splits prod.splits bool.splits)

lemma frame_sendNotify [simp]: "frame c (sendNotify now c' err) = frame c c'"
  by (simp add: frame_def)

lemma frame_fold_log [simp]: "frame c (fold (\<lambda>x. log_add (f x)) xs c') = frame c c'"
  by (induction xs arbitrary: c') simp_all

lemma frame_Send: "Send_client c msg = (r, c') \<Longrightarrow> frame c c'"
  by (auto simp: Send_client_eq split: if_splits option.splits)

lemma frame_remove: "frame c c' \<Longrightarrow> frame c (c'\<lparr>closers := remove1 a (closers c)\<rparr>)"
  using set_remove1_subset [of a "closers c"] by (auto simp: frame_def)

lemma frame_closer_returns: "frame c (closer_returns now c a err)"
  by (cases err) (simp_all add: closer_returns_def Let_def frame_remove)

lemma frame_other: "frame c (other_step x c)"
proof (cases x)
  case (UserSend msg)
  then show ?thesis by (cases "Send_client c msg") (auto intro: frame_Send)
qed (simp_all add: frame_closer_returns)

lemma frame_others: "frame c (others xs c)"
proof (induction xs arbitrary: c)
  case (Cons x xs)
  from frame_trans [OF frame_other Cons] show ?case by (simp add: others_def)
qed (simp add: others_def)

lemma frame_metrics_Add: "metrics_Add k c = Done c' \<Longrightarrow> frame c c'"
  by (auto simp: metrics_Add_def split: option.splits)

lemma frame_requeue: "requeue c msg = Done c' \<Longrightarrow> frame c c'"
  by (auto simp: requeue_def split: prod.splits bool.splits dest: frame_metrics_Add)

lemma frame_counts:
  "count_failed c msg = Done c' \<Longrightarrow> frame c c'" "count_noop c msg = Done c' \<Longrightarrow> frame c c'"
  by (auto simp: count_failed_def count_noop_def split: if_splits dest: frame_metrics_Add frame_requeue)

lemma frame_finish: "finish_write now a c msg r = Done c' \<Longrightarrow> frame c c'"
  by (auto simp: finish_write_def bind_outcome_Done split: option.splits if_splits
      dest!: frame_metrics_Add frame_counts intro: frame_trans)

lemma frame_write:
  assumes "msgSender_write e a c msg = Done (r, c', os)"
  shows "frame c c'"
proof -
  obtain w m' ops where "conn_Write (we_net e) (memory c) a msg = (w, m', ops)"
    using prod_cases3 by blast
  moreover have "frame c (others (we_others e) (c\<lparr>memory := m'\<rparr>))"
    using frame_others [of "c\<lparr>memory := m'\<rparr>"] by simp
  ultimately show ?thesis
    using assms
    by (auto simp: msgSender_write_def bind_outcome_Done dest!: frame_finish intro: frame_trans)
qed

lemma frame_service:
  assumes "serviceMsg ev e1 e2 m c = Done (r, m', c', os)"
  shows "frame c c'"
  using assms
  by (auto simp: serviceMsg_def stop_on_error_Done bind_outcome_Done
      split: event.splits option.splits prod.splits if_splits dest!: frame_write intro: frame_trans)

fun status_client :: "sender_status \<Rightarrow> Client option" where
  "status_client (Running m c os) = Some c"
| "status_client (Returned r m c os) = Some c"
| "status_client Crashed = None"

lemma frame_sender: "status_client (sender rs m c os) = Some c' \<Longrightarrow> frame c c'"
proof (induction rs arbitrary: m c os)
  case (Cons rd rs)
  note o = frame_others [of c "rd_others rd"]
  show ?case
  proof (cases "rd_cancelled rd")
    case False
    show ?thesis
    proof (cases "serviceMsg (rd_event rd) (rd_env1 rd) (rd_env2 rd) m (others (rd_others rd) c)")
      case (Done y)
      obtain r m1 c1 os1 where y: "y = (r, m1, c1, os1)" using prod_cases4 by blast
      with Done have "frame (others (rd_others rd) c) c1" by (simp add: frame_service)
      from frame_trans [OF o this] have f: "frame c c1" .
      with Cons.prems Cons.IH False Done y show ?thesis
        by (cases r) (auto intro: frame_trans [OF f])
    qed (use Cons.prems False o in auto)
  qed (use Cons.prems o in auto)
qed simp

section \<open>Creating senders\<close>

definition wired :: "msgSenderArgs \<Rightarrow> bool" where
  "wired args \<longleftrightarrow> ma_conn args \<noteq> None \<and> msg_Type (ma_heartbeat args) = Heartbeat \<and>
     (\<exists>c. ma_client args = Some c \<and> notifier c \<noteq> None \<and> sendCh c \<noteq> None \<and> metrics c \<noteq> None)"

lemma validate_wired: "msgSenderArgs_validate args = None \<longleftrightarrow> wired args"
  by (auto simp: msgSenderArgs_validate_def wired_def fail_if_def split: option.splits)

text \<open>
  \<open>newMsgSender\<close> succeeds exactly if its arguments are wired (a connection, a heartbeat message of
  the heartbeat type, a client with its two channels and its metrics), and every error it
  gives is permanent, so that no retry loop spins on it.
\<close>

lemma newMsgSender_spec:
  "((\<exists>s. newMsgSender args = Inr s) \<longleftrightarrow> wired args) \<and>
   (\<forall>e. newMsgSender args = Inl e \<longrightarrow> permanent e)"
  using validate_wired [of args]
  by (auto simp: newMsgSender_def wired_def split: option.splits prod.splits)

text \<open>The sender \<open>newSender\<close> makes: its connection, its heartbeat, no ticker yet.\<close>

definition fresh_sender :: "host \<Rightarrow> Client \<Rightarrow> audit_conn \<Rightarrow> msgSender" where
  "fresh_sender h c a = \<lparr>ms_conn = a, ms_heartbeat = heartbeat (h_version h) c (conn_Type a),
     ms_ticker = NilTicker\<rparr>"

lemma heartbeat_fields [simp]:
  "msg_Type (heartbeat v c t) = Heartbeat" "msg_Record (heartbeat v c t) = Record_zero"
  by (simp_all add: heartbeat_def Msg_zero_def)

lemma fresh_sender_simps [simp]:
  "sender_ok (fresh_sender h c a)" "ms_conn (fresh_sender h c a) = a"
  "ms_ticker (fresh_sender h c a) = NilTicker"
  by (simp_all add: fresh_sender_def sender_ok_def)

lemma newMsgSender_fresh:
  assumes "client_ok c"
  shows "newMsgSender \<lparr>ma_conn = Some a, ma_heartbeat = heartbeat (h_version h) c (conn_Type a),
     ma_client = Some c\<rparr> = Inr (fresh_sender h c a)"
proof -
  from assms have "msgSenderArgs_validate \<lparr>ma_conn = Some a,
      ma_heartbeat = heartbeat (h_version h) c (conn_Type a), ma_client = Some c\<rparr> = None"
    by (auto simp: validate_wired wired_def client_ok_def)
  then show ?thesis by (simp add: newMsgSender_def fresh_sender_def)
qed

text \<open>Whether the host lets the connection be used.\<close>

definition usable :: "host \<Rightarrow> Client \<Rightarrow> audit_conn \<Rightarrow> bool" where
  "usable h c a \<longleftrightarrow> goos c = ''linux'' \<or> h_testing h \<or> conn_Type a = TypeNoOP"

definition not_linux :: goerr where
  "not_linux = errorf ''audit: only linux clients can use Audit with a non-NoOp conn.Audit type: %w'' [ErrPermanent]"

lemma newSender_eq:
  assumes "client_ok c"
  shows "newSender h r c = (case r of
      Inl err \<Rightarrow> Done (Inl (errorf ''failed to create audit connection: %w'' [err]), c)
    | Inr None \<Rightarrow> Panics
    | Inr (Some a) \<Rightarrow> if usable h c a then Done (Inr (fresh_sender h c a), c)
                      else Done (Inl not_linux, closeAuditConn c a))"
proof -
  have "goos c \<noteq> ''linux'' \<and> \<not> h_testing h \<and> conn_Type a \<noteq> TypeNoOP \<longleftrightarrow> \<not> usable h c a" for a
    by (auto simp: usable_def)
  then show ?thesis
    by (simp add: newSender_def newMsgSender_fresh [OF assms] not_linux_def
        split: sum.splits option.splits)
qed

text \<open>
  C26. Creating a sender for a well-formed client. It succeeds exactly on a connection the host may
  use, with a heartbeat of the client and no ticker, leaving the client as it is. An
  error of \<open>CreateConn\<close> is wrapped: it is permanent only if that error was. On another
  host than Linux, a connection that is not a no-op is refused permanently and closed in the
  background. A nil connection without an error panics.
\<close>

theorem newSender_spec:
  assumes "client_ok c"
  shows "(newSender h r c = Panics \<longleftrightarrow> r = Inr None) \<and>
    (newSender h r c = Done (Inr s, c') \<longleftrightarrow>
       (\<exists>a. r = Inr (Some a) \<and> usable h c a \<and> s = fresh_sender h c a \<and> c' = c)) \<and>
    (newSender h r c = Done (Inl e, c') \<longrightarrow>
       (\<exists>err. r = Inl err \<and> c' = c \<and> (\<forall>t. errors_is e t = errors_is err t)) \<or>
       (\<exists>a. r = Inr (Some a) \<and> \<not> usable h c a \<and> c' = closeAuditConn c a \<and> permanent e))"
  using newSender_eq [OF assms, of h r]
  by (auto simp: not_linux_def split: sum.splits option.splits if_splits)

definition sample_host :: host where
  "sample_host = \<lparr>h_goos = ''linux'', h_version = ''go1.24'', h_testing = False, h_unix = True,
     h_uname = Inr (''6.1'' @ [CHR 0x00, CHR 0x00]), h_backoff = None, h_counter = (\<lambda>name. None)\<rparr>"

theorem newSender_spec_witness:
  "newSender sample_host (Inr (Some NoOP)) sample_client =
     Done (Inr (fresh_sender sample_host sample_client NoOP), sample_client)"
  using newSender_spec [OF sample_client_ok, of sample_host "Inr (Some NoOP)"
      "fresh_sender sample_host sample_client NoOP" sample_client]
  by (simp add: usable_def conn_Type_def)

section \<open>New\<close>

text \<open>The options the package offers.\<close>

definition std_option :: "Option \<Rightarrow> bool" where
  "std_option f \<longleftrightarrow> (\<exists>n. f = WithQueueSize n) \<or> (\<exists>l. f = WithLogger l) \<or> f = WithDeferredConnection"

text \<open>They set the queue size, to a positive number, the logger and the deferred mode only.\<close>

definition configured :: "Client \<Rightarrow> Client \<Rightarrow> bool" where
  "configured c c' \<longleftrightarrow> 0 < queueSize c' \<and>
     c' = c\<lparr>queueSize := queueSize c', log := log c', deferredConn := deferredConn c'\<rparr>"

lemma std_option_configured:
  assumes "std_option f" and "f c = Inr c'" and "0 < queueSize c"
  shows "configured c c'"
  using assms
  by (auto simp: std_option_def configured_def WithQueueSize_def WithLogger_def
      WithDeferredConnection_def split: if_splits)

lemma configured_trans: "configured a b \<Longrightarrow> configured b c \<Longrightarrow> configured a c"
  unfolding configured_def by (cases a; cases b; cases c) simp

lemma apply_options_configured:
  "list_all std_option fs \<Longrightarrow> apply_options fs c = Inr c' \<Longrightarrow> 0 < queueSize c \<Longrightarrow> configured c c'"
proof (induction fs arbitrary: c)
  case Nil
  then show ?case by (simp add: configured_def)
next
  case (Cons f fs)
  then obtain c1 where c1: "f c = Inr c1" "apply_options fs c1 = Inr c'"
    by (auto split: sum.splits)
  from Cons.prems c1(1) have f: "configured c c1" by (auto intro: std_option_configured)
  then have "0 < queueSize c1" by (simp add: configured_def)
  with Cons c1(2) have "configured c1 c'" by auto
  with f show ?case by (rule configured_trans)
qed

lemma newMetrics_ok: "newMetrics mk = Inr ms \<Longrightarrow> metrics_ok ms"
  by (auto simp: newMetrics_def metrics_ok_def Let_def split: option.splits)

text \<open>The client when the connection manager is started.\<close>

definition ready :: "Client \<Rightarrow> bool" where
  "ready c \<longleftrightarrow> client_ok c \<and> 0 < queueSize c \<and> cap (the (sendCh c)) = nat (queueSize c) \<and>
     queue c = [] \<and> notices c = [] \<and> \<not> clientDead c \<and> closers c = [] \<and> maxClosers c = 1000 \<and>
     cap (the (notifier c)) = 2"

lemma configured_ready:
  assumes "configured (initial_client h stid kv ms mem) c" and "metrics_ok ms"
  shows "ready (c\<lparr>sendCh := Some (make_chan (nat (queueSize c)))\<rparr>)"
    and "serviceTreeID c = stid" "goos c = h_goos h" "memory c = mem" "kver c = kv"
proof -
  obtain q l d where c: "c = initial_client h stid kv ms mem\<lparr>queueSize := q, log := l, deferredConn := d\<rparr>"
    and q: "0 < q"
    using assms(1) by (metis configured_def)
  show "ready (c\<lparr>sendCh := Some (make_chan (nat (queueSize c)))\<rparr>)"
    using assms(2) q by (simp add: c initial_client_def ready_def client_ok_def queue_def notices_def)
  show "serviceTreeID c = stid" "goos c = h_goos h" "memory c = mem" "kver c = kv"
    by (simp_all add: c initial_client_def)
qed

end
