(* ===== verification/NewFacts.thy ===== *)
theory NewFacts
  imports ManagerFacts
begin

text \<open>
  What \<open>New\<close> returns: a client that satisfies the invariant, with the background task that serves
  it, or an error with its classification; and the release string of the kernel.
\<close>

section \<open>The kernel release\<close>

lemma dropWhile_rev_padded:
  assumes "s \<noteq> [] \<longrightarrow> last s \<noteq> z"
  shows "rev (dropWhile (\<lambda>b. b = z) (rev (s @ replicate n z))) = s"
proof -
  have "dropWhile (\<lambda>b. b = z) (replicate n z @ rev s) = dropWhile (\<lambda>b. b = z) (rev s)"
    by (rule dropWhile_append2) simp
  also have "\<dots> = rev s"
    using assms by (cases "rev s") (auto simp: last_rev [symmetric] hd_rev)
  finally show ?thesis by simp
qed

text \<open>
  On Unix the kernel version is the release field up to its NUL padding, whatever the size of
  the field.
\<close>

lemma kernelVer_release:
  assumes "h_unix h" and "h_uname h = Inr (s @ replicate n (CHR 0x00))" and "CHR 0x00 \<notin> set s"
  shows "kernelVer h = Inr s"
proof (cases s)
  case Nil
  with assms show ?thesis
    by (simp add: kernelVer_def kernelVer_unix_def uname_def bytesToStr_def Trim_NUL_def)
next
  case (Cons a as)
  with assms(3) have "dropWhile (\<lambda>b. b = CHR 0x00) (s @ replicate n (CHR 0x00)) = s @ replicate n (CHR 0x00)"
    "s \<noteq> [] \<longrightarrow> last s \<noteq> CHR 0x00"
    by (auto split: if_splits dest: last_in_set)
  with assms(1,2) dropWhile_rev_padded show ?thesis
    by (simp add: kernelVer_def kernelVer_unix_def uname_def bytesToStr_def Trim_NUL_def)
qed

section \<open>New\<close>

text \<open>The error that keeps the first connection from being used.\<close>

definition conn_failure :: "host \<Rightarrow> Client \<Rightarrow> created \<Rightarrow> goerr option" where
  "conn_failure h c r = (case r of
       Inl err \<Rightarrow> Some (errorf ''failed to create audit connection: %w'' [err])
     | Inr None \<Rightarrow> None
     | Inr (Some a) \<Rightarrow> if usable h c a then None else Some not_linux)"

definition handed_over :: "goerr option \<Rightarrow> task \<Rightarrow> task option" where
  "handed_over once_err t = (if once_err = None then Some t else None)"

lemma newNoopSender_fresh: "client_ok c \<Longrightarrow> newNoopSender h c = Inr (fresh_sender h c NoOP)"
  by (simp add: newNoopSender_def newMsgSender_fresh)

definition closed_unused :: "host \<Rightarrow> Client \<Rightarrow> created \<Rightarrow> Client" where
  "closed_unused h c r = (case r of Inr (Some a) \<Rightarrow> if usable h c a then c else closeAuditConn c a | _ \<Rightarrow> c)"

lemma closed_unused_deferred [simp]: "deferredConn (closed_unused h c r) = deferredConn c"
  by (auto simp: closed_unused_def closeAuditConn_def split: sum.split option.split)

lemma createSender_eq:
  assumes "client_ok c"
  shows "createSender h r c =
    (if r = Inr None then Panics
     else case conn_failure h c r of
            Some err \<Rightarrow> Done (Some err, None, closed_unused h c r)
          | None \<Rightarrow> (case r of Inr (Some a) \<Rightarrow> Done (None, Some (fresh_sender h c a), c) | _ \<Rightarrow> Panics))"
  by (auto simp: createSender_def newSender_eq [OF assms] conn_failure_def closed_unused_def
      split: sum.split option.split)

lemma startConnManager_eq:
  assumes "client_ok c"
  shows "startConnManager once_err h r c =
    (if r = Inr None then Panics
     else case conn_failure h c r of
       Some err \<Rightarrow>
         if \<not> deferredConn c then Done (Some err, None, closed_unused h c r)
         else if permanent err then Done (Some (errorf ''%w: %w'' [err, ErrClientDead]), None, closed_unused h c r)
         else Done (None, handed_over once_err (DeferredTask (fresh_sender h c NoOP) err), closed_unused h c r)
     | None \<Rightarrow> (case r of
           Inr (Some a) \<Rightarrow> Done (None, handed_over once_err (ManageTask (fresh_sender h c a)), c)
         | _ \<Rightarrow> Panics))"
proof -
  have noop: "newNoopSender h (closed_unused h c r) = Inr (fresh_sender h c NoOP)"
    if "\<not> permanent err" "conn_failure h c r = Some err" for err
  proof -
    have "closed_unused h c r = c"
      using that by (auto simp: conn_failure_def closed_unused_def not_linux_def
          split: sum.splits option.splits if_splits)
    with newNoopSender_fresh [OF assms] show ?thesis by simp
  qed
  show ?thesis
    by (auto simp: startConnManager_def createSender_eq [OF assms] startDeferred_def noop
        launchManager_def handed_over_def split: option.splits sum.splits)
qed

text \<open>What the host and the options make of a call of \<open>New\<close>, before it connects.\<close>

definition configures ::
  "host \<Rightarrow> (128 word \<Rightarrow> string) \<Rightarrow> mem \<Rightarrow> 128 word \<Rightarrow> Option list \<Rightarrow> Client \<Rightarrow> bool" where
  "configures h ustr mem uid options c \<longleftrightarrow> uid \<noteq> 0 \<and> h_backoff h = None \<and>
     (\<exists>kv ms c0. kernelVer h = Inr kv \<and> newMetrics (h_counter h) = Inr ms \<and>
        apply_options options (initial_client h (ustr uid) kv ms mem) = Inr c0 \<and>
        c = c0\<lparr>sendCh := Some (make_chan (nat (queueSize c0)))\<rparr>)"

lemma configures_ready:
  assumes "configures h ustr mem uid options c" and "list_all std_option options"
  shows "ready c" and "serviceTreeID c = ustr uid" and "goos c = h_goos h" and "memory c = mem"
    and "kernelVer h = Inr (kver c)"
proof -
  from assms(1) obtain kv ms c0 where kv: "kernelVer h = Inr kv" and ms: "newMetrics (h_counter h) = Inr ms"
    and o: "apply_options options (initial_client h (ustr uid) kv ms mem) = Inr c0"
    and c: "c = c0\<lparr>sendCh := Some (make_chan (nat (queueSize c0)))\<rparr>"
    by (auto simp: configures_def)
  have conf: "configured (initial_client h (ustr uid) kv ms mem) c0"
    by (rule apply_options_configured [OF assms(2) o]) (simp add: initial_client_def DefaultQueueSize_def)
  from configured_ready [OF conf newMetrics_ok [OF ms]] c kv
  show "ready c" "serviceTreeID c = ustr uid" "goos c = h_goos h" "memory c = mem"
    "kernelVer h = Inr (kver c)" by simp_all
qed

text \<open>A call of \<open>New\<close> that gets as far as connecting.\<close>

lemma New_configured:
  assumes "configures h ustr mem uid options c" and "list_all std_option options"
  shows "New h ustr once_err mem uid r options =
    bind_outcome (startConnManager once_err h r c)
      (\<lambda>(err, t, c'). case err of
         Some e \<Rightarrow> Done (Inl (errorf ''failed to start connection manager: %w'' [e]), t)
       | None \<Rightarrow> Done (Inr c', t))"
proof -
  from configures_ready(1) [OF assms] have "\<not> queueSize c < 0" by (simp add: ready_def)
  with assms(1) show ?thesis by (auto simp: configures_def New_def)
qed

lemma New_succeeds_configured:
  assumes "New h ustr once_err mem uid r options = Done (Inr c, t)"
  shows "\<exists>c0. configures h ustr mem uid options c0"
  using assms
  by (auto simp: New_def configures_def split: if_splits sum.splits option.splits)

lemma created_cases:
  obtains (made) a where "r = Inr (Some a)" "usable h c a"
    | (refused) a where "r = Inr (Some a)" "\<not> usable h c a"
    | (failed) err where "r = Inl err"
    | (null) "r = Inr None"
proof (cases r)
  case (Inr x)
  with that show ?thesis by (cases x) blast+
qed (use that in blast)

lemma New_result:
  assumes "list_all std_option options" and "New h ustr once_err mem uid r options = Done (Inr c, t)"
  shows "uid \<noteq> 0 \<and> ready c \<and> serviceTreeID c = ustr uid \<and> kernelVer h = Inr (kver c) \<and>
    ((\<exists>a. r = Inr (Some a) \<and> usable h c a \<and> t = handed_over once_err (ManageTask (fresh_sender h c a))) \<or>
     (\<exists>err e. r = Inl err \<and> deferredConn c \<and> \<not> permanent err \<and>
        t = handed_over once_err (DeferredTask (fresh_sender h c NoOP) e) \<and>
        (\<forall>k. errors_is e k = errors_is err k)))"
proof -
  from New_succeeds_configured [OF assms(2)] obtain c0 where c0: "configures h ustr mem uid options c0"
    by blast
  note r = configures_ready [OF c0 assms(1)]
  from r(1) have ok: "client_ok c0" by (simp add: ready_def)
  from c0 have uid: "uid \<noteq> 0" by (simp add: configures_def)
  note call = New_configured [OF c0 assms(1), of once_err r]
  show ?thesis
  proof (cases rule: created_cases [of r h c0])
    case (made a)
    with call assms(2) have "c = c0" "t = handed_over once_err (ManageTask (fresh_sender h c0 a))"
      by (auto simp: startConnManager_eq [OF ok] conn_failure_def)
    with made r uid show ?thesis by auto
  next
    case (refused a)
    with call assms(2) show ?thesis
      by (auto simp: startConnManager_eq [OF ok] conn_failure_def not_linux_def split: if_splits)
  next
    case (failed err)
    let ?e = "errorf ''failed to create audit connection: %w'' [err]"
    from call assms(2) failed have "c = c0" "deferredConn c0" "\<not> permanent err"
      "t = handed_over once_err (DeferredTask (fresh_sender h c0 NoOP) ?e)"
      by (auto simp: startConnManager_eq [OF ok] conn_failure_def closed_unused_def split: if_splits)
    with failed r uid show ?thesis by auto
  next
    case null
    with call assms(2) show ?thesis by (simp add: startConnManager_eq [OF ok])
  qed
qed

text \<open>
  C25. A client that \<open>New\<close> returns, with the package's options, satisfies the invariant: its queue is
  empty with the configured capacity, it is alive, nothing is being closed, and it carries
  the service tree ID and the kernel's release. If the task is handed over, it is either
  the manager with a fresh sender on the connection made, or, only in deferred mode and after
  a failure that is not permanent, the deferred connect with a no-op sender.
\<close>

theorem New_ready:
  assumes "list_all std_option options" and "New h ustr once_err mem uid r options = Done (Inr c, t)"
  shows "uid \<noteq> 0 \<and> ready c \<and> serviceTreeID c = ustr uid \<and> kernelVer h = Inr (kver c) \<and>
    ((\<exists>a. r = Inr (Some a) \<and> usable h c a \<and> t = handed_over once_err (ManageTask (fresh_sender h c a))) \<or>
     (\<exists>err e. r = Inl err \<and> deferredConn c \<and> \<not> permanent err \<and>
        t = handed_over once_err (DeferredTask (fresh_sender h c NoOP) e) \<and>
        (\<forall>k. errors_is e k = errors_is err k)))"
  by (rule New_result [OF assms])

text \<open>Sample calls, on Linux.\<close>

definition sample_New :: "created \<Rightarrow> Option list \<Rightarrow> ((goerr + Client) \<times> task option) outcome" where
  "sample_New r options = New sample_host (\<lambda>u. ''id'') None sample_mem 1 r options"

definition sample_initial :: Client where
  "sample_initial = initial_client sample_host ''id'' ''6.1'' sample_metrics sample_mem"

lemma sample_kernelVer: "kernelVer sample_host = Inr ''6.1''"
  by (simp add: sample_host_def kernelVer_def kernelVer_unix_def uname_def bytesToStr_def Trim_NUL_def)

lemma sample_configures:
  "apply_options options sample_initial = Inr c0 \<Longrightarrow>
   configures sample_host (\<lambda>u. ''id'') sample_mem 1 options
     (c0\<lparr>sendCh := Some (make_chan (nat (queueSize c0)))\<rparr>)"
  using sample_kernelVer
  by (auto simp: configures_def sample_initial_def sample_host_def newMetrics_def sample_metrics_def)

theorem New_ready_witness:
  "\<exists>c t. sample_New (Inl ErrQueueFull) [WithQueueSize 7, WithDeferredConnection] = Done (Inr c, t) \<and>
     ready c \<and> deferredConn c"
proof -
  let ?c = "sample_initial\<lparr>queueSize := 7, deferredConn := True, sendCh := Some (make_chan 7)\<rparr>"
  have "apply_options [WithQueueSize 7, WithDeferredConnection] sample_initial =
      Inr (sample_initial\<lparr>queueSize := 7, deferredConn := True\<rparr>)"
    by (simp add: WithQueueSize_def WithDeferredConnection_def)
  from sample_configures [OF this]
  have conf: "configures sample_host (\<lambda>u. ''id'') sample_mem 1 [WithQueueSize 7, WithDeferredConnection] ?c"
    by simp
  have std: "list_all std_option [WithQueueSize 7, WithDeferredConnection]"
    by (auto simp: std_option_def)
  from configures_ready(1) [OF conf std] have ok: "client_ok ?c" by (simp add: ready_def)
  have "\<exists>c t. sample_New (Inl ErrQueueFull) [WithQueueSize 7, WithDeferredConnection] = Done (Inr c, t)
      \<and> deferredConn c"
    by (simp add: sample_New_def New_configured [OF conf std] startConnManager_eq [OF ok]
        conn_failure_def closed_unused_def)
  with New_ready [OF std, of sample_host "\<lambda>u. ''id''" None sample_mem 1 "Inl ErrQueueFull"]
  show ?thesis by (auto simp: sample_New_def)
qed

text \<open>
  C27. The errors of connecting in \<open>New\<close>. Once the ID, the host and the options are in order, \<open>New\<close>
  fails only because the first connection failed, by the caller's \<open>CreateConn\<close> or because the host may
  not use it, and, in deferred mode, only if that failure is permanent. No task is started.
  The error carries every classification of the failure, and in deferred mode it also
  tells that the client is dead.
\<close>

theorem New_connection_errors:
  assumes "configures h ustr mem uid options c" and "list_all std_option options"
    and "New h ustr once_err mem uid r options = Done (Inl e, t)"
  shows "\<exists>err. conn_failure h c r = Some err \<and> (deferredConn c \<longrightarrow> permanent err) \<and> t = None \<and>
    (\<forall>k. errors_is e k \<longleftrightarrow> errors_is err k \<or> deferredConn c \<and> errors_is ErrClientDead k)"
proof -
  from configures_ready(1) [OF assms(1,2)] have ok: "client_ok c" by (simp add: ready_def)
  note call = New_configured [OF assms(1,2), of once_err r] startConnManager_eq [OF ok, of once_err h r]
  show ?thesis
  proof (cases rule: created_cases [of r h c])
    case (made a)
    with call assms(3) show ?thesis by (simp add: conn_failure_def)
  next
    case (refused a)
    with call assms(3) show ?thesis
      by (cases "deferredConn c") (auto simp: conn_failure_def not_linux_def)
  next
    case (failed err)
    with call assms(3) show ?thesis
      by (cases "deferredConn c"; cases "permanent err") (auto simp: conn_failure_def)
  next
    case null
    with call assms(3) show ?thesis by simp
  qed
qed

theorem New_connection_errors_witness:
  "\<exists>e. sample_New (Inl ErrValidation) [WithDeferredConnection] = Done (Inl e, None) \<and>
     errors_is e SClientDead \<and> errors_is e SValidation"
proof -
  let ?o = "[WithDeferredConnection]"
  let ?c = "sample_initial\<lparr>deferredConn := True, sendCh := Some (make_chan 2048)\<rparr>"
  have "apply_options ?o sample_initial = Inr (sample_initial\<lparr>deferredConn := True\<rparr>)"
    by (simp add: WithDeferredConnection_def)
  from sample_configures [OF this]
  have conf: "configures sample_host (\<lambda>u. ''id'') sample_mem 1 ?o ?c"
    by (simp add: sample_initial_def initial_client_def DefaultQueueSize_def)
  have std: "list_all std_option ?o" by (simp add: std_option_def)
  from configures_ready(1) [OF conf std] have ok: "client_ok ?c" by (simp add: ready_def)
  obtain e t where e: "sample_New (Inl ErrValidation) ?o = Done (Inl e, t)"
    by (simp add: sample_New_def New_configured [OF conf std] startConnManager_eq [OF ok] conn_failure_def)
  from New_connection_errors [OF conf std, of None "Inl ErrValidation" e t] e
  show ?thesis by (auto simp: sample_New_def conn_failure_def)
qed

end
