(* ===== verification/ManagerRuns.thy ===== *)
theory ManagerRuns
  imports NewFacts
begin

text \<open>
  Runs of the connection manager over any \<open>Retry\<close> that keeps its documented contract: how a
  reconnect ends, the announcement of the client's death, the manager loop and the deferred
  start. The lemmas follow the attempts by rule induction on \<open>attempts\<close>.
\<close>

section \<open>The death notice\<close>

lemma sendNotifyDead_result:
  assumes "client_ok c" and "sendNotifyDead sched now c (Some e) = Some c'"
  shows "client_ok c'" and "\<exists>xs. notices c' = xs @ [\<lparr>ne_Time = now, ne_Err = e\<rparr>]"
    and "frame c c'" and "memory c' = memory c"
proof -
  let ?v = "\<lparr>ne_Time = now, ne_Err = e\<rparr>"
  from assms(1) obtain n where n: "notifier c = Some n" "ch.bounded n" "0 < cap n"
    by (auto simp: client_ok_def)
  with assms(2) obtain n' ev where loop: "dead_loop sched ?v n [] = Some (n', ev)"
    and c': "c' = fold (\<lambda>x. log_add (''audit.Client notifier channel is full, evicting notification for the client death notice'', Some (ne_Err x))) ev (c\<lparr>notifier := Some n'\<rparr>)"
    by (auto simp: sendNotifyDead_def notice_def split: option.splits prod.splits)
  from dead_loop_result [OF loop n(2)] obtain xs where
    xs: "buf n' = xs @ [?v]" "ch.bounded n'" "cap n' = cap n" by blast
  have "queue c' = queue c" by (simp add: c' queue_def)
  with assms(1) xs n show "client_ok c'" by (simp add: client_ok_def c')
  show "\<exists>xs. notices c' = xs @ [?v]" using xs by (simp add: notices_def c')
  show "frame c c'" "memory c' = memory c" by (simp_all add: c')
qed

lemma client_ok_dead [simp]: "client_ok (c\<lparr>clientDead := b\<rparr>) = client_ok c"
  by (simp add: client_ok_def queue_def)

lemma client_ok_log_add [simp]: "client_ok (log_add l c) = client_ok c"
  by (simp add: client_ok_def queue_def log_add_def)

lemma log_add_simps [simp]:
  "memory (log_add l c) = memory c" "clientDead (log_add l c) = clientDead c"
  by (simp_all add: log_add_def)

lemma client_ok_close [simp]: "client_ok (closeAuditConn c a) = client_ok c"
  by (simp add: closeAuditConn_def)

section \<open>One attempt\<close>

definition cs_ok :: "mem \<Rightarrow> conn_state \<Rightarrow> bool" where
  "cs_ok m0 s \<longleftrightarrow> client_ok (cs_client s) \<and>
     (\<forall>x. record_ok m0 x \<longrightarrow> record_ok (memory (cs_client s)) x) \<and>
     (\<forall>m. cs_noop s = Some m \<longrightarrow> sender_ok m) \<and>
     (\<forall>m. cs_sender s = Some m \<longrightarrow> sender_ok m \<and> ms_ticker m = NilTicker)"

definition env_ok :: "mem \<Rightarrow> reconnect_env \<Rightarrow> bool" where
  "env_ok m0 e \<longleftrightarrow> (\<forall>n. list_all (round_ok m0) (re_noop e n) \<and>
     list_all (other_ok m0) (re_others e n))"

text \<open>The caller's \<open>CreateConn\<close> returns a nil connection without an error at some attempt: \<open>newSender\<close> panics.\<close>

definition nil_conn :: "reconnect_env \<Rightarrow> bool" where
  "nil_conn e \<longleftrightarrow> (\<exists>n. re_create e n = Inr None)"

text \<open>What an attempt leaves alone. Only on a host other than Linux may it close a connection.\<close>

definition kept :: "Client \<Rightarrow> Client \<Rightarrow> bool" where
  "kept c c' \<longleftrightarrow> clientDead c' = clientDead c \<and> goos c' = goos c \<and> maxClosers c' = maxClosers c \<and>
     (log c' = None \<longleftrightarrow> log c = None) \<and>
     (goos c = ''linux'' \<longrightarrow> set (closers c') \<subseteq> set (closers c))"

lemma frame_kept: "frame c c' \<Longrightarrow> kept c c'"
  by (simp add: frame_def kept_def)

lemma kept_trans: "kept a b \<Longrightarrow> kept b c \<Longrightarrow> kept a c"
  by (auto simp: kept_def)

lemma kept_refl [simp]: "kept c c"
  by (simp add: kept_def)

lemma kept_close: "goos c \<noteq> ''linux'' \<Longrightarrow> kept c (closeAuditConn c a)"
  by (simp add: kept_def closeAuditConn_def)

lemma run_noop_ok:
  assumes "cs_ok m0 s" and "list_all (round_ok m0) rs"
  obtains s' where "run_noop rs s = Done s'" "cs_ok m0 s'" "frame (cs_client s) (cs_client s')"
    "cs_sender s' = cs_sender s" "cs_noop s = None \<Longrightarrow> s' = s"
proof (cases "cs_noop s")
  case None
  with assms that show ?thesis by (simp add: run_noop_def)
next
  case (Some m)
  from assms Some have ok: "client_ok (cs_client s)" "sender_ok m"
    and mono: "\<And>x. record_ok m0 x \<Longrightarrow> record_ok (memory (cs_client s)) x"
    by (auto simp: cs_ok_def)
  have "list_all (round_ok (memory (cs_client s))) rs" by (rule round_ok_mono [OF mono assms(2)])
  from sender_run [OF ok this, of "[]"] have post:
    "run_post rs (memory (cs_client s)) (sender rs m (cs_client s) [])" .
  show ?thesis
  proof (cases "sender rs m (cs_client s) []")
    case (Running m' c' os)
    have "frame (cs_client s) c'" by (rule frame_sender [of rs m _ "[]"]) (simp add: Running)
    with Running post Some assms(1) mono show ?thesis
      by (intro that [of "s\<lparr>cs_noop := Some m', cs_client := c'\<rparr>"])
         (auto simp: run_noop_def run_post_def cs_ok_def)
  next
    case (Returned r m' c' os)
    have "frame (cs_client s) c'" by (rule frame_sender [of rs m _ "[]"]) (simp add: Returned)
    with Returned post Some assms(1) mono show ?thesis
      by (intro that [of "s\<lparr>cs_noop := None, cs_client := c'\<rparr>"])
         (auto simp: run_noop_def run_post_def cs_ok_def)
  next
    case Crashed
    with post show ?thesis by (simp add: run_post_def)
  qed
qed

text \<open>One attempt: it comes back and keeps what it must, or panics on a nil connection.\<close>

definition attempt_post ::
  "mem \<Rightarrow> conn_state \<Rightarrow> goerr option \<Rightarrow> conn_state \<Rightarrow> bool" where
  "attempt_post m0 s r s' \<longleftrightarrow> cs_ok m0 s' \<and> kept (cs_client s) (cs_client s') \<and>
     (r = None \<longrightarrow> cs_sender s' \<noteq> None)"

lemma cs_ok_client:
  assumes "cs_ok m0 s" and "client_ok c" and "\<And>x. record_ok m0 x \<Longrightarrow> record_ok (memory c) x"
  shows "cs_ok m0 (s\<lparr>cs_client := c\<rparr>)"
  using assms by (simp add: cs_ok_def)

lemma cs_ok_sender:
  assumes "cs_ok m0 s" and "client_ok c" and "\<And>x. record_ok m0 x \<Longrightarrow> record_ok (memory c) x"
    and "\<And>m. sn = Some m \<Longrightarrow> sender_ok m \<and> ms_ticker m = NilTicker"
  shows "cs_ok m0 (s\<lparr>cs_sender := sn, cs_client := c\<rparr>)"
  using assms by (simp add: cs_ok_def)

lemma attempt_ok:
  assumes "cs_ok m0 s" and "env_ok m0 e"
  obtains (returns) r s' where "attempt h e n s = Done (r, s')" "attempt_post m0 s r s'"
    | (panics) "attempt h e n s = Panics" "re_create e n = Inr None"
proof -
  note found = returns and crash = panics
  from assms(2) have env: "list_all (round_ok m0) (re_noop e n)" "list_all (other_ok m0) (re_others e n)"
    by (auto simp: env_ok_def)
  obtain s1 where s1: "run_noop (re_noop e n) s = Done s1" "cs_ok m0 s1" "frame (cs_client s) (cs_client s1)"
    using run_noop_ok [OF assms(1) env(1)] by blast
  let ?c = "others (re_others e n) (cs_client s1)"
  from s1(2) have ok1: "client_ok (cs_client s1)"
    and mono1: "\<And>x. record_ok m0 x \<Longrightarrow> record_ok (memory (cs_client s1)) x"
    by (auto simp: cs_ok_def)
  from others_ok [OF ok1 other_ok_mono [OF mono1 env(2)]] have ok: "client_ok ?c"
    and mono: "\<And>x. record_ok m0 x \<Longrightarrow> record_ok (memory ?c) x"
    using mono1 by (auto simp: others_effect_def)
  have kept: "kept (cs_client s) ?c"
    using frame_kept frame_trans [OF s1(3) frame_others] by blast
  have step: "attempt h e n s = (if closers_Running ?c > maxClosers ?c
      then Done (Some (errorf (''%w ('' @ itoa (closers_Running ?c) @ '' > '' @ itoa (maxClosers ?c) @ ''): %w'')
             [errTooManyClosers, ErrPermanent]), s1\<lparr>cs_client := ?c\<rparr>)
      else bind_outcome (createSender h (re_create e n) ?c) (\<lambda>(err, sn, c1).
        case err of
          Some x \<Rightarrow> Done (Some x, s1\<lparr>cs_sender := sn, cs_client :=
             sendNotify (re_now e n) c1 (Some (errorf ''audit.Client connection error: %w'' [x]))\<rparr>)
        | None \<Rightarrow> Done (None, s1\<lparr>cs_sender := sn, cs_client := c1\<rparr>)))"
    by (simp add: attempt_def s1(1) Let_def)
  have give_up: ?thesis if guard: "\<not> closers_Running ?c > maxClosers ?c"
    and fail: "createSender h (re_create e n) ?c = Done (Some x, None, d)"
    and d: "client_ok d" "memory d = memory ?c" "kept ?c d" for x d
  proof -
    let ?d = "sendNotify (re_now e n) d (Some (errorf ''audit.Client connection error: %w'' [x]))"
    have "kept (cs_client s) ?d" by (rule kept_trans [OF kept kept_trans [OF d(3) frame_kept]]) simp
    moreover have "cs_ok m0 (s1\<lparr>cs_sender := None, cs_client := ?d\<rparr>)"
      by (rule cs_ok_sender [OF s1(2)]) (use d mono in \<open>simp_all add: sendNotify_ok\<close>)
    ultimately have "attempt_post m0 s (Some x) (s1\<lparr>cs_sender := None, cs_client := ?d\<rparr>)"
      by (simp add: attempt_post_def)
    moreover have "attempt h e n s = Done (Some x, s1\<lparr>cs_sender := None, cs_client := ?d\<rparr>)"
      using guard by (simp add: step fail)
    ultimately show ?thesis by (rule found [rotated])
  qed
  show ?thesis
  proof (cases "closers_Running ?c > maxClosers ?c")
    case True
    have "attempt_post m0 s (Some y) (s1\<lparr>cs_client := ?c\<rparr>)" for y
      using kept cs_ok_client [OF s1(2) ok mono] by (simp add: attempt_post_def)
    with True step show ?thesis using found by simp
  next
    case guard: False
    show ?thesis
    proof (cases rule: created_cases [of "re_create e n" h ?c])
      case (made a)
      let ?s = "s1\<lparr>cs_sender := Some (fresh_sender h ?c a), cs_client := ?c\<rparr>"
      have "createSender h (re_create e n) ?c = Done (None, Some (fresh_sender h ?c a), ?c)"
        using made by (simp add: createSender_eq [OF ok] conn_failure_def)
      then have "attempt h e n s = Done (None, ?s)" using guard by (simp add: step)
      moreover have "cs_ok m0 ?s"
        by (rule cs_ok_sender [OF s1(2) ok mono]) auto
      with kept have "attempt_post m0 s None ?s" by (simp add: attempt_post_def)
      ultimately show ?thesis by (rule found)
    next
      case (refused a)
      from refused have "goos ?c \<noteq> ''linux''" by (auto simp: usable_def)
      then have k: "kept ?c (closeAuditConn ?c a)" by (rule kept_close)
      have "createSender h (re_create e n) ?c = Done (Some not_linux, None, closeAuditConn ?c a)"
        using refused by (simp add: createSender_eq [OF ok] conn_failure_def closed_unused_def)
      from give_up [OF guard this _ _ k] ok show ?thesis by (simp add: closeAuditConn_def [of ?c])
    next
      case (failed err)
      have "createSender h (re_create e n) ?c =
          Done (Some (errorf ''failed to create audit connection: %w'' [err]), None, ?c)"
        using failed by (simp add: createSender_eq [OF ok] conn_failure_def closed_unused_def)
      from give_up [OF guard this ok]
      show ?thesis by simp
    next
      case null
      then have "attempt h e n s = Panics"
        using guard by (simp add: step createSender_eq [OF ok])
      then show ?thesis using null by (rule crash)
    qed
  qed
qed

lemma attempts_ok:
  "attempts (attempt h e) s n s' \<Longrightarrow> cs_ok m0 s \<Longrightarrow> env_ok m0 e \<Longrightarrow>
   cs_ok m0 s' \<and> kept (cs_client s) (cs_client s')"
proof (induction rule: attempts.induct)
  case (failed_attempt n s1 err s2)
  then have "cs_ok m0 s1" "kept (cs_client s) (cs_client s1)" by auto
  from this(1) failed_attempt.prems(2) have "attempt_post m0 s1 (Some err) s2"
    by (rule attempt_ok [where h = h and n = n]) (use failed_attempt.hyps(2) in simp_all)
  with \<open>kept (cs_client s) (cs_client s1)\<close> show ?case
    by (auto simp: attempt_post_def intro: kept_trans)
qed simp

section \<open>Reconnecting\<close>

text \<open>
  The death notice of a reconnect, and what can be the cause it reports: a permanent error or, only where the
  back-off's context may be cancelled, the cancellation.
\<close>

definition death_notice :: "reconnect_env \<Rightarrow> goerr \<Rightarrow> NotifyError" where
  "death_notice e cause = \<lparr>ne_Time = re_dead_now e, ne_Err =
     errorf ''audit.Client connection error: stopping connection manager: %w'' [cause]\<rparr>"

definition can_end :: "retry \<Rightarrow> goerr \<Rightarrow> bool" where
  "can_end R cause \<longleftrightarrow> permanent cause \<or> \<not> retry_uncancelled R \<and> errors_is cause SRetryCanceled"

definition announced :: "retry \<Rightarrow> reconnect_env \<Rightarrow> Client \<Rightarrow> bool" where
  "announced R e c \<longleftrightarrow> clientDead c \<and>
     (\<exists>cause xs. notices c = xs @ [death_notice e cause] \<and> can_end R cause)"

definition reconnect_post ::
  "retry \<Rightarrow> mem \<Rightarrow> reconnect_env \<Rightarrow> conn_state \<Rightarrow> conn_state \<Rightarrow> bool" where
  "reconnect_post R m0 e s s' \<longleftrightarrow> cs_ok m0 s' \<and> goos (cs_client s') = goos (cs_client s) \<and>
     (log (cs_client s') = None \<longleftrightarrow> log (cs_client s) = None) \<and>
     (goos (cs_client s) = ''linux'' \<longrightarrow> set (closers (cs_client s')) \<subseteq> set (closers (cs_client s))) \<and>
     (if cs_sender s' = None then announced R e (cs_client s')
      else clientDead (cs_client s') = clientDead (cs_client s))"

lemma notices_dead [simp]: "notices (c\<lparr>clientDead := b\<rparr>) = notices c"
  by (simp add: notices_def)

lemma cs_ok_dead:
  assumes "cs_ok m0 s" and "sendNotifyDead sched now (cs_client s) (Some e) = Some c2"
  shows "cs_ok m0 (s\<lparr>cs_sender := None, cs_client := c2\<lparr>clientDead := True\<rparr>\<rparr>)"
proof -
  from assms(1) have ok: "client_ok (cs_client s)"
    and mono: "\<And>x. record_ok m0 x \<Longrightarrow> record_ok (memory (cs_client s)) x" by (auto simp: cs_ok_def)
  from sendNotifyDead_result [OF ok assms(2)]
  have "client_ok (c2\<lparr>clientDead := True\<rparr>)" "memory (c2\<lparr>clientDead := True\<rparr>) = memory (cs_client s)"
    by simp_all
  with mono show ?thesis by (intro cs_ok_sender [OF assms(1)]) simp_all
qed

lemma reconnect_died:
  assumes "cs_ok m0 s1" and "kept (cs_client s) (cs_client s1)"
    and "can_end R cause"
    and "sendNotifyDead (re_sched e) (re_dead_now e) (cs_client s1)
       (Some (errorf ''audit.Client connection error: stopping connection manager: %w'' [cause])) = Some c2"
  shows "reconnect_post R m0 e s (s1\<lparr>cs_sender := None, cs_client := c2\<lparr>clientDead := True\<rparr>\<rparr>)"
proof -
  from assms(1) have ok: "client_ok (cs_client s1)" by (simp add: cs_ok_def)
  note d = sendNotifyDead_result [OF ok assms(4)]
  from d(3) have "kept (cs_client s) c2" by (intro kept_trans [OF assms(2)] frame_kept)
  moreover have "announced R e (c2\<lparr>clientDead := True\<rparr>)"
    using d(2) assms(3) by (auto simp: announced_def death_notice_def)
  ultimately show ?thesis
    using cs_ok_dead [OF assms(1,4)] by (auto simp: reconnect_post_def kept_def)
qed

lemma retry_ends:
  assumes "retry_contract R" and "R op s = Some out"
  obtains n s' where "attempts op s n s'" "retry_done (op n s') out \<or>
    (\<exists>cause. out = Done (Some cause, s') \<and> \<not> retry_uncancelled R \<and> errors_is cause SRetryCanceled)"
proof (cases "retry_uncancelled R")
  case True
  from this [unfolded retry_uncancelled_def, rule_format, OF assms(2)] that show ?thesis by blast
next
  case False
  from assms(1) [unfolded retry_contract_def, rule_format, OF assms(2)] that False show ?thesis
    unfolding retry_end_def by blast
qed

text \<open>A death for a cause: the notice is out, and the client is marked.\<close>

lemma reconnect_dies:
  assumes "cs_ok m0 s1" and "kept (cs_client s) (cs_client s1)" and "can_end R cause"
    and "R (attempt h e) (s\<lparr>cs_sender := None\<rparr>) = Some (Done (Some cause, s1))"
    and "reconnect R h e s = Some res"
  shows "\<exists>s'. res = Done s' \<and> reconnect_post R m0 e s s'"
proof -
  from assms(4,5) obtain c2 where c2: "sendNotifyDead (re_sched e) (re_dead_now e) (cs_client s1)
      (Some (errorf ''audit.Client connection error: stopping connection manager: %w'' [cause])) = Some c2"
    "res = Done (s1\<lparr>cs_sender := None, cs_client := c2\<lparr>clientDead := True\<rparr>\<rparr>)"
    by (auto simp: reconnect_def split: option.splits)
  with reconnect_died [OF assms(1-3) c2(1)] show ?thesis by blast
qed

lemma reconnect_lemma:
  assumes R: "retry_contract R" and s: "cs_ok m0 s" and env: "env_ok m0 e"
    and res: "reconnect R h e s = Some res"
  obtains (returns) s' where "res = Done s'" "reconnect_post R m0 e s s'"
    | (panics) "res = Panics" "nil_conn e"
proof -
  let ?s = "s\<lparr>cs_sender := None\<rparr>" and ?op = "attempt h e"
  have s0: "cs_ok m0 ?s" using s by (simp add: cs_ok_def)
  from res obtain out where out: "R ?op ?s = Some out"
    by (auto simp: reconnect_def split: option.splits)
  obtain n s1 where n: "attempts ?op ?s n s1" "retry_done (?op n s1) out \<or>
      (\<exists>cause. out = Done (Some cause, s1) \<and> \<not> retry_uncancelled R \<and> errors_is cause SRetryCanceled)"
    by (rule retry_ends [OF R out])
  from attempts_ok [OF n(1) s0 env] have s1: "cs_ok m0 s1" "kept (cs_client s) (cs_client s1)" by simp_all
  show ?thesis
  proof (cases "retry_done (?op n s1) out")
    case False
    with n(2) obtain cause where "out = Done (Some cause, s1)" "can_end R cause"
      by (auto simp: can_end_def)
    with reconnect_dies [OF s1 _ _ res] out that show ?thesis by blast
  next
    case True
    from s1(1) env show ?thesis
    proof (cases rule: attempt_ok [where h = h and n = n])
      case panics
      with True have "out = Panics" by (simp add: retry_done_def)
      with res out panics(2) show ?thesis
        by (intro that(2)) (auto simp: reconnect_def nil_conn_def)
    next
      case (returns r s2)
      then have s2: "cs_ok m0 s2" "kept (cs_client s) (cs_client s2)" "r = None \<longrightarrow> cs_sender s2 \<noteq> None"
        using kept_trans [OF s1(2)] by (auto simp: attempt_post_def)
      from True returns(1) consider (made) "r = None" "out = Done (None, s2)"
        | (dead) cause where "permanent cause" "out = Done (Some cause, s2)"
        by (auto simp: retry_done_def)
      then show ?thesis
      proof cases
        case made
        then have "res = Done s2" using res out by (simp add: reconnect_def)
        moreover from made s2 have "reconnect_post R m0 e s s2"
          by (auto simp: reconnect_post_def kept_def)
        ultimately show ?thesis by (rule that(1))
      next
        case (dead cause)
        with reconnect_dies [OF s2(1,2) _ _ res] out that show ?thesis by (auto simp: can_end_def)
      qed
    qed
  qed
qed

lemma reconnect_alive:
  "reconnect_post R m0 e s s' \<Longrightarrow> cs_sender s' = Some m \<Longrightarrow>
   clientDead (cs_client s') = clientDead (cs_client s)"
  by (simp add: reconnect_post_def)

text \<open>
  C14. How a reconnect ends, for any \<open>Retry\<close> that keeps its contract. If it comes back without a panic, the client's
  invariant holds, and either it has a fresh sender and the client is as alive as before, or the client is
  dead and the newest entry of the notification channel reports the cause: a permanent error or, if the back-off's
  context can be cancelled, the cancellation. It panics only if the caller's \<open>CreateConn\<close> returned a nil connection.
\<close>

theorem reconnect_outcome:
  assumes "retry_contract R" and "client_ok c" and "env_ok (memory c) e"
    and "reconnect R h e \<lparr>cs_noop = None, cs_sender = None, cs_client = c\<rparr> = Some res"
  shows "case res of
      Blocked \<Rightarrow> False
    | Panics \<Rightarrow> \<exists>n. re_create e n = Inr None
    | Done s \<Rightarrow> client_ok (cs_client s) \<and>
        (case cs_sender s of
           Some m \<Rightarrow> sender_ok m \<and> ms_ticker m = NilTicker \<and> clientDead (cs_client s) = clientDead c
         | None \<Rightarrow> clientDead (cs_client s) \<and>
             (\<exists>cause xs. notices (cs_client s) = xs @ [death_notice e cause] \<and>
                (permanent cause \<or> \<not> retry_uncancelled R \<and> errors_is cause SRetryCanceled)))"
proof -
  let ?s = "\<lparr>cs_noop = None, cs_sender = None, cs_client = c\<rparr>"
  have "cs_ok (memory c) ?s" using assms(2) by (simp add: cs_ok_def)
  from assms(1) this assms(3,4) show ?thesis
    by (rule reconnect_lemma)
       (auto simp: reconnect_post_def cs_ok_def announced_def can_end_def nil_conn_def split: option.split)
qed

text \<open>A back-off that is cancelled after \<open>k\<close> attempts keeps the contract.\<close>

fun retry_loop ::
  "nat \<Rightarrow> nat \<Rightarrow> (nat \<Rightarrow> 's \<Rightarrow> (goerr option \<times> 's) outcome) \<Rightarrow> 's
     \<Rightarrow> (goerr option \<times> 's) outcome option" where
  "retry_loop 0 n op s = Some (Done (Some ErrRetryCanceled, s))"
| "retry_loop (Suc k) n op s =
     (case op n s of
        Blocked \<Rightarrow> None
      | Panics \<Rightarrow> Some Panics
      | Done (None, s') \<Rightarrow> Some (Done (None, s'))
      | Done (Some e, s') \<Rightarrow>
          if permanent e then Some (Done (Some e, s')) else retry_loop k (Suc n) op s')"

lemma retry_loop_end:
  "attempts op s0 n s \<Longrightarrow> retry_loop k n op s = Some res \<Longrightarrow>
   \<exists>n' s'. attempts op s0 n' s' \<and> retry_end (op n' s') s' res"
proof (induction k arbitrary: n s)
  case 0
  then show ?case by (intro exI [of _ n] exI [of _ s]) (auto simp: retry_end_def retry_done_def)
next
  case (Suc k)
  show ?case
  proof (cases "op n s")
    case (Done y)
    obtain r s' where y: "y = (r, s')" by fastforce
    show ?thesis
    proof (cases "\<exists>e. r = Some e \<and> \<not> permanent e")
      case True
      then obtain e where e: "r = Some e" "\<not> permanent e" by blast
      with Suc.prems Done y have "attempts op s0 (Suc n) s'" "retry_loop k (Suc n) op s' = Some res"
        by (auto intro: attempts.failed_attempt)
      then show ?thesis by (rule Suc.IH)
    next
      case False
      with Suc.prems Done y have "retry_end (op n s) s res"
        by (cases r) (auto simp: retry_end_def retry_done_def)
      with Suc.prems(1) show ?thesis by blast
    qed
  qed (use Suc.prems in \<open>auto simp: retry_end_def retry_done_def\<close>)
qed

definition retry_for :: "nat \<Rightarrow> retry" where
  "retry_for k op s = retry_loop k 0 op s"

lemma retry_for_contract: "retry_contract (retry_for k)"
  unfolding retry_contract_def retry_for_def
  by (intro allI impI) (rule retry_loop_end [OF attempts.no_attempt])

text \<open>An environment in which the first attempt fails and the second one fails for good.\<close>

definition sample_reconnect :: reconnect_env where
  "sample_reconnect = \<lparr>re_noop = (\<lambda>n. []), re_others = (\<lambda>n. []),
     re_create = (\<lambda>n. Inl (if n = 0 then ErrQueueFull else ErrValidation)), re_now = (\<lambda>n. int n),
     re_sched = [([], []), ([], [])], re_dead_now = 9\<rparr>"

lemma sample_reconnect_ok: "env_ok m sample_reconnect" "\<not> nil_conn sample_reconnect"
  by (simp_all add: env_ok_def nil_conn_def sample_reconnect_def)

lemma sample_reconnect_returns:
  "\<exists>res. reconnect (retry_for 5) sample_host sample_reconnect
     \<lparr>cs_noop = None, cs_sender = None, cs_client = sample_client\<rparr> = Some res"
  by (simp add: reconnect_def retry_for_def numeral_eq_Suc attempt_def run_noop_def sample_reconnect_def
      Let_def others_def createSender_def newSender_def closers_Running_def sample_client_def
      sendNotify_def notice_def TryPut_def make_chan_def sendNotifyDead_def dead_loop.simps TryGet_def)

theorem reconnect_outcome_witness:
  "\<exists>s. reconnect (retry_for 5) sample_host sample_reconnect
      \<lparr>cs_noop = None, cs_sender = None, cs_client = sample_client\<rparr> = Some (Done s) \<and>
     client_ok (cs_client s)"
proof -
  from sample_reconnect_returns obtain res where
    res: "reconnect (retry_for 5) sample_host sample_reconnect
      \<lparr>cs_noop = None, cs_sender = None, cs_client = sample_client\<rparr> = Some res" by blast
  from reconnect_outcome [OF retry_for_contract sample_client_ok sample_reconnect_ok(1) res] res sample_reconnect_ok(2)
  show ?thesis by (cases res) (auto simp: nil_conn_def)
qed

section \<open>The manager loop\<close>

definition gen_ok :: "mem \<Rightarrow> generation \<Rightarrow> bool" where
  "gen_ok m0 g \<longleftrightarrow> list_all (round_ok m0) (g_rounds g) \<and> env_ok m0 (g_re g)"

lemma env_ok_mono:
  assumes "\<And>x. record_ok m x \<Longrightarrow> record_ok m' x" and "env_ok m e"
  shows "env_ok m' e"
  using assms(2) round_ok_mono [of m m', OF assms(1)] other_ok_mono [of m m', OF assms(1)]
  by (auto simp: env_ok_def)

lemma gens_ok_mono:
  "(\<And>x. record_ok m x \<Longrightarrow> record_ok m' x) \<Longrightarrow> list_all (gen_ok m) gs \<Longrightarrow> list_all (gen_ok m') gs"
  using env_ok_mono [of m m'] round_ok_mono [of m m'] by (auto simp: gen_ok_def list_all_iff)

text \<open>What one client state of the manager keeps of the first one.\<close>

definition managed :: "Client \<Rightarrow> Client \<Rightarrow> bool" where
  "managed c c' \<longleftrightarrow> client_ok c' \<and> goos c' = goos c \<and>
     (goos c = ''linux'' \<longrightarrow> set (closers c') \<subseteq> set (closers c))"

definition cancels :: "generation \<Rightarrow> bool" where
  "cancels g \<longleftrightarrow> (\<exists>rd \<in> set (g_rounds g). rd_cancelled rd)"

definition manager_post :: "retry \<Rightarrow> generation list \<Rightarrow> Client \<Rightarrow> manager_status \<Rightarrow> bool" where
  "manager_post R gs c st \<longleftrightarrow> (case st of
       Failed \<Rightarrow> \<exists>g \<in> set gs. nil_conn (g_re g)
     | Waiting \<Rightarrow> True
     | Serving m c' \<Rightarrow> managed c c' \<and> sender_ok m \<and> clientDead c' = clientDead c
     | Ended c' \<Rightarrow> managed c c' \<and> (\<exists>g \<in> set gs. cancels g \<or> announced R (g_re g) c'))"

lemma managed_trans: "managed a b \<Longrightarrow> managed b c \<Longrightarrow> managed a c"
  by (auto simp: managed_def)

lemma managed_frame: "client_ok c' \<Longrightarrow> frame c c' \<Longrightarrow> managed c c'"
  by (auto simp: managed_def frame_def)

lemma manager_post_Cons:
  "manager_post R gs c1 st \<Longrightarrow> managed c c1 \<Longrightarrow> clientDead c1 = clientDead c \<Longrightarrow>
   manager_post R (g # gs) c st"
  using managed_trans [of c c1] by (auto simp: manager_post_def split: manager_status.splits)

lemma run_sender_post:
  assumes "client_ok c" and "sender_ok m" and "list_all (round_ok (memory c)) rs"
  shows "case run_sender once_err rs m c of
      Crashed \<Rightarrow> False
    | Running m' c' os \<Rightarrow> client_ok c' \<and> sender_ok m' \<and> frame c c'
    | Returned r m' c' os \<Rightarrow> client_ok c' \<and> frame c c' \<and>
        (\<forall>x. record_ok (memory c) x \<longrightarrow> record_ok (memory c') x) \<and>
        (r = None \<longrightarrow> (\<exists>rd \<in> set rs. rd_cancelled rd))"
proof (cases once_err)
  case (Some err)
  with assms show ?thesis by (simp add: run_sender_def)
next
  case None
  note post = sender_run [OF assms, of "[]"]
  show ?thesis
  proof (cases "sender rs m c []")
    case (Running m' c' os)
    then have "frame c c'" by (intro frame_sender [of rs m c "[]"]) simp
    with Running None post show ?thesis by (simp add: run_sender_def run_post_def)
  next
    case (Returned r m' c' os)
    then have "frame c c'" by (intro frame_sender [of rs m c "[]"]) simp
    with Returned None post show ?thesis by (simp add: run_sender_def run_post_def)
  next
    case Crashed
    with post show ?thesis by (simp add: run_post_def)
  qed
qed

lemma manager_lemma:
  assumes R: "retry_contract R"
  shows "client_ok c \<Longrightarrow> sender_ok m \<Longrightarrow> list_all (gen_ok (memory c)) gs \<Longrightarrow>
    manager_post R gs c (manageSender R h gs m c)"
proof (induction gs arbitrary: m c)
  case Nil
  then show ?case by (simp add: manager_post_def managed_def)
next
  case (Cons g gs)
  from Cons.prems(3) have g: "list_all (round_ok (memory c)) (g_rounds g)" "env_ok (memory c) (g_re g)"
    and gs: "list_all (gen_ok (memory c)) gs" by (simp_all add: gen_ok_def [of _ g])
  note run = run_sender_post [OF Cons.prems(1,2) g(1), of "g_once g"]
  show ?case
  proof (cases "run_sender (g_once g) (g_rounds g) m c")
    case (Running m' c' os)
    with run show ?thesis
      by (auto simp: manager_post_def intro: managed_frame) (auto simp: frame_def)
  next
    case Crashed
    with run show ?thesis by simp
  next
    case (Returned r m' c' os)
    with run have ok: "client_ok c'" "frame c c'"
      and mono: "\<And>x. record_ok (memory c) x \<Longrightarrow> record_ok (memory c') x"
      and nil: "r = None \<longrightarrow> cancels g" by (auto simp: cancels_def)
    show ?thesis
    proof (cases r)
      case None
      with Returned ok nil show ?thesis
        by (auto simp: manager_post_def sendNotify_ok intro!: managed_frame)
    next
      case (Some err)
      let ?c = "sendNotify (g_now g) c' (Some (errorf ''audit.Client connection error: %w'' [err]))"
      let ?s = "\<lparr>cs_noop = None, cs_sender = None, cs_client = ?c\<rparr>"
      have s: "cs_ok (memory c) ?s" using ok mono by (simp add: cs_ok_def sendNotify_ok)
      have mc: "managed c ?c" by (rule managed_frame) (use ok in \<open>simp_all add: sendNotify_ok\<close>)
      have dead_same: "clientDead ?c = clientDead c" using ok(2) by (simp add: frame_def)
      show ?thesis
      proof (cases "reconnect R h (g_re g) ?s")
        case None
        with Returned Some show ?thesis by (simp add: manager_post_def)
      next
        case res: (Some res)
        from R s g(2) res consider (panics) "res = Panics" "nil_conn (g_re g)"
          | (returns) s' where "res = Done s'" "reconnect_post R (memory c) (g_re g) ?s s'"
          by (rule reconnect_lemma)
        then show ?thesis
        proof cases
          case panics
          with Returned Some res show ?thesis by (simp add: manager_post_def)
        next
          case s': (returns s')
          from s'(2) have ms: "managed ?c (cs_client s')" "client_ok (cs_client s')"
            and mono': "\<And>x. record_ok (memory c) x \<Longrightarrow> record_ok (memory (cs_client s')) x"
            by (auto simp: reconnect_post_def managed_def cs_ok_def)
          note mcs = managed_trans [OF mc ms(1)]
          show ?thesis
          proof (cases "cs_sender s'")
            case None
            with s'(2) have "announced R (g_re g) (cs_client s')" by (simp add: reconnect_post_def)
            with Returned Some res s'(1) None mcs show ?thesis by (simp add: manager_post_def)
          next
            case m2: (Some m2)
            with s'(2) have "sender_ok m2" "clientDead (cs_client s') = clientDead c"
              using dead_same by (auto simp: reconnect_post_def cs_ok_def)
            with manager_post_Cons [OF Cons.IH [OF ms(2) this(1) gens_ok_mono [OF mono' gs]] mcs this(2)]
            show ?thesis using Returned Some res s'(1) m2 by simp
          qed
        qed
      qed
    qed
  qed
qed

text \<open>
  C15. The manager loop, over any number of generations of senders and reconnects. It panics only if \<open>CreateConn\<close> gave
  a nil connection, and otherwise keeps the client's invariant; while it serves, the client is exactly as alive
  as at the start; and with the background context, which is never cancelled, it ends only on a dead
  client whose newest notification reports the cause of the death.
\<close>

theorem manager_ends_announced:
  assumes "retry_contract R" and "client_ok c" and "sender_ok m" and "list_all (gen_ok (memory c)) gs"
    and "\<not> list_ex cancels gs"
  shows "case manageSender R h gs m c of
      Failed \<Rightarrow> \<exists>g \<in> set gs. nil_conn (g_re g)
    | Waiting \<Rightarrow> True
    | Serving m' c' \<Rightarrow> client_ok c' \<and> sender_ok m' \<and> clientDead c' = clientDead c
    | Ended c' \<Rightarrow> client_ok c' \<and> (\<exists>g \<in> set gs. announced R (g_re g) c')"
  using manager_lemma [OF assms(1-4), of h] assms(5)
  by (auto simp: manager_post_def managed_def list_ex_iff split: manager_status.splits)

definition sample_generation :: generation where
  "sample_generation = \<lparr>g_once = None, g_rounds = [sample_round MsgReady sample_env,
      sample_round MsgReady broken_env], g_now = 3, g_re = sample_reconnect\<rparr>"

lemma sample_round_ok: "round_ok sample_mem (sample_round ev sample_env)" "round_ok sample_mem (sample_round ev broken_env)"
  using sample_ok by (simp_all add: round_ok_def sample_round_def)

lemma sample_generation_ok: "gen_ok sample_mem sample_generation" "\<not> cancels sample_generation"
  "\<not> nil_conn (g_re sample_generation)"
  using sample_round_ok sample_reconnect_ok
  by (auto simp: gen_ok_def cancels_def sample_generation_def sample_round_def)

theorem manager_ends_announced_witness:
  "manageSender (retry_for 5) sample_host [sample_generation] sample_sender sample_loaded \<noteq> Failed"
  using manager_ends_announced [OF retry_for_contract sample_loaded_ok sample_sender_ok,
      of "[sample_generation]" 5 sample_host] sample_generation_ok
  by auto

section \<open>The background task\<close>

definition deferred_ok :: "mem \<Rightarrow> deferred_env \<Rightarrow> bool" where
  "deferred_ok m0 e \<longleftrightarrow> env_ok m0 (df_re e) \<and> list_all (round_ok m0) (df_last e)"

text \<open>The client the manager works on, where its state shows it.\<close>

fun manager_client :: "manager_status \<Rightarrow> Client option" where
  "manager_client (Serving m c) = Some c"
| "manager_client Waiting = None"
| "manager_client (Ended c) = Some c"
| "manager_client Failed = None"

definition may_panic :: "deferred_env \<Rightarrow> generation list \<Rightarrow> task \<Rightarrow> Client \<Rightarrow> bool" where
  "may_panic e gs t c \<longleftrightarrow> (\<exists>g \<in> set gs. nil_conn (g_re g)) \<or>
     (\<exists>noop err. t = DeferredTask noop err \<and> (log c = None \<or> nil_conn (df_re e)))"

definition task_post :: "deferred_env \<Rightarrow> generation list \<Rightarrow> task \<Rightarrow> Client \<Rightarrow> manager_status \<Rightarrow> bool" where
  "task_post e gs t c st \<longleftrightarrow> (case st of
       Failed \<Rightarrow> may_panic e gs t c
     | Waiting \<Rightarrow> True
     | Serving m c' \<Rightarrow> managed c c' \<and> sender_ok m \<and> clientDead c' = clientDead c
     | Ended c' \<Rightarrow> managed c c' \<and> (clientDead c' \<or> list_ex cancels gs))"

lemma manager_task_post:
  "manager_post R gs c1 st \<Longrightarrow> managed c c1 \<Longrightarrow> clientDead c1 = clientDead c \<Longrightarrow> task_post e gs t c st"
  using managed_trans [of c c1]
  by (auto simp: manager_post_def task_post_def announced_def may_panic_def list_ex_iff split: manager_status.splits)

lemma deferred_lemma:
  assumes R: "retry_contract R" and c: "client_ok c" and noop: "sender_ok noop"
    and e: "deferred_ok (memory c) e" and gs: "list_all (gen_ok (memory c)) gs"
  shows "task_post e gs (DeferredTask noop startErr) c (deferredConnect R h e gs noop startErr c)"
proof -
  let ?c1 = "sendNotify (df_now e) c
      (Some (errorf ''audit.Client initial connection failed, deferring connection: %w'' [startErr]))"
  let ?c2 = "log_add (''audit.Client initial connection failed, starting deferred connection'', Some startErr) ?c1"
  let ?s = "\<lparr>cs_noop = (if df_once e = None then Some noop else None), cs_sender = None, cs_client = ?c2\<rparr>"
  have mem2: "memory ?c2 = memory c" by (simp add: log_add_def)
  have ok2: "client_ok ?c2" using c by (simp add: sendNotify_ok)
  have m2: "managed c ?c2" by (rule managed_frame [OF ok2]) simp
  have dead2: "clientDead ?c2 = clientDead c" by (simp add: log_add_def)
  have s: "cs_ok (memory c) ?s" using ok2 noop mem2 by (simp add: cs_ok_def)
  from e have env: "env_ok (memory c) (df_re e)" "list_all (round_ok (memory c)) (df_last e)"
    by (simp_all add: deferred_ok_def)
  show ?thesis
  proof (cases "log c = None")
    case True
    then show ?thesis by (simp add: deferredConnect_def task_post_def may_panic_def)
  next
    case False
    then obtain l where log1: "log c = Some l" by blast
    show ?thesis
    proof (cases "reconnect R h (df_re e) ?s")
      case None
      with log1 show ?thesis by (simp add: deferredConnect_def task_post_def)
    next
      case (Some res)
      from R s env(1) Some consider (panics) "res = Panics" "nil_conn (df_re e)"
        | (returns) s1 where "res = Done s1" "reconnect_post R (memory c) (df_re e) ?s s1"
        by (rule reconnect_lemma)
      then show ?thesis
      proof cases
        case panics
        with log1 Some show ?thesis by (simp add: deferredConnect_def task_post_def may_panic_def)
      next
        case s1: (returns s1)
        then have ok1: "cs_ok (memory c) s1" by (simp add: reconnect_post_def)
        obtain s2 where s2: "run_noop (df_last e) s1 = Done s2" "cs_ok (memory c) s2"
          "frame (cs_client s1) (cs_client s2)" "cs_sender s2 = cs_sender s1"
          using run_noop_ok [OF ok1 env(2)] by blast
        from s1(2) have "managed ?c2 (cs_client s1)" by (auto simp: reconnect_post_def managed_def cs_ok_def)
        moreover from s2(2,3) have "managed (cs_client s1) (cs_client s2)"
          by (intro managed_frame) (auto simp: cs_ok_def)
        ultimately have m: "managed c (cs_client s2)" using m2 managed_trans by blast
        show ?thesis
        proof (cases "cs_sender s2")
          case None
          with s1(2) s2(3,4) have "clientDead (cs_client s2)"
            by (auto simp: reconnect_post_def announced_def frame_def)
          with log1 Some s1(1) s2(1) None m show ?thesis by (simp add: deferredConnect_def task_post_def)
        next
          case sdr: (Some sdr)
          let ?c3 = "log_add (''audit.Client deferred connection established, switching to real sender'', None) (cs_client s2)"
          have ok3: "client_ok ?c3" "sender_ok sdr" and mono: "\<And>x. record_ok (memory c) x \<Longrightarrow> record_ok (memory ?c3) x"
            using s2(2) sdr by (auto simp: cs_ok_def)
          have "managed (cs_client s2) ?c3" by (rule managed_frame [OF ok3(1)]) simp
          with m managed_trans have m3: "managed c ?c3" by blast
          from s2(4) sdr have "cs_sender s1 = Some sdr" by simp
          from reconnect_alive [OF s1(2) this] have "clientDead (cs_client s1) = clientDead ?c2" by simp
          with s2(3) dead2 have "clientDead ?c3 = clientDead c" by (simp add: frame_def)
          from manager_task_post [OF manager_lemma [OF R ok3 gens_ok_mono [OF mono gs], of h] m3 this]
          show ?thesis using log1 Some s1(1) s2(1) sdr by (simp add: deferredConnect_def task_post_def)
        qed
      qed
    qed
  qed
qed

definition task_ok :: "task \<Rightarrow> bool" where
  "task_ok t \<longleftrightarrow> (case t of ManageTask m \<Rightarrow> sender_ok m
     | DeferredTask noop err \<Rightarrow> sender_ok noop)"

lemma task_lemma:
  assumes "retry_contract R" and "client_ok c" and "task_ok t"
    and "deferred_ok (memory c) e" and "list_all (gen_ok (memory c)) gs"
  shows "task_post e gs t c (run_task R h e gs t c)"
proof (cases t)
  case (ManageTask m)
  with assms(3) have "sender_ok m" by (simp add: task_ok_def)
  from manager_task_post [OF manager_lemma [OF assms(1,2) this assms(5), of h], of c] assms(2)
  show ?thesis by (simp add: ManageTask run_task_def managed_def)
next
  case (DeferredTask noop err)
  with assms(3) have "sender_ok noop" by (simp add: task_ok_def)
  from deferred_lemma [OF assms(1,2) this assms(4,5)] show ?thesis
    by (simp add: DeferredTask run_task_def)
qed

text \<open>
  C16. The background task of a client, direct or deferred: it panics only in a deferred start with a nil logger, or when
  the caller's \<open>CreateConn\<close> returns a nil connection without an error. Otherwise it keeps the client's
  invariant through the hand-over from the no-op sender to the real one, and with a context that is never cancelled it
  ends only when the client is marked dead. So a client whose \<open>Send\<close> still accepts messages has a live
  background task, or has brought the program down.
\<close>

theorem task_safe:
  assumes "retry_contract R" and "client_ok c" and "task_ok t"
    and "deferred_ok (memory c) e" and "list_all (gen_ok (memory c)) gs" and "\<not> list_ex cancels gs"
  shows "case run_task R h e gs t c of
      Failed \<Rightarrow> (\<exists>g \<in> set gs. nil_conn (g_re g)) \<or>
        (\<exists>noop err. t = DeferredTask noop err \<and> (log c = None \<or> nil_conn (df_re e)))
    | Waiting \<Rightarrow> True
    | Serving m c' \<Rightarrow> client_ok c' \<and> sender_ok m \<and> clientDead c' = clientDead c
    | Ended c' \<Rightarrow> client_ok c' \<and> clientDead c'"
  using task_lemma [OF assms(1-5), of h] assms(6)
  by (auto simp: task_post_def managed_def may_panic_def split: manager_status.splits)

definition sample_deferred :: deferred_env where
  "sample_deferred = \<lparr>df_now = 1, df_once = None, df_re = sample_reconnect\<lparr>re_noop :=
      (\<lambda>n. [sample_round MsgReady sample_env])\<rparr>,
     df_last = [(sample_round MsgReady sample_env)\<lparr>rd_cancelled := True\<rparr>]\<rparr>"

lemma sample_deferred_ok: "deferred_ok sample_mem sample_deferred" "\<not> nil_conn (df_re sample_deferred)"
  using sample_round_ok(1) sample_ok
  by (simp_all add: deferred_ok_def sample_deferred_def env_ok_def nil_conn_def sample_reconnect_def round_ok_def
      sample_round_def)

lemma sample_loaded_log: "log sample_loaded \<noteq> None"
  by (simp add: sample_loaded_def sample_client_def)

theorem task_safe_witness:
  "run_task (retry_for 5) sample_host sample_deferred [sample_generation]
     (DeferredTask (fresh_sender sample_host sample_loaded NoOP) ErrQueueFull) sample_loaded \<noteq> Failed"
  using task_safe [OF retry_for_contract sample_loaded_ok, of
      "DeferredTask (fresh_sender sample_host sample_loaded NoOP) ErrQueueFull" sample_deferred
      "[sample_generation]" 5 sample_host]
    sample_deferred_ok sample_generation_ok sample_loaded_log
  by (auto simp: task_ok_def)

text \<open>
  C33. On Linux no connection is ever closed: starting from a client with no background close, as
  \<open>New\<close> makes it, the group of background closes stays empty through every generation. The
  connection of a sender that failed is dropped without \<open>CloseSend\<close>, and the guard of
  \<open>reconnect\<close> that counts running closes never sees one.
\<close>

theorem no_close_on_linux:
  assumes "retry_contract R" and "client_ok c" and "task_ok t"
    and "deferred_ok (memory c) e" and "list_all (gen_ok (memory c)) gs"
    and "goos c = ''linux''" and "closers c = []"
    and "manager_client (run_task R h e gs t c) = Some c'"
  shows "closers c' = []"
  using task_lemma [OF assms(1-5), of h] assms(6-8)
  by (cases "run_task R h e gs t c") (auto simp: task_post_def managed_def)

theorem no_close_on_linux_witness:
  "\<exists>c'. manager_client (run_task (retry_for 5) sample_host sample_deferred []
       (ManageTask sample_sender) sample_loaded) = Some c' \<and> closers c' = []"
  using no_close_on_linux [OF retry_for_contract sample_loaded_ok, of "ManageTask sample_sender" sample_deferred
      "[]" 5 sample_host sample_loaded] sample_deferred_ok sample_sender_ok
  by (simp add: task_ok_def run_task_def sample_loaded_def sample_client_def)

text \<open>
  C34. A nil logger breaks a deferred start: with \<open>WithLogger(nil)\<close> and \<open>WithDeferredConnection\<close>, when
  the first connection fails in a retryable way, \<open>New\<close> returns a client, and the background
  task that should serve it panics at once.
\<close>

theorem nil_logger_deferred_panics:
  assumes "New h ustr None mem uid (Inl err) [WithLogger None, WithDeferredConnection] = Done (Inr c, Some t)"
  shows "run_task R h e gs t c = Failed"
proof -
  let ?o = "[WithLogger None, WithDeferredConnection]"
  have std: "list_all std_option ?o" by (auto simp: std_option_def)
  from New_succeeds_configured [OF assms] obtain c0 where c0: "configures h ustr mem uid ?o c0" by blast
  have log: "log c0 = None"
    using c0 by (auto simp: configures_def WithLogger_def WithDeferredConnection_def)
  from configures_ready(1) [OF c0 std] have ok: "client_ok c0" by (simp add: ready_def)
  from assms New_configured [OF c0 std, of None "Inl err"] have "c = c0 \<and> (\<exists>n x. t = DeferredTask n x)"
    by (auto simp: startConnManager_eq [OF ok] conn_failure_def closed_unused_def handed_over_def
        split: if_splits)
  with log show ?thesis by (auto simp: run_task_def deferredConnect_def)
qed

theorem nil_logger_deferred_panics_witness:
  "\<exists>c t. sample_New (Inl ErrQueueFull) [WithLogger None, WithDeferredConnection] = Done (Inr c, Some t) \<and>
     run_task (retry_for 5) sample_host sample_deferred [] t c = Failed"
proof -
  let ?o = "[WithLogger None, WithDeferredConnection]"
  have "apply_options ?o sample_initial = Inr (sample_initial\<lparr>log := None, deferredConn := True\<rparr>)"
    by (simp add: WithLogger_def WithDeferredConnection_def)
  from sample_configures [OF this] have conf: "configures sample_host (\<lambda>u. ''id'') sample_mem 1 ?o
      (sample_initial\<lparr>log := None, deferredConn := True, sendCh := Some (make_chan 2048)\<rparr>)"
    (is "configures _ _ _ _ _ ?c")
    by (simp add: sample_initial_def initial_client_def DefaultQueueSize_def)
  have std: "list_all std_option ?o" by (auto simp: std_option_def)
  from configures_ready(1) [OF conf std] have ok: "client_ok ?c" by (simp add: ready_def)
  obtain c t where New: "sample_New (Inl ErrQueueFull) ?o = Done (Inr c, Some t)"
    by (simp add: sample_New_def New_configured [OF conf std] startConnManager_eq [OF ok]
        conn_failure_def closed_unused_def handed_over_def)
  from nil_logger_deferred_panics [OF New [unfolded sample_New_def]] New show ?thesis by blast
qed

end
