(* ===== verification/World.thy ===== *)
theory World
  imports ManagerRuns
begin

text \<open>
  The client at work as a step relation: users inside \<open>Send\<close>, the senders of the current and of earlier
  connections, the connection manager (direct or deferred start), background closes and the consumer
  of \<open>Notify\<close> take turns, and the user's program writes to its own records and allocates new ones. A step is one
  operation of the component theories. \<open>Send\<close> takes three: it loads whether the client is dead, checks the message, and
  puts it into the queue, so that the client may die or the queue fill between them. A write takes two: between
  the sender's taking a message, the return of the connection's write and what the sender does with its result any
  other step may happen, so a requeue meets a queue that users have filled. A history of what happened
  to every message is kept beside the program's state; no guard reads it. Where the program panics is
  the predicate \<open>crashes\<close>: such a state has no successor by the panicking goroutine, and the run ends there.
\<close>

section \<open>The state\<close>

text \<open>
  Where a sender is: there is none or its task has ended, it is in its \<open>select\<close>, it has taken
  a message and is about to write it, the connection has answered, it is about to write its first heartbeat, the
  connection has answered that, or its loop has returned an error.
\<close>

datatype sender_pc =
    Absent
  | Selecting msgSender
  | Holding msgSender Msg
  | Written msgSender Msg "goerr option"
  | Beating msgSender
  | BeatWritten msgSender "goerr option"
  | Broken msgSender goerr

text \<open>
  Where the manager is: a deferred start has yet to announce itself and start its no-op sender, it is about to start
  this sender, it waits for its sender to end, it is inside \<open>Retry\<close>, it has stopped the no-op
  sender and waits for it (with the sender that takes over, or none), \<open>Retry\<close> has given up
  with this error, the death notice is out, or the task has ended.
\<close>

datatype manager_pc =
    Deferring msgSender goerr
  | Launching msgSender
  | Supervising
  | Reconnecting
  | Stopping "msgSender option"
  | Dying goerr
  | Announced goerr
  | Gone

text \<open>A user's call inside \<open>Send\<close>: it found the client alive, or its message has also passed the check.\<close>

datatype call = Loaded Msg | Validated Msg

text \<open>
  A write a sender asked of its connection: its environment and the memory it read, the message, what the connection
  answered, and the calls it made on its network connection. A line is a connection with what its one sender wrote, in order; a new
  sender opens a new line, at the front; a note belongs to the line of the sender that wrote.
\<close>

record written_note =
  wn_net :: netenv
  wn_mem :: mem
  wn_msg :: Msg
  wn_result :: "goerr option"
  wn_ops :: "netop list"

type_synonym line = "audit_conn \<times> written_note list"

definition add_note :: "nat \<Rightarrow> written_note \<Rightarrow> line list \<Rightarrow> line list" where
  "add_note i n ls = (if i < length ls then ls[i := (fst (ls ! i), snd (ls ! i) @ [n])] else ls)"

lemma add_note_simps [simp]:
  "add_note i n [] = []" "add_note 0 n ((a, ns) # ls) = (a, ns @ [n]) # ls"
  by (simp_all add: add_note_def)

text \<open>
  The history: messages accepted by \<open>Send\<close>, put into the queue (accepted or requeued), taken from it,
  sent on a real connection, dropped; the number of heartbeats that were sent; the lines; and the
  notifications the user received.
\<close>

record history =
  accepted :: "Msg list"
  offered :: "Msg list"
  taken :: "Msg list"
  sent :: "Msg list"
  dropped :: "Msg list"
  beats :: nat
  line_log :: "line list"
  heard :: "NotifyError list"

text \<open>
  The state: the client, the sender started last and the senders started before it (newest first), the manager, the calls
  inside \<open>Send\<close>, and the history.
\<close>

record world =
  client :: Client
  sdr :: sender_pc
  mgr :: manager_pc
  old :: "sender_pc list"
  calls :: "call list"
  hist :: history

definition no_history :: history where
  "no_history = \<lparr>accepted = [], offered = [], taken = [], sent = [], dropped = [], beats = 0, line_log = [], heard = []\<rparr>"

definition noted :: "nat \<Rightarrow> netenv \<Rightarrow> Client \<Rightarrow> Msg \<Rightarrow> goerr option \<Rightarrow> netop list \<Rightarrow> history \<Rightarrow> history" where
  "noted i ne c msg r os h = h\<lparr>line_log := add_note i
     \<lparr>wn_net = ne, wn_mem = memory c, wn_msg = msg, wn_result = r, wn_ops = os\<rparr> (line_log h)\<rparr>"

definition new_line :: "msgSender \<Rightarrow> history \<Rightarrow> history" where
  "new_line m h = h\<lparr>line_log := (ms_conn m, []) # line_log h\<rparr>"

section \<open>Steps\<close>

text \<open>What a call of \<open>Send\<close> leaves in the history when it has put its message.\<close>

definition note_put :: "goerr option \<Rightarrow> Msg \<Rightarrow> history \<Rightarrow> history" where
  "note_put r msg h =
     (if r = None then h\<lparr>accepted := accepted h @ [msg], offered := offered h @ [msg]\<rparr> else h)"

definition checked :: "Client \<Rightarrow> Msg \<Rightarrow> call list" where
  "checked c msg = (case Send_check c msg of Inl err \<Rightarrow> [] | Inr msg' \<Rightarrow> [Validated msg'])"

text \<open>
  The write of the message the sender holds, and of a heartbeat: where the sender goes by the write's
  result, and what the history notes.
\<close>

definition after_message :: "msgSender \<Rightarrow> goerr option \<Rightarrow> sender_pc" where
  "after_message m r = (case r of
       Some err \<Rightarrow> Broken (Stop_ticker m) err
     | None \<Rightarrow> if ms_ticker m = NilTicker then Beating m else Selecting m)"

definition after_beat :: "msgSender \<Rightarrow> goerr option \<Rightarrow> sender_pc" where
  "after_beat m r = (case r of
       Some err \<Rightarrow> Broken (Stop_ticker m) err
     | None \<Rightarrow> Selecting (m\<lparr>ms_ticker := Ticking\<rparr>))"

definition note_message :: "msgSender \<Rightarrow> Client \<Rightarrow> Msg \<Rightarrow> goerr option \<Rightarrow> history \<Rightarrow> history" where
  "note_message m c msg r h =
     (if r = None
      then (if conn_Type (ms_conn m) = TypeNoOP then h\<lparr>dropped := dropped h @ [msg]\<rparr>
            else h\<lparr>sent := sent h @ [msg]\<rparr>)
      else if has_room c then h\<lparr>offered := offered h @ [msg]\<rparr>
      else h\<lparr>dropped := dropped h @ [msg]\<rparr>)"

definition note_beat :: "msgSender \<Rightarrow> goerr option \<Rightarrow> history \<Rightarrow> history" where
  "note_beat m r h =
     (if r = None \<and> conn_Type (ms_conn m) \<noteq> TypeNoOP then h\<lparr>beats := beats h + 1\<rparr> else h)"

definition note_other :: "other \<Rightarrow> Client \<Rightarrow> history \<Rightarrow> history" where
  "note_other x c h = h\<lparr>heard := heard h @
     (case (x, notices c) of (UserReceive, n # ns) \<Rightarrow> [n] | _ \<Rightarrow> [])\<rparr>"

text \<open>
  What the user's program may do to memory: allocate arrays and write any elements of any array. An
  array keeps its length.
\<close>

definition store_extends :: "'a store \<Rightarrow> 'a store \<Rightarrow> bool" where
  "store_extends st st' \<longleftrightarrow> next_addr st \<le> next_addr st' \<and>
     (\<forall>a < next_addr st. length (cells st' a) = length (cells st a))"

definition memory_extends :: "mem \<Rightarrow> mem \<Rightarrow> bool" where
  "memory_extends m m' \<longleftrightarrow> store_extends (cats m) (cats m') \<and> store_extends (lvls m) (lvls m')"

text \<open>The state \<open>Retry\<close>'s operation works on here: no-op senders run by their own steps.\<close>

definition bare :: "Client \<Rightarrow> conn_state" where
  "bare c = \<lparr>cs_noop = None, cs_sender = None, cs_client = c\<rparr>"

definition quiet :: "reconnect_env \<Rightarrow> bool" where
  "quiet e \<longleftrightarrow> (\<forall>n. re_noop e n = [] \<and> re_others e n = [])"

text \<open>The line a deferred start logs when the real sender takes over; a later hand-over logs none.\<close>

definition handover_log :: "Client \<Rightarrow> Client \<Rightarrow> bool" where
  "handover_log c c' \<longleftrightarrow> c' = c \<or> c' =
     log_add (''audit.Client deferred connection established, switching to real sender'', None) c"

text \<open>
  A step of a sender, on its program point, the client and the history; \<open>i\<close> is the number of its line. The context
  of a sender that has been told to stop is cancelled; the \<open>select\<close> may still take a message or a tick.
\<close>

inductive sender_step :: "nat \<Rightarrow> sender_pc \<times> Client \<times> history \<Rightarrow> sender_pc \<times> Client \<times> history \<Rightarrow> bool" for i where
  take_msg: "sendCh c = Some ch \<Longrightarrow> TryGet ch = (Some msg, ch') \<Longrightarrow>
    sender_step i (Selecting m, c, k)
      (Holding m msg, c\<lparr>sendCh := Some ch'\<rparr>, k\<lparr>taken := taken k @ [msg]\<rparr>)"
| write_msg: "conn_Write ne (memory c) (ms_conn m) msg = (r, mem', os) \<Longrightarrow>
    sender_step i (Holding m msg, c, k) (Written m msg r, c\<lparr>memory := mem'\<rparr>, noted i ne c msg r os k)"
| finish_msg: "finish_write now (ms_conn m) c msg r = Done c' \<Longrightarrow>
    sender_step i (Written m msg r, c, k) (after_message m r, c', note_message m c msg r k)"
| beat: "p = Beating m \<or> p = Selecting m \<and> ms_ticker m = Ticking \<Longrightarrow>
    conn_Write ne (memory c) (ms_conn m) (ms_heartbeat m) = (r, mem', os) \<Longrightarrow>
    sender_step i (p, c, k) (BeatWritten m r, c\<lparr>memory := mem'\<rparr>, noted i ne c (ms_heartbeat m) r os k)"
| finish_beat: "finish_write now (ms_conn m) c (ms_heartbeat m) r = Done c' \<Longrightarrow>
    sender_step i (BeatWritten m r, c, k) (after_beat m r, c', note_beat m r k)"

text \<open>A sender just started: its loop runs, or starting its task failed and the error is on its channel.\<close>

definition launched :: "msgSender \<Rightarrow> sender_pc \<Rightarrow> bool" where
  "launched m p \<longleftrightarrow> p = Selecting m \<or> (\<exists>err. p = Broken m err)"

inductive step :: "host \<Rightarrow> world \<Rightarrow> world \<Rightarrow> bool" for h where
  send_load: "\<not> clientDead (client w) \<Longrightarrow> record_ok (memory (client w)) (msg_Record msg) \<Longrightarrow>
    step h w (w\<lparr>calls := calls w @ [Loaded msg]\<rparr>)"
| send_check: "calls w = xs @ Loaded msg # ys \<Longrightarrow>
    step h w (w\<lparr>calls := xs @ checked (client w) msg @ ys\<rparr>)"
| send_put: "calls w = xs @ Validated msg # ys \<Longrightarrow> Send_put (client w) msg = (r, c) \<Longrightarrow>
    step h w (w\<lparr>client := c, calls := xs @ ys, hist := note_put r msg (hist w)\<rparr>)"
| other: "\<not> is_send x \<Longrightarrow> step h w (w\<lparr>client := other_step x (client w),
                hist := note_other x (client w) (hist w)\<rparr>)"
| user_memory: "memory_extends (memory (client w)) mem' \<Longrightarrow>
    step h w (w\<lparr>client := (client w)\<lparr>memory := mem'\<rparr>\<rparr>)"
| current: "sender_step 0 (sdr w, client w, hist w) (p, c, k) \<Longrightarrow>
    step h w (w\<lparr>client := c, sdr := p, hist := k\<rparr>)"
| earlier: "i < length (old w) \<Longrightarrow> sender_step (Suc i) (old w ! i, client w, hist w) (p, c, k) \<Longrightarrow>
    step h w (w\<lparr>client := c, old := (old w)[i := p], hist := k\<rparr>)"
| deferred_start: "mgr w = Deferring noop err \<Longrightarrow>
    c = sendNotify now (client w)
          (Some (errorf ''audit.Client initial connection failed, deferring connection: %w'' [err])) \<Longrightarrow>
    log c \<noteq> None \<Longrightarrow> launched noop p \<Longrightarrow>
    step h w (w\<lparr>client := log_add (''audit.Client initial connection failed, starting deferred connection'',
                  Some err) c, sdr := p, mgr := Reconnecting, old := sdr w # old w,
                hist := new_line noop (hist w)\<rparr>)"
| launch: "mgr w = Launching m \<Longrightarrow> launched m p \<Longrightarrow>
    step h w (w\<lparr>sdr := p, mgr := Supervising, old := sdr w # old w, hist := new_line m (hist w)\<rparr>)"
| sender_ended: "mgr w = Supervising \<Longrightarrow> sdr w = Broken m err \<Longrightarrow>
    step h w (w\<lparr>client := sendNotify now (client w) (Some (errorf ''audit.Client connection error: %w'' [err])),
                sdr := Absent, mgr := Reconnecting\<rparr>)"
| attempt_failed: "mgr w = Reconnecting \<Longrightarrow> quiet e \<Longrightarrow>
    attempt h e n (bare (client w)) = Done (Some err, s) \<Longrightarrow> \<not> permanent err \<Longrightarrow>
    step h w (w\<lparr>client := cs_client s\<rparr>)"
| gave_up: "mgr w = Reconnecting \<Longrightarrow> quiet e \<Longrightarrow>
    attempt h e n (bare (client w)) = Done (Some err, s) \<Longrightarrow> permanent err \<Longrightarrow>
    \<forall>t. errors_is err t \<longrightarrow> errors_is err' t \<Longrightarrow>
    step h w (w\<lparr>client := cs_client s, mgr := Dying err'\<rparr>)"
| reconnected: "mgr w = Reconnecting \<Longrightarrow> quiet e \<Longrightarrow>
    attempt h e n (bare (client w)) = Done (None, s) \<Longrightarrow>
    step h w (w\<lparr>client := cs_client s, mgr := Stopping (cs_sender s)\<rparr>)"
| announce: "mgr w = Dying err \<Longrightarrow> sendNotifyDead sched now (client w)
      (Some (errorf ''audit.Client connection error: stopping connection manager: %w'' [err])) = Some c \<Longrightarrow>
    step h w (w\<lparr>client := c, mgr := Announced err\<rparr>)"
| mark_dead: "mgr w = Announced err \<Longrightarrow>
    step h w (w\<lparr>client := (client w)\<lparr>clientDead := True\<rparr>, mgr := Stopping None\<rparr>)"
| stop_noop: "mgr w = Stopping next \<Longrightarrow> sdr w = Selecting m \<or> sdr w = Broken m err \<Longrightarrow>
    step h w (w\<lparr>sdr := Absent\<rparr>)"
| take_over: "mgr w = Stopping (Some m) \<Longrightarrow> sdr w = Absent \<Longrightarrow> handover_log (client w) c \<Longrightarrow>
    step h w (w\<lparr>client := c, mgr := Launching m\<rparr>)"
| ended: "mgr w = Stopping None \<Longrightarrow> sdr w = Absent \<Longrightarrow> step h w (w\<lparr>mgr := Gone\<rparr>)"

text \<open>
  Where the program panics: a deferred start logs to a nil logger, an attempt of the reconnect asks a nil connection for its
  type, and what would be a panic of a sender, a counter that was never made.
\<close>

inductive crashes :: "host \<Rightarrow> world \<Rightarrow> bool" for h where
  nil_logger: "mgr w = Deferring noop err \<Longrightarrow>
    log (sendNotify now (client w)
      (Some (errorf ''audit.Client initial connection failed, deferring connection: %w'' [err]))) = None \<Longrightarrow>
    crashes h w"
| nil_connection: "mgr w = Reconnecting \<Longrightarrow> quiet e \<Longrightarrow> attempt h e n (bare (client w)) = Panics \<Longrightarrow>
    crashes h w"
| nil_counter: "p = sdr w \<or> p \<in> set (old w) \<Longrightarrow>
    p = Written m msg r \<or> p = BeatWritten m r \<and> msg = ms_heartbeat m \<Longrightarrow>
    finish_write now (ms_conn m) (client w) msg r = Panics \<Longrightarrow> crashes h w"

text \<open>A client as \<open>New\<close> returns it, with its task just started: no sender has been started yet.\<close>

definition started :: "host \<Rightarrow> Client \<Rightarrow> task \<Rightarrow> world" where
  "started h c t =
     \<lparr>client = c, sdr = Absent,
      mgr = (case t of ManageTask m \<Rightarrow> Launching m | DeferredTask noop err \<Rightarrow> Deferring noop err),
      old = [], calls = [], hist = no_history\<rparr>"

inductive reachable :: "host \<Rightarrow> Client \<Rightarrow> task \<Rightarrow> world \<Rightarrow> bool" for h c t where
  reach_start: "reachable h c t (started h c t)"
| reach_step: "reachable h c t w \<Longrightarrow> step h w w' \<Longrightarrow> reachable h c t w'"

end
