(* ===== verification/WorldFacts.thy ===== *)
theory WorldFacts
  imports World "HOL-Library.Multiset" "HOL-Library.Sublist"
begin

text \<open>
  Invariants of the running client, for every interleaving: well-formed state, FIFO queue, exact
  accounting of messages by the history and by the counters, exclusive use of the queue by one
  sender (every earlier one has ended), and the order in which the client's death is announced and becomes visible. One
  preservation lemma per kind of step; the invariant of a reachable state follows by rule induction.
\<close>

section \<open>Steps of the current sender\<close>

lemma step_take_msg: "sdr w = Selecting m \<Longrightarrow> sendCh (client w) = Some ch \<Longrightarrow> TryGet ch = (Some msg, ch') \<Longrightarrow>
    step h w (w\<lparr>client := (client w)\<lparr>sendCh := Some ch'\<rparr>, sdr := Holding m msg,
                hist := (hist w)\<lparr>taken := taken (hist w) @ [msg]\<rparr>\<rparr>)"
  by (rule step.current) (simp add: sender_step.take_msg)

lemma step_write_msg: "sdr w = Holding m msg \<Longrightarrow>
    conn_Write ne (memory (client w)) (ms_conn m) msg = (r, mem', os) \<Longrightarrow>
    step h w (w\<lparr>client := (client w)\<lparr>memory := mem'\<rparr>, sdr := Written m msg r,
                hist := noted 0 ne (client w) msg r os (hist w)\<rparr>)"
  by (rule step.current) (simp add: sender_step.write_msg)

lemma step_finish_msg: "sdr w = Written m msg r \<Longrightarrow> finish_write now (ms_conn m) (client w) msg r = Done c \<Longrightarrow>
    step h w (w\<lparr>client := c, sdr := after_message m r, hist := note_message m (client w) msg r (hist w)\<rparr>)"
  by (rule step.current) (simp add: sender_step.finish_msg)

lemma step_beat: "sdr w = Beating m \<or> sdr w = Selecting m \<and> ms_ticker m = Ticking \<Longrightarrow>
    conn_Write ne (memory (client w)) (ms_conn m) (ms_heartbeat m) = (r, mem', os) \<Longrightarrow>
    step h w (w\<lparr>client := (client w)\<lparr>memory := mem'\<rparr>, sdr := BeatWritten m r,
                hist := noted 0 ne (client w) (ms_heartbeat m) r os (hist w)\<rparr>)"
  by (rule step.current) (rule sender_step.beat)

lemma step_finish_beat: "sdr w = BeatWritten m r \<Longrightarrow>
    finish_write now (ms_conn m) (client w) (ms_heartbeat m) r = Done c \<Longrightarrow>
    step h w (w\<lparr>client := c, sdr := after_beat m r, hist := note_beat m r (hist w)\<rparr>)"
  by (rule step.current) (simp add: sender_step.finish_beat)

inductive_cases sender_stepE: "sender_step i (p, c, k) (p', c', k')"
inductive_cases absent_stepE: "sender_step i (Absent, c, k) s"

text \<open>Where every earlier sender has ended, the steps are those of the current one, of users and of the manager.\<close>

lemma step_cases [consumes 2, case_names send_load send_check send_put other user_memory take_msg write_msg
    finish_msg beat finish_beat deferred_start launch sender_ended attempt_failed gave_up reconnected announce
    mark_dead stop_noop take_over ended]:
  assumes "step h w w'" and "\<forall>p \<in> set (old w). p = Absent"
    and "\<And>msg. w' = w\<lparr>calls := calls w @ [Loaded msg]\<rparr> \<Longrightarrow> \<not> clientDead (client w) \<Longrightarrow>
      record_ok (memory (client w)) (msg_Record msg) \<Longrightarrow> P"
    and "\<And>xs msg ys. w' = w\<lparr>calls := xs @ checked (client w) msg @ ys\<rparr> \<Longrightarrow> calls w = xs @ Loaded msg # ys \<Longrightarrow> P"
    and "\<And>xs msg ys r c. w' = w\<lparr>client := c, calls := xs @ ys, hist := note_put r msg (hist w)\<rparr> \<Longrightarrow>
      calls w = xs @ Validated msg # ys \<Longrightarrow> Send_put (client w) msg = (r, c) \<Longrightarrow> P"
    and "\<And>x. w' = w\<lparr>client := other_step x (client w), hist := note_other x (client w) (hist w)\<rparr> \<Longrightarrow>
      \<not> is_send x \<Longrightarrow> P"
    and "\<And>mem'. w' = w\<lparr>client := (client w)\<lparr>memory := mem'\<rparr>\<rparr> \<Longrightarrow> memory_extends (memory (client w)) mem' \<Longrightarrow> P"
    and "\<And>m ch msg ch'. w' = w\<lparr>client := (client w)\<lparr>sendCh := Some ch'\<rparr>, sdr := Holding m msg,
        hist := (hist w)\<lparr>taken := taken (hist w) @ [msg]\<rparr>\<rparr> \<Longrightarrow>
      sdr w = Selecting m \<Longrightarrow> sendCh (client w) = Some ch \<Longrightarrow> TryGet ch = (Some msg, ch') \<Longrightarrow> P"
    and "\<And>m msg ne r mem' os. w' = w\<lparr>client := (client w)\<lparr>memory := mem'\<rparr>, sdr := Written m msg r,
        hist := noted 0 ne (client w) msg r os (hist w)\<rparr> \<Longrightarrow>
      sdr w = Holding m msg \<Longrightarrow> conn_Write ne (memory (client w)) (ms_conn m) msg = (r, mem', os) \<Longrightarrow> P"
    and "\<And>m msg r now c. w' = w\<lparr>client := c, sdr := after_message m r,
        hist := note_message m (client w) msg r (hist w)\<rparr> \<Longrightarrow>
      sdr w = Written m msg r \<Longrightarrow> finish_write now (ms_conn m) (client w) msg r = Done c \<Longrightarrow> P"
    and "\<And>m ne r mem' os. w' = w\<lparr>client := (client w)\<lparr>memory := mem'\<rparr>, sdr := BeatWritten m r,
        hist := noted 0 ne (client w) (ms_heartbeat m) r os (hist w)\<rparr> \<Longrightarrow>
      sdr w = Beating m \<or> sdr w = Selecting m \<and> ms_ticker m = Ticking \<Longrightarrow>
      conn_Write ne (memory (client w)) (ms_conn m) (ms_heartbeat m) = (r, mem', os) \<Longrightarrow> P"
    and "\<And>m r now c. w' = w\<lparr>client := c, sdr := after_beat m r, hist := note_beat m r (hist w)\<rparr> \<Longrightarrow>
      sdr w = BeatWritten m r \<Longrightarrow> finish_write now (ms_conn m) (client w) (ms_heartbeat m) r = Done c \<Longrightarrow> P"
    and "\<And>noop err c now p. w' = w\<lparr>client := log_add
          (''audit.Client initial connection failed, starting deferred connection'', Some err) c,
        sdr := p, mgr := Reconnecting, old := sdr w # old w, hist := new_line noop (hist w)\<rparr> \<Longrightarrow>
      mgr w = Deferring noop err \<Longrightarrow> c = sendNotify now (client w)
        (Some (errorf ''audit.Client initial connection failed, deferring connection: %w'' [err])) \<Longrightarrow>
      launched noop p \<Longrightarrow> P"
    and "\<And>m p. w' = w\<lparr>sdr := p, mgr := Supervising, old := sdr w # old w, hist := new_line m (hist w)\<rparr> \<Longrightarrow>
      mgr w = Launching m \<Longrightarrow> launched m p \<Longrightarrow> P"
    and "\<And>m err now. w' = w\<lparr>client := sendNotify now (client w)
          (Some (errorf ''audit.Client connection error: %w'' [err])), sdr := Absent, mgr := Reconnecting\<rparr> \<Longrightarrow>
      mgr w = Supervising \<Longrightarrow> sdr w = Broken m err \<Longrightarrow> P"
    and "\<And>e n err s. w' = w\<lparr>client := cs_client s\<rparr> \<Longrightarrow> mgr w = Reconnecting \<Longrightarrow> quiet e \<Longrightarrow>
      attempt h e n (bare (client w)) = Done (Some err, s) \<Longrightarrow> \<not> permanent err \<Longrightarrow> P"
    and "\<And>e n err s err'. w' = w\<lparr>client := cs_client s, mgr := Dying err'\<rparr> \<Longrightarrow> mgr w = Reconnecting \<Longrightarrow> quiet e \<Longrightarrow>
      attempt h e n (bare (client w)) = Done (Some err, s) \<Longrightarrow> permanent err \<Longrightarrow>
      \<forall>t. errors_is err t \<longrightarrow> errors_is err' t \<Longrightarrow> P"
    and "\<And>e n s. w' = w\<lparr>client := cs_client s, mgr := Stopping (cs_sender s)\<rparr> \<Longrightarrow> mgr w = Reconnecting \<Longrightarrow>
      quiet e \<Longrightarrow> attempt h e n (bare (client w)) = Done (None, s) \<Longrightarrow> P"
    and "\<And>err sched now c. w' = w\<lparr>client := c, mgr := Announced err\<rparr> \<Longrightarrow> mgr w = Dying err \<Longrightarrow>
      sendNotifyDead sched now (client w)
        (Some (errorf ''audit.Client connection error: stopping connection manager: %w'' [err])) = Some c \<Longrightarrow> P"
    and "\<And>err. w' = w\<lparr>client := (client w)\<lparr>clientDead := True\<rparr>, mgr := Stopping None\<rparr> \<Longrightarrow> mgr w = Announced err \<Longrightarrow> P"
    and "\<And>nxt m err. w' = w\<lparr>sdr := Absent\<rparr> \<Longrightarrow> mgr w = Stopping nxt \<Longrightarrow>
      sdr w = Selecting m \<or> sdr w = Broken m err \<Longrightarrow> P"
    and "\<And>m c. w' = w\<lparr>client := c, mgr := Launching m\<rparr> \<Longrightarrow> mgr w = Stopping (Some m) \<Longrightarrow> sdr w = Absent \<Longrightarrow>
      handover_log (client w) c \<Longrightarrow> P"
    and "w' = w\<lparr>mgr := Gone\<rparr> \<Longrightarrow> mgr w = Stopping None \<Longrightarrow> sdr w = Absent \<Longrightarrow> P"
  shows P
  using assms(1)
proof cases
  case (current p c k)
  from current(2) show ?thesis
    by (rule sender_stepE) (use current(1) in \<open>auto intro: assms(8-12)\<close>)
next
  case (earlier i p c k)
  with assms(2) have "old w ! i = Absent" by simp
  with earlier(3) show ?thesis by (auto elim: absent_stepE)
qed (rule assms(3-7,13-23); assumption)+

section \<open>Steps that leave messages alone\<close>

definition undisturbed :: "Client \<Rightarrow> Client \<Rightarrow> bool" where
  "undisturbed c c' \<longleftrightarrow> client_ok c' \<and> queue c' = queue c \<and> metrics c' = metrics c \<and>
     memory c' = memory c \<and> serviceTreeID c' = serviceTreeID c"

lemma undisturbed_sendNotify: "client_ok c \<Longrightarrow> undisturbed c (sendNotify now c err)"
  by (simp add: undisturbed_def sendNotify_ok)

lemma undisturbed_other:
  assumes "client_ok c" and "\<not> is_send x"
  shows "undisturbed c (other_step x c)" and "clientDead (other_step x c) = clientDead c"
proof -
  from assms(2) have "other_ok (memory c) x" by (cases x) auto
  from other_step_effect [OF assms(1) this] assms(2) show "undisturbed c (other_step x c)"
    by (auto simp: others_effect_def undisturbed_def)
  show "clientDead (other_step x c) = clientDead c"
    using frame_other [of c x] by (simp add: frame_def)
qed

lemma undisturbed_dead_notice:
  assumes "client_ok c" and "sendNotifyDead sched now c (Some e) = Some c'"
  shows "undisturbed c c'" and "clientDead c' = clientDead c"
proof -
  note d = sendNotifyDead_result [OF assms]
  have "queue c' = queue c \<and> metrics c' = metrics c"
    using assms(2) by (auto simp: sendNotifyDead_def queue_def logDrop_def log_add_def
        split: option.splits prod.splits if_splits)
  with d show "undisturbed c c'" "clientDead c' = clientDead c"
    by (auto simp: undisturbed_def frame_def)
qed

lemma attempt_quiet:
  assumes "client_ok c" and "quiet e" and "attempt h e n (bare c) = Done (r, s)"
  shows "undisturbed c (cs_client s)" and "clientDead (cs_client s) = clientDead c"
    and "r = None \<Longrightarrow> \<exists>m. cs_sender s = Some m \<and> sender_ok m"
proof -
  from assms(2) have q: "re_noop e n = []" "re_others e n = []"
    by (auto simp: quiet_def)
  have close: "undisturbed c (closed_unused h c x)" "clientDead (closed_unused h c x) = clientDead c" for x
    using assms(1)
    by (auto simp: undisturbed_def closed_unused_def closeAuditConn_def queue_def split: sum.split option.split)
  have notify: "undisturbed c (sendNotify now d err)" if "undisturbed c d" for d now err
    using that undisturbed_sendNotify [of d now err] by (auto simp: undisturbed_def)
  have "undisturbed c (cs_client s) \<and> clientDead (cs_client s) = clientDead c \<and>
      (r = None \<longrightarrow> (\<exists>m. cs_sender s = Some m \<and> sender_ok m))"
  proof (cases rule: created_cases [of "re_create e n" h c])
    case (made a)
    with assms(1,3) q show ?thesis
      by (auto simp: attempt_def run_noop_def bare_def others_def Let_def createSender_eq [OF assms(1)]
          conn_failure_def undisturbed_def split: if_splits)
  next
    case (refused a)
    with assms(1,3) q close notify [OF close(1)] show ?thesis
      by (auto simp: attempt_def run_noop_def bare_def others_def Let_def createSender_eq [OF assms(1)]
          conn_failure_def undisturbed_def split: if_splits)
  next
    case (failed err)
    with assms(1,3) q close notify [OF close(1)] show ?thesis
      by (auto simp: attempt_def run_noop_def bare_def others_def Let_def createSender_eq [OF assms(1)]
          conn_failure_def undisturbed_def split: if_splits)
  next
    case null
    with assms(1,3) q show ?thesis
      by (auto simp: attempt_def run_noop_def bare_def others_def Let_def createSender_eq [OF assms(1)]
          undisturbed_def split: if_splits)
  qed
  then show "undisturbed c (cs_client s)" "clientDead (cs_client s) = clientDead c"
    "r = None \<Longrightarrow> \<exists>m. cs_sender s = Some m \<and> sender_ok m" by auto
qed

section \<open>The invariant\<close>

definition in_hand :: "sender_pc \<Rightarrow> Msg list" where
  "in_hand p = (case p of Holding m msg \<Rightarrow> [msg] | Written m msg r \<Rightarrow> [msg] | _ \<Rightarrow> [])"

fun pc_sender :: "sender_pc \<Rightarrow> msgSender option" where
  "pc_sender Absent = None"
| "pc_sender (Selecting m) = Some m"
| "pc_sender (Holding m msg) = Some m"
| "pc_sender (Written m msg r) = Some m"
| "pc_sender (Beating m) = Some m"
| "pc_sender (BeatWritten m r) = Some m"
| "pc_sender (Broken m err) = Some m"

fun call_ok :: "string \<Rightarrow> mem \<Rightarrow> call \<Rightarrow> bool" where
  "call_ok t m (Loaded msg) \<longleftrightarrow> record_ok m (msg_Record msg)"
| "call_ok t m (Validated msg) \<longleftrightarrow> message_ok t m msg"

definition well_formed :: "world \<Rightarrow> bool" where
  "well_formed w \<longleftrightarrow> client_ok (client w) \<and>
     (\<forall>m. pc_sender (sdr w) = Some m \<longrightarrow> sender_ok m) \<and>
     list_all (message_ok (serviceTreeID (client w)) (memory (client w))) (in_hand (sdr w)) \<and>
     (\<forall>m. mgr w = Stopping (Some m) \<or> mgr w = Launching m \<longrightarrow> sender_ok m) \<and>
     (\<forall>m err. mgr w = Deferring m err \<longrightarrow> sender_ok m \<and> conn_Type (ms_conn m) = TypeNoOP) \<and>
     list_all (call_ok (serviceTreeID (client w)) (memory (client w))) (calls w)"

text \<open>The queue is FIFO: what was taken, then what is queued, is what was put, in order.\<close>

definition fifo :: "world \<Rightarrow> bool" where
  "fifo w \<longleftrightarrow> offered (hist w) = taken (hist w) @ queue (client w)"

definition conserved :: "world \<Rightarrow> bool" where
  "conserved w \<longleftrightarrow> mset (accepted (hist w)) =
     mset (queue (client w)) + mset (in_hand (sdr w)) + mset (sent (hist w)) + mset (dropped (hist w))"

text \<open>The counters, started at \<open>c0\<close>, agree with the history.\<close>

definition counters_right :: "Client \<Rightarrow> world \<Rightarrow> bool" where
  "counters_right c0 w \<longleftrightarrow>
     count (client w) MsgsSent = count c0 MsgsSent + length (sent (hist w)) + beats (hist w) \<and>
     count (client w) MsgsDropped = count c0 MsgsDropped + length (dropped (hist w)) \<and>
     count (client w) MsgsRequeued + length (accepted (hist w)) =
       count c0 MsgsRequeued + length (offered (hist w))"

text \<open>Messages are sent, and dropped, in the order they were taken; accepted ones are offered in their order.\<close>

definition in_order :: "world \<Rightarrow> bool" where
  "in_order w \<longleftrightarrow> subseq (accepted (hist w)) (taken (hist w) @ queue (client w)) \<and>
     subseq (sent (hist w) @ in_hand (sdr w)) (taken (hist w)) \<and>
     subseq (dropped (hist w) @ in_hand (sdr w)) (taken (hist w))"

text \<open>While the manager does not supervise a sender, only a no-op sender may use the queue.\<close>

definition exclusive :: "world \<Rightarrow> bool" where
  "exclusive w \<longleftrightarrow> mgr w \<noteq> Supervising \<longrightarrow>
     (\<forall>m. pc_sender (sdr w) = Some m \<longrightarrow> conn_Type (ms_conn m) = TypeNoOP)"

definition dead_in_order :: "world \<Rightarrow> bool" where
  "dead_in_order w \<longleftrightarrow> (clientDead (client w) \<longleftrightarrow> mgr w = Stopping None \<or> mgr w = Gone)"

text \<open>Every sender but the last one has ended, and before a sender is started so has the last one.\<close>

definition starting :: "manager_pc \<Rightarrow> bool" where
  "starting q \<longleftrightarrow> (\<exists>m. q = Launching m) \<or> (\<exists>m err. q = Deferring m err)"

definition one_sender :: "world \<Rightarrow> bool" where
  "one_sender w \<longleftrightarrow> (\<forall>p \<in> set (old w). p = Absent) \<and> (starting (mgr w) \<longrightarrow> sdr w = Absent)"

definition world_inv :: "Client \<Rightarrow> world \<Rightarrow> bool" where
  "world_inv c0 w \<longleftrightarrow> well_formed w \<and> fifo w \<and> conserved w \<and> counters_right c0 w \<and> in_order w \<and>
     exclusive w \<and> dead_in_order w \<and> one_sender w"

lemma starting_simps [simp]:
  "starting (Launching m)" "starting (Deferring m err)" "\<not> starting Supervising" "\<not> starting Reconnecting"
  "\<not> starting (Stopping nxt)" "\<not> starting (Dying err)" "\<not> starting (Announced err)" "\<not> starting Gone"
  by (simp_all add: starting_def)

lemmas inv_defs = world_inv_def well_formed_def fifo_def conserved_def counters_right_def in_order_def
  exclusive_def dead_in_order_def one_sender_def

section \<open>Preservation\<close>

text \<open>A step that leaves the messages alone and moves the two tasks as the invariant allows.\<close>

lemma inv_undisturbed:
  assumes "world_inv c0 w" and "undisturbed (client w) c"
    and "p = sdr w \<or> p = Absent \<and> in_hand (sdr w) = [] \<or>
         (\<exists>m. launched m p \<and> sdr w = Absent \<and> sender_ok m \<and>
            (q = Supervising \<or> conn_Type (ms_conn m) = TypeNoOP))"
    and "q \<noteq> Supervising \<longrightarrow> mgr w \<noteq> Supervising \<or> p = Absent"
    and "\<forall>m. q = Stopping (Some m) \<or> q = Launching m \<longrightarrow> sender_ok m"
    and "\<forall>m err. q = Deferring m err \<longrightarrow> mgr w = q"
    and "starting q \<longrightarrow> p = Absent"
    and "clientDead c \<longleftrightarrow> q = Stopping None \<or> q = Gone"
  shows "world_inv c0 (w\<lparr>client := c, sdr := p, mgr := q\<rparr>)"
proof -
  from assms(3) have hand: "in_hand p = in_hand (sdr w)" by (auto simp: in_hand_def launched_def)
  have c: "client_ok c" "queue c = queue (client w)" "metrics c = metrics (client w)"
    "memory c = memory (client w)" "serviceTreeID c = serviceTreeID (client w)"
    using assms(2) by (auto simp: undisturbed_def)
  have k: "count c k = count (client w) k" for k using c(3) by (rule count_cong)
  have "well_formed (w\<lparr>client := c, sdr := p, mgr := q\<rparr>)"
    using assms(1,3,5,6) c hand by (auto simp: world_inv_def well_formed_def launched_def)
  moreover have "fifo (w\<lparr>client := c, sdr := p, mgr := q\<rparr>)" "conserved (w\<lparr>client := c, sdr := p, mgr := q\<rparr>)"
    "counters_right c0 (w\<lparr>client := c, sdr := p, mgr := q\<rparr>)" "in_order (w\<lparr>client := c, sdr := p, mgr := q\<rparr>)"
    using assms(1) c hand k
    by (simp_all add: world_inv_def fifo_def conserved_def counters_right_def in_order_def)
  moreover have "exclusive (w\<lparr>client := c, sdr := p, mgr := q\<rparr>)"
    using assms(1,3,4) by (auto simp: world_inv_def exclusive_def launched_def)
  moreover have "dead_in_order (w\<lparr>client := c, sdr := p, mgr := q\<rparr>)"
    using assms(8) by (simp add: dead_in_order_def)
  moreover have "one_sender (w\<lparr>client := c, sdr := p, mgr := q\<rparr>)"
    using assms(1,7) by (simp add: world_inv_def one_sender_def)
  ultimately show ?thesis by (simp add: world_inv_def)
qed

lemma subseq_snoc: "subseq xs (ys @ zs) \<Longrightarrow> subseq (xs @ [x]) (ys @ zs @ [x])"
  using subseq_append [of xs "[x]" "ys @ zs"] by simp

lemma subseq_later: "subseq xs (ys @ zs) \<Longrightarrow> subseq xs (ys @ zs @ [x])"
  using subseq_rev_drop_many [of xs "ys @ zs" "[x]"] by simp

lemma subseq_keep: "subseq (xs @ ys) zs \<Longrightarrow> subseq xs zs"
  using subseq_order.trans [of xs "xs @ ys" zs] by (simp add: subseq_rev_drop_many)

text \<open>The three steps of \<open>Send\<close>.\<close>

lemma inv_load:
  assumes "world_inv c0 w" and "record_ok (memory (client w)) (msg_Record msg)"
  shows "world_inv c0 (w\<lparr>calls := calls w @ [Loaded msg]\<rparr>)"
  using assms by (simp add: inv_defs)

lemma inv_check:
  assumes "world_inv c0 w" and "calls w = xs @ Loaded msg # ys"
  shows "world_inv c0 (w\<lparr>calls := xs @ checked (client w) msg @ ys\<rparr>)"
proof -
  from assms have "record_ok (memory (client w)) (msg_Record msg)" by (simp add: inv_defs)
  then have "list_all (call_ok (serviceTreeID (client w)) (memory (client w))) (checked (client w) msg)"
    using Send_check_ok(2) [of "client w" msg] by (auto simp: checked_def split: sum.split)
  with assms show ?thesis by (simp add: inv_defs)
qed

lemma inv_put:
  assumes "world_inv c0 w" and "calls w = xs @ Validated msg # ys" and "Send_put (client w) msg = (r, c)"
  shows "world_inv c0 (w\<lparr>client := c, calls := xs @ ys, hist := note_put r msg (hist w)\<rparr>)"
proof -
  from assms(1,2) have "client_ok (client w)" "message_ok (serviceTreeID (client w)) (memory (client w)) msg"
    by (simp_all add: inv_defs)
  note put = Send_put_keeps [OF this assms(3)]
  from put(4) have same: "memory c = memory (client w)" "serviceTreeID c = serviceTreeID (client w)"
    "metrics c = metrics (client w)" "clientDead c = clientDead (client w)"
    by (metis Client.select_convs Client.update_convs(5) Client.surjective)+
  have k: "count c k = count (client w) k" for k using same(3) by (rule count_cong)
  show ?thesis
    using assms(1,2) put(1,2) same k
    by (cases r) (simp_all add: inv_defs note_put_def subseq_snoc)
qed

lemma inv_take:
  assumes "world_inv c0 w" and "sdr w = Selecting m" and "sendCh (client w) = Some ch"
    and "TryGet ch = (Some msg, ch')"
  shows "world_inv c0 (w\<lparr>client := (client w)\<lparr>sendCh := Some ch'\<rparr>, sdr := Holding m msg,
      hist := (hist w)\<lparr>taken := taken (hist w) @ [msg]\<rparr>\<rparr>)"
proof -
  let ?c = "(client w)\<lparr>sendCh := Some ch'\<rparr>"
  from assms(1) have ok: "client_ok (client w)" by (simp add: world_inv_def well_formed_def)
  note t = take_message [OF ok assms(3,4)]
  have k: "count ?c k = count (client w) k" for k by (simp add: count_def)
  from ok t(4) have msg: "message_ok (serviceTreeID (client w)) (memory (client w)) msg"
    by (simp add: client_ok_def)
  show ?thesis
    using assms(1,2) t(1,4) k msg by (simp add: inv_defs in_hand_def)
qed

text \<open>Memory may change under the client as long as its slices stay inside their arrays.\<close>

lemma inv_memory:
  assumes "world_inv c0 w" and "\<And>x. record_ok (memory (client w)) x \<Longrightarrow> record_ok mem' x"
    and "in_hand p = in_hand (sdr w)" and "pc_sender p = pc_sender (sdr w)"
  shows "world_inv c0 (w\<lparr>client := (client w)\<lparr>memory := mem'\<rparr>, sdr := p\<rparr>)"
proof -
  let ?c = "(client w)\<lparr>memory := mem'\<rparr>"
  have m: "message_ok t (memory (client w)) msg \<Longrightarrow> message_ok t mem' msg" for t msg
    using assms(2) by (simp add: message_ok_def)
  have q: "queue ?c = queue (client w)" by (simp add: queue_def)
  have k: "count ?c k = count (client w) k" for k by (rule count_cong) simp
  have "client_ok ?c"
    using assms(1) m q by (auto simp: inv_defs client_ok_def list_all_iff)
  moreover have "list_all (message_ok (serviceTreeID (client w)) mem') (in_hand (sdr w))"
    using assms(1) m by (auto simp: inv_defs list_all_iff)
  moreover have "call_ok t (memory (client w)) x \<Longrightarrow> call_ok t mem' x" for t x
    using assms(2) m by (cases x) simp_all
  then have "list_all (call_ok (serviceTreeID (client w)) mem') (calls w)"
    using assms(1) by (auto simp: inv_defs list_all_iff)
  moreover have "p = Absent \<longleftrightarrow> sdr w = Absent"
    using assms(4) by (cases p; cases "sdr w") simp_all
  ultimately show ?thesis
    using assms(1,3,4) q k by (simp add: inv_defs)
qed

lemma extends_record_ok: "memory_extends m m' \<Longrightarrow> record_ok m x \<Longrightarrow> record_ok m' x"
  by (auto simp: memory_extends_def store_extends_def record_ok_def slice_ok_def split: slice.splits)

text \<open>What a sender does with the answer of its connection, seen from the invariant.\<close>

lemma finish_facts:
  assumes "client_ok c" and "writable c msg" and "finish_write now a c msg r = Done c'"
  shows "client_ok c'" and "write_effect a c msg r c'" and "serviceTreeID c' = serviceTreeID c"
    and "memory c' = memory c" and "clientDead c' = clientDead c"
    and "notices c' = notices c @ write_notices now c r"
  using finish_done [OF assms(1,2), of now a r] assms(3) frame_finish [OF assms(3)]
  by (auto simp: frame_def)

lemma write_effect_counts:
  assumes "write_effect a c msg r c'"
  shows "count c' MsgsSent =
      count c MsgsSent + (if r = None \<and> conn_Type a \<noteq> TypeNoOP then 1 else 0)"
    and "count c' MsgsDropped = count c MsgsDropped +
      (if user_type (msg_Type msg) \<and> (if r = None then conn_Type a = TypeNoOP else \<not> has_room c)
       then 1 else 0)"
    and "count c' MsgsRequeued = count c MsgsRequeued +
      (if user_type (msg_Type msg) \<and> r \<noteq> None \<and> has_room c then 1 else 0)"
proof -
  obtain ks where ks: "counted ks c c'"
    and eq: "ks = (if r = None then [success_counter a msg]
      else if \<not> user_type (msg_Type msg) then [MsgErrs, HeartbeatDropped]
      else if has_room c then [MsgErrs, MsgsRequeued] else [MsgErrs, MsgsDropped])"
    using assms by (cases r) (simp_all add: write_effect_def split: if_splits)
  from ks have "count c' k = count c k + count_list ks k" for k by (simp add: counted_def)
  then show "count c' MsgsSent =
      count c MsgsSent + (if r = None \<and> conn_Type a \<noteq> TypeNoOP then 1 else 0)"
    "count c' MsgsDropped = count c MsgsDropped +
      (if user_type (msg_Type msg) \<and> (if r = None then conn_Type a = TypeNoOP else \<not> has_room c)
       then 1 else 0)"
    "count c' MsgsRequeued = count c MsgsRequeued +
      (if user_type (msg_Type msg) \<and> r \<noteq> None \<and> has_room c then 1 else 0)"
    by (simp_all add: eq success_counter_def)
qed

lemma after_simps [simp]:
  "in_hand (after_message m r) = []" "in_hand (after_beat m r) = []"
  by (auto simp: after_message_def after_beat_def in_hand_def split: option.splits if_splits)

lemma after_conn:
  "pc_sender (after_message m r) = Some x \<Longrightarrow> ms_conn x = ms_conn m"
  "pc_sender (after_beat m r) = Some x \<Longrightarrow> ms_conn x = ms_conn m"
  by (auto simp: after_message_def after_beat_def in_hand_def split: option.splits if_splits)

lemma after_sender_ok:
  assumes "sender_ok m"
  shows "pc_sender (after_message m r) = Some x \<Longrightarrow> sender_ok x"
    and "pc_sender (after_beat m r) = Some x \<Longrightarrow> sender_ok x"
  using assms by (auto simp: after_message_def after_beat_def split: option.splits if_splits)

lemma held_message:
  assumes "world_inv c0 w" and "in_hand (sdr w) = [msg]"
  shows "writable (client w) msg" and "user_type (msg_Type msg)"
  using assms by (auto simp: inv_defs writable_def message_ok_def)

lemma held_heartbeat:
  assumes "world_inv c0 w" and "pc_sender (sdr w) = Some m"
  shows "sender_ok m" and "writable (client w) (ms_heartbeat m)"
    and "\<not> user_type (msg_Type (ms_heartbeat m))"
proof -
  from assms show ok: "sender_ok m" by (simp add: inv_defs)
  from writable_heartbeat [OF this] show "writable (client w) (ms_heartbeat m)" .
  from ok show "\<not> user_type (msg_Type (ms_heartbeat m))"
    using not_user_types by (simp add: sender_ok_def)
qed

text \<open>A step of the sender's own that keeps to its connection cannot break the exclusive use of the queue.\<close>

lemma exclusive_same_conn:
  assumes "exclusive w" and "pc_sender (sdr w) = Some m"
    and "\<And>x. pc_sender p = Some x \<Longrightarrow> ms_conn x = ms_conn m"
  shows "exclusive (w\<lparr>client := c, sdr := p, hist := k\<rparr>)"
proof -
  have "conn_Type (ms_conn x) = TypeNoOP" if "mgr w \<noteq> Supervising" "pc_sender p = Some x" for x
    using assms(1,2) that assms(3) [OF that(2)] by (simp add: exclusive_def)
  then show ?thesis by (simp add: exclusive_def)
qed

lemma inv_finish:
  assumes "world_inv c0 w" and "sdr w = Written m msg r"
    and "finish_write now (ms_conn m) (client w) msg r = Done c"
  shows "world_inv c0 (w\<lparr>client := c, sdr := after_message m r,
      hist := note_message m (client w) msg r (hist w)\<rparr>)" (is "world_inv c0 ?w")
proof -
  have hand: "in_hand (sdr w) = [msg]" "pc_sender (sdr w) = Some m"
    using assms(2) by (simp_all add: in_hand_def)
  note msg = held_message [OF assms(1) hand(1)]
  note sm = held_heartbeat(1) [OF assms(1) hand(2)]
  from assms(1) have ok: "client_ok (client w)" by (simp add: inv_defs)
  note wr = finish_facts [OF ok msg(1) assms(3)]
  have "well_formed ?w"
    using assms(1) wr(1,3,4) after_sender_ok(1) [OF sm] by (simp add: inv_defs)
  moreover have "fifo ?w \<and> conserved ?w \<and> in_order ?w"
    using assms(1) wr(2) hand msg(2)
    by (auto simp: inv_defs note_message_def write_effect_def subseq_later split: if_splits
        dest: subseq_keep)
  moreover have "counters_right c0 ?w"
    using assms(1) msg(2)
    by (simp add: inv_defs note_message_def write_effect_counts [OF wr(2)])
  moreover have "exclusive ?w"
    by (rule exclusive_same_conn [OF _ hand(2) after_conn(1)])
       (use assms(1) in \<open>simp_all add: world_inv_def\<close>)
  moreover have "dead_in_order ?w" "one_sender ?w" using assms(1,2) wr(5) by (simp_all add: inv_defs)
  ultimately show ?thesis by (simp add: world_inv_def)
qed

lemma inv_finish_beat:
  assumes "world_inv c0 w" and "sdr w = BeatWritten m r"
    and "finish_write now (ms_conn m) (client w) (ms_heartbeat m) r = Done c"
  shows "world_inv c0 (w\<lparr>client := c, sdr := after_beat m r, hist := note_beat m r (hist w)\<rparr>)" (is "world_inv c0 ?w")
proof -
  have hand: "in_hand (sdr w) = []" "pc_sender (sdr w) = Some m"
    using assms(2) by (simp_all add: in_hand_def)
  note hb = held_heartbeat [OF assms(1) hand(2)]
  from assms(1) have ok: "client_ok (client w)" by (simp add: inv_defs)
  note wr = finish_facts [OF ok hb(2) assms(3)]
  have "well_formed ?w"
    using assms(1) wr(1,3,4) after_sender_ok(2) [OF hb(1)] by (simp add: inv_defs)
  moreover have "fifo ?w \<and> conserved ?w \<and> in_order ?w"
    using assms(1) wr(2) hand hb(3)
    by (auto simp: inv_defs note_beat_def write_effect_def split: if_splits)
  moreover have "counters_right c0 ?w"
    using assms(1) hb(3)
    by (simp add: inv_defs note_beat_def write_effect_counts [OF wr(2)])
  moreover have "exclusive ?w"
    by (rule exclusive_same_conn [OF _ hand(2) after_conn(2)])
       (use assms(1) in \<open>simp_all add: world_inv_def\<close>)
  moreover have "dead_in_order ?w" "one_sender ?w" using assms(1,2) wr(5) by (simp_all add: inv_defs)
  ultimately show ?thesis by (simp add: world_inv_def)
qed

text \<open>The connection's own part of a write only touches memory.\<close>

lemma inv_io:
  assumes "world_inv c0 w" and "writable (client w) msg"
    and "conn_Write ne (memory (client w)) a msg = (r, mem', os)"
    and "in_hand p = in_hand (sdr w)" and "pc_sender p = pc_sender (sdr w)"
  shows "world_inv c0 (w\<lparr>client := (client w)\<lparr>memory := mem'\<rparr>, sdr := p\<rparr>)"
  by (rule inv_memory [OF assms(1) au.write_keeps [OF writable_record_ok [OF assms(2)] assms(3)] assms(4,5)])

lemma inv_write:
  assumes "world_inv c0 w" and "sdr w = Holding m msg"
    and "conn_Write ne (memory (client w)) (ms_conn m) msg = (r, mem', os)"
  shows "world_inv c0 (w\<lparr>client := (client w)\<lparr>memory := mem'\<rparr>, sdr := Written m msg r\<rparr>)"
  by (rule inv_io [OF assms(1) held_message(1) [OF assms(1)] assms(3)])
     (simp_all add: assms(2) in_hand_def)

text \<open>Senders that have ended are not in the way.\<close>

lemma inv_old: "world_inv c0 w \<Longrightarrow> \<forall>p \<in> set ps. p = Absent \<Longrightarrow> world_inv c0 (w\<lparr>old := ps\<rparr>)"
  by (simp add: inv_defs)

text \<open>No other part of the state is about the lines.\<close>

lemma world_inv_lines [simp]: "world_inv c0 (w\<lparr>hist := (hist w)\<lparr>line_log := ls\<rparr>\<rparr>) = world_inv c0 w"
  by (simp add: inv_defs)

lemma inv_lines: "world_inv c0 w' \<Longrightarrow> hist w' = h \<Longrightarrow> world_inv c0 (w'\<lparr>hist := h\<lparr>line_log := ls\<rparr>\<rparr>)"
  using world_inv_lines by blast

lemma inv_beat:
  assumes "world_inv c0 w" and "sdr w = Beating m \<or> sdr w = Selecting m \<and> ms_ticker m = Ticking"
    and "conn_Write ne (memory (client w)) (ms_conn m) (ms_heartbeat m) = (r, mem', os)"
  shows "world_inv c0 (w\<lparr>client := (client w)\<lparr>memory := mem'\<rparr>, sdr := BeatWritten m r\<rparr>)"
  by (rule inv_io [OF assms(1) held_heartbeat(2) [OF assms(1)] assms(3)])
     (use assms(2) in \<open>auto simp: in_hand_def\<close>)

lemma world_inv_simps:
  assumes "world_inv c0 w"
  shows "client_ok (client w)"
    and "clientDead (client w) \<longleftrightarrow> mgr w = Stopping None \<or> mgr w = Gone"
    and "mgr w = Stopping (Some m) \<Longrightarrow> sender_ok m"
    and "mgr w = Deferring n err \<Longrightarrow> sender_ok n \<and> conn_Type (ms_conn n) = TypeNoOP"
    and "mgr w = Launching m \<Longrightarrow> sender_ok m"
    and "\<forall>p \<in> set (old w). p = Absent"
    and "starting (mgr w) \<Longrightarrow> sdr w = Absent"
  using assms by (simp_all add: inv_defs)

lemma same_world: "w\<lparr>client := c, sdr := sdr w, mgr := mgr w\<rparr> = w\<lparr>client := c\<rparr>"
  "w\<lparr>client := c, sdr := sdr w, mgr := q\<rparr> = w\<lparr>client := c, mgr := q\<rparr>"
  "w\<lparr>client := client w, sdr := p, mgr := q\<rparr> = w\<lparr>sdr := p, mgr := q\<rparr>"
  "w\<lparr>client := client w, sdr := p, mgr := mgr w\<rparr> = w\<lparr>sdr := p\<rparr>"
  "w\<lparr>client := client w, sdr := sdr w, mgr := q\<rparr> = w\<lparr>mgr := q\<rparr>"
  by simp_all

lemma undisturbed_refl: "client_ok c \<Longrightarrow> undisturbed c c"
  by (simp add: undisturbed_def)

lemma undisturbed_mark_dead: "client_ok c \<Longrightarrow> undisturbed c (c\<lparr>clientDead := b\<rparr>)"
  by (simp add: undisturbed_def queue_def)

lemma undisturbed_log: "undisturbed c d \<Longrightarrow> undisturbed c (log_add l d)"
  unfolding undisturbed_def by (simp (no_asm_simp)) (simp add: log_add_def queue_def)

lemma undisturbed_handover:
  assumes "client_ok c" and "handover_log c c'"
  shows "undisturbed c c'" and "clientDead c' = clientDead c"
  using assms undisturbed_log [OF undisturbed_refl [OF assms(1)]]
  by (auto simp: handover_log_def undisturbed_refl log_add_def)

lemma undisturbed_defer:
  assumes "client_ok c"
  shows "undisturbed c (log_add l (sendNotify now c err))"
    and "clientDead (log_add l (sendNotify now c err)) = clientDead c"
  using undisturbed_log [OF undisturbed_sendNotify [OF assms]] assms by (auto simp: log_add_def)

text \<open>The notifications a user received are in no part of the invariant.\<close>

lemma world_inv_note_other [simp]: "world_inv c0 (w\<lparr>hist := note_other x c (hist w)\<rparr>) = world_inv c0 w"
  by (simp add: inv_defs note_other_def)

text \<open>Every kind of step keeps the invariant.\<close>

lemma inv_launch:
  assumes "world_inv c0 w" and "undisturbed (client w) c" and "clientDead c = clientDead (client w)"
    and "starting (mgr w)" and "launched m p" and "sender_ok m" and "q = Supervising \<or> q = Reconnecting"
    and "q = Reconnecting \<longrightarrow> conn_Type (ms_conn m) = TypeNoOP"
  shows "world_inv c0 (w\<lparr>client := c, sdr := p, mgr := q, old := sdr w # old w, hist := new_line m (hist w)\<rparr>)"
proof -
  note absent = world_inv_simps(7) [OF assms(1,4)]
  have "\<not> clientDead (client w)" using world_inv_simps(2) [OF assms(1)] assms(4) by auto
  then have "world_inv c0 (w\<lparr>client := c, sdr := p, mgr := q\<rparr>)"
    by (intro inv_undisturbed [OF assms(1,2)]) (use assms(3-8) absent in auto)
  then have "world_inv c0 (w\<lparr>client := c, sdr := p, mgr := q, old := sdr w # old w\<rparr>)"
    by (rule inv_old) (use absent world_inv_simps(6) [OF assms(1)] in simp)
  from inv_lines [OF this refl] show ?thesis by (simp add: new_line_def)
qed

lemma step_inv:
  assumes "step h w w'" and "world_inv c0 w"
  shows "world_inv c0 w'"
  using assms(1) world_inv_simps(6) [OF assms(2)]
proof (cases rule: step_cases)
  case (send_load msg)
  with inv_load [OF assms(2)] show ?thesis by simp
next
  case (send_check xs msg ys)
  with inv_check [OF assms(2)] show ?thesis by simp
next
  case (send_put xs msg ys r c)
  with inv_put [OF assms(2)] show ?thesis by simp
next
  case (other x)
  have "world_inv c0 (w\<lparr>client := other_step x (client w), sdr := sdr w, mgr := mgr w\<rparr>)"
    by (rule inv_undisturbed [OF assms(2) undisturbed_other(1) [OF world_inv_simps(1) [OF assms(2)] other(2)]])
       (use world_inv_simps [OF assms(2)] undisturbed_other(2) [OF _ other(2)] in auto)
  then have "world_inv c0 (w\<lparr>client := other_step x (client w)\<rparr>)" by (simp add: same_world)
  then have "world_inv c0 ((w\<lparr>client := other_step x (client w)\<rparr>)\<lparr>hist := note_other x (client w)
      (hist (w\<lparr>client := other_step x (client w)\<rparr>))\<rparr>)" by (simp only: world_inv_note_other)
  with other(1) show ?thesis by simp
next
  case (take_msg m ch msg ch')
  with inv_take [OF assms(2)] show ?thesis by simp
next
  case (user_memory mem')
  have "world_inv c0 (w\<lparr>client := (client w)\<lparr>memory := mem'\<rparr>, sdr := sdr w\<rparr>)"
    by (rule inv_memory [OF assms(2) extends_record_ok [OF user_memory(2)]]) simp_all
  with user_memory(1) show ?thesis by simp
next
  case (write_msg m msg ne r mem' os)
  with inv_lines [OF inv_write [OF assms(2) write_msg(2,3)] refl] show ?thesis by (simp add: noted_def)
next
  case (finish_msg m msg r now c)
  with inv_finish [OF assms(2)] show ?thesis by simp
next
  case (beat m ne r mem' os)
  with inv_lines [OF inv_beat [OF assms(2) beat(2,3)] refl] show ?thesis by (simp add: noted_def)
next
  case (finish_beat m r now c)
  with inv_finish_beat [OF assms(2)] show ?thesis by simp
next
  case (deferred_start noop err c now p)
  note d = undisturbed_defer [OF world_inv_simps(1) [OF assms(2)]]
  from inv_launch [OF assms(2) d, of noop p Reconnecting] deferred_start
    world_inv_simps(4) [OF assms(2) deferred_start(2)] show ?thesis by simp
next
  case (launch m p)
  note u = undisturbed_refl [OF world_inv_simps(1) [OF assms(2)]]
  from inv_launch [OF assms(2) u refl, of m p Supervising] launch
    world_inv_simps(5) [OF assms(2) launch(2)] show ?thesis by simp
next
  case (sender_ended m err now)
  then have hand: "in_hand (sdr w) = []" by (simp add: in_hand_def)
  from world_inv_simps(2) [OF assms(2)] sender_ended(2) have "\<not> clientDead (client w)" by simp
  with sender_ended hand show ?thesis
    using inv_undisturbed [OF assms(2) undisturbed_sendNotify [OF world_inv_simps(1) [OF assms(2)]],
        where p = Absent and q = Reconnecting] by simp
next
  case (attempt_failed e n err s)
  note q = attempt_quiet [OF world_inv_simps(1) [OF assms(2)] attempt_failed(3,4)]
  have "world_inv c0 (w\<lparr>client := cs_client s, sdr := sdr w, mgr := mgr w\<rparr>)"
    by (rule inv_undisturbed [OF assms(2) q(1)])
       (use world_inv_simps [OF assms(2)] q(2) attempt_failed(2) in auto)
  with attempt_failed(1) show ?thesis by (simp add: same_world)
next
  case (gave_up e n err s err')
  note q = attempt_quiet [OF world_inv_simps(1) [OF assms(2)] gave_up(3,4)]
  have "world_inv c0 (w\<lparr>client := cs_client s, sdr := sdr w, mgr := Dying err'\<rparr>)"
    by (rule inv_undisturbed [OF assms(2) q(1)])
       (use world_inv_simps [OF assms(2)] q(2) gave_up(2) in auto)
  with gave_up(1) show ?thesis by (simp add: same_world)
next
  case (reconnected e n s)
  note q = attempt_quiet [OF world_inv_simps(1) [OF assms(2)] reconnected(3,4)]
  from q(3) obtain m where "cs_sender s = Some m" "sender_ok m" by blast
  then have "world_inv c0 (w\<lparr>client := cs_client s, sdr := sdr w, mgr := Stopping (cs_sender s)\<rparr>)"
    by (intro inv_undisturbed [OF assms(2) q(1)])
       (use world_inv_simps [OF assms(2)] q(2) reconnected(2) in auto)
  with reconnected(1) show ?thesis by (simp add: same_world)
next
  case (announce err sched now c)
  note d = undisturbed_dead_notice [OF world_inv_simps(1) [OF assms(2)] announce(3)]
  have "world_inv c0 (w\<lparr>client := c, sdr := sdr w, mgr := Announced err\<rparr>)"
    by (rule inv_undisturbed [OF assms(2) d(1)])
       (use world_inv_simps [OF assms(2)] d(2) announce(2) in auto)
  with announce(1) show ?thesis by (simp add: same_world)
next
  case (mark_dead err)
  have "world_inv c0 (w\<lparr>client := (client w)\<lparr>clientDead := True\<rparr>, sdr := sdr w, mgr := Stopping None\<rparr>)"
    by (rule inv_undisturbed [OF assms(2) undisturbed_mark_dead [OF world_inv_simps(1) [OF assms(2)]]])
       (use mark_dead(2) in auto)
  with mark_dead(1) show ?thesis by (simp add: same_world)
next
  case (stop_noop nxt m err)
  then have hand: "in_hand (sdr w) = []" by (auto simp: in_hand_def)
  have "world_inv c0 (w\<lparr>client := client w, sdr := Absent, mgr := mgr w\<rparr>)"
    by (rule inv_undisturbed [OF assms(2) undisturbed_refl [OF world_inv_simps(1) [OF assms(2)]]])
       (use world_inv_simps [OF assms(2)] stop_noop(2) hand in auto)
  with stop_noop(1) show ?thesis by (simp add: same_world)
next
  case (take_over m c)
  note u = undisturbed_handover [OF world_inv_simps(1) [OF assms(2)] take_over(4)]
  from world_inv_simps(2) [OF assms(2)] take_over(2) u(2) have "\<not> clientDead c" by simp
  then have "world_inv c0 (w\<lparr>client := c, sdr := sdr w, mgr := Launching m\<rparr>)"
    by (intro inv_undisturbed [OF assms(2) u(1)])
       (use world_inv_simps(3) [OF assms(2) take_over(2)] take_over(2,3) in auto)
  with take_over(1) show ?thesis by (simp add: same_world)
next
  case ended
  from world_inv_simps(2) [OF assms(2)] ended(2) have "clientDead (client w)" by simp
  then have "world_inv c0 (w\<lparr>client := client w, sdr := sdr w, mgr := Gone\<rparr>)"
    by (intro inv_undisturbed [OF assms(2) undisturbed_refl [OF world_inv_simps(1) [OF assms(2)]]])
       (use ended(2,3) in auto)
  with ended(1) show ?thesis by (simp add: same_world)
qed

section \<open>Reachable states\<close>

definition startable :: "Client \<Rightarrow> task \<Rightarrow> bool" where
  "startable c t \<longleftrightarrow> ready c \<and> (case t of ManageTask m \<Rightarrow> sender_ok m
     | DeferredTask noop err \<Rightarrow> sender_ok noop \<and> conn_Type (ms_conn noop) = TypeNoOP)"

lemma started_inv: "startable c t \<Longrightarrow> world_inv c (started h c t)"
  by (cases t)
     (simp_all add: startable_def started_def inv_defs ready_def no_history_def new_line_def in_hand_def)

lemma reachable_inv: "reachable h c t w \<Longrightarrow> startable c t \<Longrightarrow> world_inv c w"
  by (induction rule: reachable.induct) (auto intro: started_inv step_inv)

end
