(* ===== verification/WorldClaims.thy ===== *)
theory WorldClaims
  imports WorldFacts
begin

text \<open>
  What holds in every reachable state of a client that \<open>New\<close> returned: the accounting of messages, the
  bounds of its channels, the hand-over between senders, and the refinement of an abstract
  pipeline that knows nothing of queues, senders and connections.
\<close>

section \<open>From New to a reachable state\<close>

lemma New_startable:
  assumes "list_all std_option options" and "New h ustr once_err mem uid r options = Done (Inr c, Some t)"
  shows "startable c t"
  using New_result [OF assms]
  by (auto simp: startable_def handed_over_def split: if_splits) (simp_all add: conn_Type_def)

text \<open>A reachable state of the client that this call of \<open>New\<close> returned.\<close>

definition runs_from ::
  "host \<Rightarrow> (128 word \<Rightarrow> string) \<Rightarrow> mem \<Rightarrow> 128 word \<Rightarrow> created \<Rightarrow> Option list \<Rightarrow> Client \<Rightarrow> world \<Rightarrow> bool" where
  "runs_from h ustr mem uid r options c w \<longleftrightarrow> list_all std_option options \<and>
     (\<exists>t. New h ustr None mem uid r options = Done (Inr c, Some t) \<and> reachable h c t w)"

lemma runs_from_inv: "runs_from h ustr mem uid r options c w \<Longrightarrow> world_inv c w \<and> ready c"
  using New_startable reachable_inv by (auto simp: runs_from_def startable_def)

lemma runs_from_step:
  "runs_from h ustr mem uid r options c w \<Longrightarrow> step h w w' \<Longrightarrow> runs_from h ustr mem uid r options c w'"
  by (auto simp: runs_from_def intro: reach_step)

lemma runs_from_steps:
  "(step h)\<^sup>*\<^sup>* w w' \<Longrightarrow> runs_from h ustr mem uid r options c w \<Longrightarrow> runs_from h ustr mem uid r options c w'"
  by (induction rule: rtranclp_induct) (auto intro: runs_from_step)

text \<open>A whole call of \<open>Send\<close>, with nothing in between, is a path with the effect of \<open>Send_client\<close>.\<close>

lemma send_path:
  assumes "record_ok (memory (client w)) (msg_Record msg)" and "Send_client (client w) msg = (r, c)"
  shows "(step h)\<^sup>*\<^sup>* w (w\<lparr>client := c, hist := note_put r (stamped (client w) msg) (hist w)\<rparr>)"
proof (cases "clientDead (client w)")
  case True
  with assms(2) show ?thesis by (auto simp: Send_client_def note_put_def)
next
  case alive: False
  let ?w1 = "w\<lparr>calls := calls w @ [Loaded msg]\<rparr>"
  have s1: "step h w ?w1" by (rule step.send_load [OF alive assms(1)])
  have "calls ?w1 = calls w @ Loaded msg # []" by simp
  from step.send_check [OF this, of h]
  have s2: "step h ?w1 (w\<lparr>calls := calls w @ checked (client w) msg\<rparr>)" by simp
  show ?thesis
  proof (cases "Send_check (client w) msg")
    case (Inl err)
    then have "c = client w" "r = Some err" using alive assms(2) by (simp_all add: Send_client_def)
    with s1 s2 Inl show ?thesis
      by (auto simp: checked_def note_put_def intro: converse_rtranclp_into_rtranclp)
  next
    case (Inr msg')
    then have put: "Send_put (client w) msg' = (r, c)" "msg' = stamped (client w) msg"
      using alive assms(2) Send_check_ok(1) [OF Inr assms(1)] by (simp_all add: Send_client_def)
    let ?w2 = "w\<lparr>calls := calls w @ [Validated msg']\<rparr>"
    have "calls ?w2 = calls w @ Validated msg' # []" by simp
    from step.send_put [OF this, of r c h] put
    have "step h ?w2 (w\<lparr>client := c, hist := note_put r msg' (hist w)\<rparr>)" by simp
    with s1 s2 Inr put(2) show ?thesis
      by (auto simp: checked_def intro: converse_rtranclp_into_rtranclp)
  qed
qed

text \<open>A sample run: a client over a no-op connection, and one accepted message.\<close>

definition sample_born :: Client where
  "sample_born = sample_initial\<lparr>sendCh := Some (make_chan 2048)\<rparr>"

definition sample_start :: world where
  "sample_start = started sample_host sample_born (ManageTask (fresh_sender sample_host sample_born NoOP))"

lemma sample_New_conn:
  "New sample_host (\<lambda>u. ''id'') None sample_mem 1 (Inr (Some a)) [] =
     Done (Inr sample_born, Some (ManageTask (fresh_sender sample_host sample_born a)))"
proof -
  have "apply_options [] sample_initial = Inr sample_initial" by simp
  from sample_configures [OF this] have conf: "configures sample_host (\<lambda>u. ''id'') sample_mem 1 [] sample_born"
    by (simp add: sample_born_def sample_initial_def initial_client_def DefaultQueueSize_def)
  have std: "list_all std_option []" by simp
  from configures_ready(1) [OF conf std] have ok: "client_ok sample_born" by (simp add: ready_def)
  have "usable sample_host sample_born a"
    by (simp add: usable_def sample_born_def sample_initial_def initial_client_def sample_host_def)
  then show ?thesis
    by (simp add: New_configured [OF conf std] startConnManager_eq [OF ok] conn_failure_def handed_over_def)
qed

text \<open>A sample with a deferred connection.\<close>

definition sample_deferring :: Client where
  "sample_deferring = sample_initial\<lparr>deferredConn := True, sendCh := Some (make_chan 2048)\<rparr>"

lemma sample_deferring_simps [simp]:
  "log sample_deferring = Some []" "memory sample_deferring = sample_mem"
  "notifier sample_deferring = Some (make_chan 2)" "closers sample_deferring = []"
  "maxClosers sample_deferring = 1000"
  by (simp_all add: sample_deferring_def sample_initial_def initial_client_def)

lemma sample_New_deferred:
  "New sample_host (\<lambda>u. ''id'') None sample_mem 1 (Inl ErrQueueFull) [WithDeferredConnection] =
     Done (Inr sample_deferring, Some (DeferredTask (fresh_sender sample_host sample_deferring NoOP)
       (errorf ''failed to create audit connection: %w'' [ErrQueueFull])))"
proof -
  have "apply_options [WithDeferredConnection] sample_initial = Inr (sample_initial\<lparr>deferredConn := True\<rparr>)"
    by (simp add: WithDeferredConnection_def)
  from sample_configures [OF this]
  have conf: "configures sample_host (\<lambda>u. ''id'') sample_mem 1 [WithDeferredConnection] sample_deferring"
    by (simp add: sample_deferring_def sample_initial_def initial_client_def DefaultQueueSize_def)
  have std: "list_all std_option [WithDeferredConnection]" by (simp add: std_option_def)
  from configures_ready(1) [OF conf std] have ok: "client_ok sample_deferring" by (simp add: ready_def)
  have "deferredConn sample_deferring" by (simp add: sample_deferring_def)
  then show ?thesis
    by (simp add: New_configured [OF conf std] startConnManager_eq [OF ok] conn_failure_def
        closed_unused_def handed_over_def)
qed

lemma sample_accepts:
  "Send_client sample_born sample_msg =
     (None, sample_born\<lparr>sendCh := Some ((make_chan 2048)\<lparr>buf := [sample_msg]\<rparr>)\<rparr>)"
proof -
  have "stamped sample_born sample_msg = sample_msg"
    by (simp add: stamped_def sample_born_def sample_initial_def initial_client_def sample_msg_def sample_record_def)
  then show ?thesis
    using sample_Validate
    by (simp add: Send_client_eq user_types queue_def has_room_def)
       (simp add: sample_born_def sample_initial_def initial_client_def queue_def has_room_def)
qed

definition sample_sent :: world where
  "sample_sent = sample_start\<lparr>client := sample_born\<lparr>sendCh := Some ((make_chan 2048)\<lparr>buf := [sample_msg]\<rparr>)\<rparr>,
     hist := no_history\<lparr>accepted := [sample_msg], offered := [sample_msg]\<rparr>\<rparr>"

lemma sample_runs:
  "runs_from sample_host (\<lambda>u. ''id'') sample_mem 1 (Inr (Some NoOP)) [] sample_born sample_sent"
proof -
  let ?t = "ManageTask (fresh_sender sample_host sample_born NoOP)"
  have "reachable sample_host sample_born ?t sample_start"
    unfolding sample_start_def by (rule reach_start)
  then have run: "runs_from sample_host (\<lambda>u. ''id'') sample_mem 1 (Inr (Some NoOP)) [] sample_born sample_start"
    by (simp add: runs_from_def sample_New_conn)
  have start: "client sample_start = sample_born" "hist sample_start = no_history"
    by (simp_all add: sample_start_def started_def)
  have ok: "record_ok (memory (client sample_start)) (msg_Record sample_msg)"
    using sample_ok by (simp add: start sample_born_def sample_initial_def initial_client_def)
  have "stamped sample_born sample_msg = sample_msg"
    by (simp add: stamped_def sample_born_def sample_initial_def initial_client_def sample_msg_def sample_record_def)
  with send_path [OF ok, of None _ sample_host] sample_accepts
  have "(step sample_host)\<^sup>*\<^sup>* sample_start sample_sent"
    by (simp add: start sample_sent_def note_put_def no_history_def)
  from runs_from_steps [OF this run] show ?thesis .
qed

section \<open>Accounting\<close>

text \<open>
  C1. Nothing is lost and nothing is invented, under every interleaving: the queue is exactly what was
  put into it less what was taken, in order; every accepted message is queued, in
  the hands of the sender, sent or dropped, and in only one of these; and the counters of sent and
  dropped messages say exactly that.
\<close>

theorem world_accounting:
  assumes "runs_from h ustr mem uid r options c w"
  shows "offered (hist w) = taken (hist w) @ queue (client w) \<and>
    mset (accepted (hist w)) = mset (queue (client w)) + mset (in_hand (sdr w)) +
      mset (sent (hist w)) + mset (dropped (hist w)) \<and>
    count (client w) MsgsSent = count c MsgsSent + length (sent (hist w)) + beats (hist w) \<and>
    count (client w) MsgsDropped = count c MsgsDropped + length (dropped (hist w))"
  using runs_from_inv [OF assms]
  by (simp add: world_inv_def fifo_def conserved_def counters_right_def)

theorem world_accounting_witness:
  "\<exists>c w. runs_from sample_host (\<lambda>u. ''id'') sample_mem 1 (Inr (Some NoOP)) [] c w \<and>
     mset (accepted (hist w)) = mset (queue (client w)) + mset (in_hand (sdr w)) +
       mset (sent (hist w)) + mset (dropped (hist w)) \<and> accepted (hist w) \<noteq> []"
proof -
  have "accepted (hist sample_sent) \<noteq> []" by (simp add: sample_sent_def)
  with world_accounting [OF sample_runs] sample_runs show ?thesis by blast
qed

text \<open>
  C3. Order: messages leave the queue in the order they entered it, are sent in the order they left it, and
  dropped in that order; a message that came back is counted, so on a client that requeued nothing the
  messages sent and those dropped are each in the order in which \<open>Send\<close> accepted them.
\<close>

theorem world_order:
  assumes "runs_from h ustr mem uid r options c w"
  shows "subseq (sent (hist w) @ in_hand (sdr w)) (taken (hist w)) \<and>
    subseq (dropped (hist w) @ in_hand (sdr w)) (taken (hist w)) \<and>
    subseq (accepted (hist w)) (offered (hist w)) \<and>
    length (offered (hist w)) - length (accepted (hist w)) = count (client w) MsgsRequeued - count c MsgsRequeued \<and>
    (count (client w) MsgsRequeued = count c MsgsRequeued \<longrightarrow>
      subseq (sent (hist w)) (accepted (hist w)) \<and> subseq (dropped (hist w)) (accepted (hist w)))"
proof -
  from runs_from_inv [OF assms] have f: "offered (hist w) = taken (hist w) @ queue (client w)"
    and o: "subseq (sent (hist w) @ in_hand (sdr w)) (taken (hist w))"
      "subseq (dropped (hist w) @ in_hand (sdr w)) (taken (hist w))"
      "subseq (accepted (hist w)) (offered (hist w))"
    and k: "count (client w) MsgsRequeued + length (accepted (hist w)) =
      count c MsgsRequeued + length (offered (hist w))"
    by (simp_all add: world_inv_def fifo_def in_order_def counters_right_def)
  have "subseq xs (accepted (hist w))"
    if "count (client w) MsgsRequeued = count c MsgsRequeued" "subseq xs (taken (hist w))" for xs
  proof -
    from that(1) k have "length (accepted (hist w)) = length (offered (hist w))" by simp
    with o(3) have "accepted (hist w) = offered (hist w)" by (rule subseq_same_length)
    with f subseq_rev_drop_many [OF that(2)] show ?thesis by simp
  qed
  with o subseq_keep [OF o(1)] subseq_keep [OF o(2)] k list_emb_length [OF o(3)] show ?thesis by auto
qed

theorem world_order_witness:
  "subseq (accepted (hist sample_sent)) (offered (hist sample_sent))"
  using world_order [OF sample_runs] by blast

section \<open>Senders and the client's death\<close>

text \<open>
  C6. One sender at a time, and death in order, although every sender ever started may act as long as its task has
  not ended. In every reachable state all senders started before the last one have ended; the last one has ended
  too when the manager is about to start another; and as long as the manager does not supervise a sender
  (it reconnects, hands over or gives up) only a sender on a no-op connection may use the queue. So no two senders ever compete for
  the queue. And \<open>Send\<close> sees a dead client only when the manager has given up for good, which it does after the death notice.
\<close>

theorem world_handover:
  assumes "runs_from h ustr mem uid r options c w"
  shows "(\<forall>p \<in> set (old w). p = Absent) \<and>
    (\<forall>m. mgr w = Launching m \<longrightarrow> sdr w = Absent) \<and>
    (mgr w \<noteq> Supervising \<longrightarrow>
      (\<forall>m. pc_sender (sdr w) = Some m \<longrightarrow> conn_Type (ms_conn m) = TypeNoOP)) \<and>
    (clientDead (client w) \<longleftrightarrow> mgr w = Stopping None \<or> mgr w = Gone)"
  using runs_from_inv [OF assms]
  by (auto simp: world_inv_def exclusive_def dead_in_order_def one_sender_def)

theorem world_handover_witness:
  "\<not> clientDead (client sample_sent) \<and> sdr sample_sent = Absent"
  using world_handover [OF sample_runs]
  by (simp add: sample_sent_def sample_start_def started_def)

section \<open>Refinement of an abstract pipeline\<close>

text \<open>
  The abstract view of the client: how many calls are inside \<open>Send\<close>, a bag of pending messages, the bags of those sent and
  dropped, and whether it is dead. A call enters while the client is alive; it leaves with an error, or its message is
  accepted, even if the client died meanwhile. A pending message is later sent or dropped, once. A client that died stays dead.
\<close>

record pipeline =
  p_calls :: nat
  p_pending :: "Msg multiset"
  p_sent :: "Msg multiset"
  p_dropped :: "Msg multiset"
  p_dead :: bool

inductive pipeline_step :: "pipeline \<Rightarrow> pipeline \<Rightarrow> bool" where
  p_enter: "\<not> p_dead p \<Longrightarrow> pipeline_step p (p\<lparr>p_calls := p_calls p + 1\<rparr>)"
| p_refuse: "0 < p_calls p \<Longrightarrow> pipeline_step p (p\<lparr>p_calls := p_calls p - 1\<rparr>)"
| p_accept: "0 < p_calls p \<Longrightarrow> user_type (msg_Type msg) \<Longrightarrow>
    pipeline_step p (p\<lparr>p_calls := p_calls p - 1, p_pending := p_pending p + {#msg#}\<rparr>)"
| p_deliver: "msg \<in># p_pending p \<Longrightarrow>
    pipeline_step p (p\<lparr>p_pending := p_pending p - {#msg#}, p_sent := p_sent p + {#msg#}\<rparr>)"
| p_drop: "msg \<in># p_pending p \<Longrightarrow>
    pipeline_step p (p\<lparr>p_pending := p_pending p - {#msg#}, p_dropped := p_dropped p + {#msg#}\<rparr>)"
| p_die: "\<not> p_dead p \<Longrightarrow> pipeline_step p (p\<lparr>p_dead := True\<rparr>)"

definition pipeline_of :: "world \<Rightarrow> pipeline" where
  "pipeline_of w = \<lparr>p_calls = length (calls w), p_pending = mset (queue (client w)) + mset (in_hand (sdr w)),
     p_sent = mset (sent (hist w)), p_dropped = mset (dropped (hist w)), p_dead = clientDead (client w)\<rparr>"

definition stutters :: "world \<Rightarrow> world \<Rightarrow> bool" where
  "stutters w w' \<longleftrightarrow> pipeline_of w' = pipeline_of w"

lemma stutters_lines:
  "stutters w w' \<Longrightarrow> hist w' = h \<Longrightarrow> stutters w (w'\<lparr>hist := h\<lparr>line_log := ls\<rparr>\<rparr>)"
  by (simp add: stutters_def pipeline_of_def)

lemma stutters_old: "stutters w w' \<Longrightarrow> stutters w (w'\<lparr>old := ps\<rparr>)"
  by (simp add: stutters_def pipeline_of_def)

lemma stutters_undisturbed:
  assumes "undisturbed (client w) c" and "clientDead c = clientDead (client w)"
    and "in_hand p = in_hand (sdr w)"
  shows "stutters w (w\<lparr>client := c, sdr := p, mgr := q\<rparr>)"
  using assms by (simp add: stutters_def pipeline_of_def undisturbed_def)

text \<open>The steps that move a message.\<close>

lemma refine_load:
  assumes "\<not> clientDead (client w)"
  shows "pipeline_step (pipeline_of w) (pipeline_of (w\<lparr>calls := calls w @ [x]\<rparr>))"
  using p_enter [of "pipeline_of w"] assms by (simp add: pipeline_of_def)

lemma refine_check:
  assumes "calls w = xs @ x # ys"
  shows "stutters w (w\<lparr>calls := xs @ checked (client w) msg @ ys\<rparr>) \<or>
    pipeline_step (pipeline_of w) (pipeline_of (w\<lparr>calls := xs @ checked (client w) msg @ ys\<rparr>))"
proof (cases "checked (client w) msg")
  case Nil
  with p_refuse [of "pipeline_of w"] assms show ?thesis by (simp add: pipeline_of_def)
next
  case (Cons z zs)
  then have "zs = []" by (auto simp: checked_def split: sum.splits)
  with Cons assms show ?thesis by (simp add: stutters_def pipeline_of_def)
qed

lemma refine_put:
  assumes "world_inv c0 w" and "calls w = xs @ Validated msg # ys" and "Send_put (client w) msg = (r, c)"
  shows "pipeline_step (pipeline_of w)
    (pipeline_of (w\<lparr>client := c, calls := xs @ ys, hist := note_put r msg (hist w)\<rparr>))"
proof -
  from assms(1,2) have ok: "client_ok (client w)" "message_ok (serviceTreeID (client w)) (memory (client w)) msg"
    by (simp_all add: inv_defs)
  from ok(2) have user: "user_type (msg_Type msg)" by (simp add: message_ok_def)
  note put = Send_put_keeps [OF ok assms(3)]
  from put(4) have dead: "clientDead c = clientDead (client w)"
    by (metis Client.select_convs(9) Client.update_convs(5) Client.surjective)
  from assms(2) have "0 < p_calls (pipeline_of w)" by (simp add: pipeline_of_def)
  from p_accept [OF this user] p_refuse [OF this] assms(2) put(2) dead show ?thesis
    by (cases r) (simp_all add: pipeline_of_def note_put_def)
qed

lemma refine_finish:
  assumes "in_hand (sdr w) = [msg]" and "user_type (msg_Type msg)"
    and "write_effect (ms_conn m) (client w) msg r c" and "clientDead c = clientDead (client w)"
  shows "stutters w (w\<lparr>client := c, sdr := after_message m r,
        hist := note_message m (client w) msg r (hist w)\<rparr>) \<or>
      pipeline_step (pipeline_of w) (pipeline_of (w\<lparr>client := c, sdr := after_message m r,
        hist := note_message m (client w) msg r (hist w)\<rparr>))" (is "_ \<or> pipeline_step _ (pipeline_of ?w)")
proof -
  have hand: "in_hand (after_message m r) = []" "in_hand (sdr w) = [msg]"
    by (simp_all add: assms(1))
  have msg: "msg \<in># p_pending (pipeline_of w)" by (simp add: pipeline_of_def hand)
  consider (noop) "r = None" "conn_Type (ms_conn m) = TypeNoOP" | (sent) "r = None" "conn_Type (ms_conn m) \<noteq> TypeNoOP"
    | (requeued) err where "r = Some err" "has_room (client w)" | (lost) err where "r = Some err" "\<not> has_room (client w)"
    by (cases r) auto
  then show ?thesis
  proof cases
    case noop
    with assms hand have "pipeline_of ?w = (pipeline_of w)
        \<lparr>p_pending := p_pending (pipeline_of w) - {#msg#}, p_dropped := p_dropped (pipeline_of w) + {#msg#}\<rparr>"
      by (simp add: pipeline_of_def note_message_def write_effect_def)
    with p_drop [OF msg] show ?thesis by simp
  next
    case sent
    with assms hand have "pipeline_of ?w = (pipeline_of w)
        \<lparr>p_pending := p_pending (pipeline_of w) - {#msg#}, p_sent := p_sent (pipeline_of w) + {#msg#}\<rparr>"
      by (simp add: pipeline_of_def note_message_def write_effect_def)
    with p_deliver [OF msg] show ?thesis by simp
  next
    case requeued
    with assms hand have "stutters w ?w"
      by (simp add: stutters_def pipeline_of_def note_message_def write_effect_def)
    then show ?thesis by simp
  next
    case lost
    with assms hand have "pipeline_of ?w = (pipeline_of w)
        \<lparr>p_pending := p_pending (pipeline_of w) - {#msg#}, p_dropped := p_dropped (pipeline_of w) + {#msg#}\<rparr>"
      by (simp add: pipeline_of_def note_message_def write_effect_def)
    with p_drop [OF msg] show ?thesis by simp
  qed
qed

text \<open>The steps that do not.\<close>

lemma refine_finish_beat:
  assumes "world_inv c0 w" and "sdr w = BeatWritten m r"
    and "finish_write now (ms_conn m) (client w) (ms_heartbeat m) r = Done c"
  shows "stutters w (w\<lparr>client := c, sdr := after_beat m r, hist := note_beat m r (hist w)\<rparr>)"
proof -
  have hand: "in_hand (sdr w) = []" "pc_sender (sdr w) = Some m"
    using assms(2) by (simp_all add: in_hand_def)
  note hb = held_heartbeat [OF assms(1) hand(2)]
  note wr = finish_facts [OF world_inv_simps(1) [OF assms(1)] hb(2) assms(3)]
  from hb(3) wr(2) have "queue c = queue (client w)" by (auto simp: write_effect_def split: if_splits)
  moreover have "sent (note_beat m r (hist w)) = sent (hist w)" "dropped (note_beat m r (hist w)) = dropped (hist w)"
    by (simp_all add: note_beat_def)
  ultimately show ?thesis using wr(5) hand(1) by (simp add: stutters_def pipeline_of_def)
qed

lemma refine_memory:
  "in_hand p = in_hand (sdr w) \<Longrightarrow> stutters w (w\<lparr>client := (client w)\<lparr>memory := mem'\<rparr>, sdr := p\<rparr>)"
  by (simp add: stutters_def pipeline_of_def queue_def)

lemma refine_take:
  assumes "client_ok (client w)" and "sdr w = Selecting m" and "sendCh (client w) = Some ch"
    and "TryGet ch = (Some msg, ch')"
  shows "stutters w (w\<lparr>client := (client w)\<lparr>sendCh := Some ch'\<rparr>, sdr := Holding m msg,
      hist := (hist w)\<lparr>taken := taken (hist w) @ [msg]\<rparr>\<rparr>)"
  using take_message(4) [OF assms(1,3,4)] assms(2)
  by (simp add: stutters_def pipeline_of_def in_hand_def)

lemma step_refines:
  assumes "step h w w'" and "world_inv c0 w"
  shows "stutters w w' \<or> pipeline_step (pipeline_of w) (pipeline_of w')"
  using assms(1) world_inv_simps(6) [OF assms(2)]
proof (cases rule: step_cases)
  case (send_load msg)
  with refine_load show ?thesis by simp
next
  case (send_check xs msg ys)
  with refine_check show ?thesis by simp
next
  case (send_put xs msg ys r c)
  with refine_put [OF assms(2)] show ?thesis by simp
next
  case (other x)
  note u = undisturbed_other [OF world_inv_simps(1) [OF assms(2)] other(2)]
  from stutters_undisturbed [OF u, of "sdr w" "mgr w"] other(1) show ?thesis
    by (simp add: same_world stutters_def pipeline_of_def note_other_def)
next
  case (take_msg m ch msg ch')
  with refine_take [OF world_inv_simps(1) [OF assms(2)]] show ?thesis by simp
next
  case (user_memory mem')
  from refine_memory [of "sdr w" w mem'] user_memory(1) show ?thesis by simp
next
  case (write_msg m msg ne r mem' os)
  then have "in_hand (Written m msg r) = in_hand (sdr w)" by (simp add: in_hand_def)
  from stutters_lines [OF refine_memory [OF this] refl] write_msg(1) show ?thesis by (simp add: noted_def)
next
  case (finish_msg m msg r now c)
  then have hand: "in_hand (sdr w) = [msg]" by (simp add: in_hand_def)
  note msg = held_message [OF assms(2) hand]
  note wr = finish_facts [OF world_inv_simps(1) [OF assms(2)] msg(1) finish_msg(3)]
  from refine_finish [OF hand msg(2) wr(2,5)] finish_msg(1) show ?thesis by simp
next
  case (beat m ne r mem' os)
  then have "in_hand (BeatWritten m r) = in_hand (sdr w)" by (auto simp: in_hand_def)
  from stutters_lines [OF refine_memory [OF this] refl] beat(1) show ?thesis by (simp add: noted_def)
next
  case (finish_beat m r now c)
  with refine_finish_beat [OF assms(2)] show ?thesis by simp
next
  case (deferred_start noop err c now p)
  note d = undisturbed_defer [OF world_inv_simps(1) [OF assms(2)]]
  have "in_hand p = in_hand (sdr w)"
    using deferred_start(2,4) world_inv_simps(7) [OF assms(2)] by (auto simp: in_hand_def launched_def)
  from stutters_lines [OF stutters_old [OF stutters_undisturbed [OF d this]] refl] show ?thesis
    using deferred_start(1,3) by (simp add: new_line_def)
next
  case (launch m p)
  have "in_hand p = in_hand (sdr w)"
    using launch(2,3) world_inv_simps(7) [OF assms(2)] by (auto simp: in_hand_def launched_def)
  with launch(1) show ?thesis by (simp add: stutters_def pipeline_of_def new_line_def)
next
  case (sender_ended m err now)
  let ?c = "sendNotify now (client w) (Some (errorf ''audit.Client connection error: %w'' [err]))"
  from sender_ended(3) have "in_hand Absent = in_hand (sdr w)" by (simp add: in_hand_def)
  from stutters_undisturbed [OF undisturbed_sendNotify [OF world_inv_simps(1) [OF assms(2)]] _ this]
  show ?thesis using sender_ended(1) by simp
next
  case (attempt_failed e n err s)
  note q = attempt_quiet [OF world_inv_simps(1) [OF assms(2)] attempt_failed(3,4)]
  from stutters_undisturbed [OF q(1,2), of "sdr w" "mgr w"] attempt_failed(1)
  show ?thesis by (simp add: same_world)
next
  case (gave_up e n err s err')
  note q = attempt_quiet [OF world_inv_simps(1) [OF assms(2)] gave_up(3,4)]
  from stutters_undisturbed [OF q(1,2), of "sdr w"] gave_up(1) show ?thesis by (simp add: same_world)
next
  case (reconnected e n s)
  note q = attempt_quiet [OF world_inv_simps(1) [OF assms(2)] reconnected(3,4)]
  from stutters_undisturbed [OF q(1,2), of "sdr w"] reconnected(1) show ?thesis by (simp add: same_world)
next
  case (announce err sched now c)
  note d = undisturbed_dead_notice [OF world_inv_simps(1) [OF assms(2)] announce(3)]
  from stutters_undisturbed [OF d, of "sdr w"] announce(1) show ?thesis by (simp add: same_world)
next
  case (mark_dead err)
  with world_inv_simps(2) [OF assms(2)] have "\<not> p_dead (pipeline_of w)" by (simp add: pipeline_of_def)
  from p_die [OF this] mark_dead(1) show ?thesis by (simp add: pipeline_of_def queue_def)
next
  case (stop_noop nxt m err)
  then have "in_hand Absent = in_hand (sdr w)" by (auto simp: in_hand_def)
  with stop_noop(1) show ?thesis by (simp add: stutters_def pipeline_of_def)
next
  case (take_over m c)
  note u = undisturbed_handover [OF world_inv_simps(1) [OF assms(2)] take_over(4)]
  from stutters_undisturbed [OF u, of "sdr w"] take_over(1) show ?thesis by (simp add: same_world)
next
  case ended
  then show ?thesis by (simp add: stutters_def pipeline_of_def)
qed

definition empty_pipeline :: pipeline where
  "empty_pipeline = \<lparr>p_calls = 0, p_pending = {#}, p_sent = {#}, p_dropped = {#}, p_dead = False\<rparr>"

lemma started_pipeline:
  assumes "startable c t"
  shows "pipeline_of (started h c t) = empty_pipeline"
proof -
  from started_inv [OF assms, of h] have inv: "conserved (started h c t)" "dead_in_order (started h c t)"
    by (simp_all add: world_inv_def)
  have "mset (accepted (hist (started h c t))) = {#}" "mset (sent (hist (started h c t))) = {#}"
    "mset (dropped (hist (started h c t))) = {#}" "calls (started h c t) = []"
    by (simp_all add: started_def no_history_def)
  with inv(1) have "pipeline_of (started h c t) = empty_pipeline\<lparr>p_dead := clientDead (client (started h c t))\<rparr>"
    by (simp add: conserved_def pipeline_of_def empty_pipeline_def no_history_def)
  moreover have "\<not> clientDead (client (started h c t))"
    using inv(2) by (simp add: dead_in_order_def started_def split: task.splits)
  ultimately show ?thesis by (simp add: empty_pipeline_def)
qed

lemma reachable_pipeline:
  "reachable h c t w \<Longrightarrow> startable c t \<Longrightarrow> pipeline_step\<^sup>*\<^sup>* empty_pipeline (pipeline_of w)"
proof (induction rule: reachable.induct)
  case reach_start
  then show ?case by (simp add: started_pipeline)
next
  case (reach_step w w')
  from step_refines [OF reach_step.hyps(2) reachable_inv [OF reach_step.hyps(1) reach_step.prems]]
  show ?case using reach_step by (auto simp: stutters_def intro: rtranclp.rtrancl_into_rtrancl)
qed

text \<open>
  What the abstract pipeline promises: outcomes are final, death too; a dead client lets no call in, so it can accept no
  more messages than there were calls inside when it died.
\<close>

definition total :: "pipeline \<Rightarrow> nat" where
  "total p = p_calls p + size (p_pending p) + size (p_sent p) + size (p_dropped p)"

inductive_cases pipeline_stepE: "pipeline_step p q"

lemma pipeline_step_final:
  assumes "pipeline_step p q"
  shows "p_sent p \<subseteq># p_sent q \<and> p_dropped p \<subseteq># p_dropped q \<and>
    (p_dead p \<longrightarrow> p_dead q \<and> total q \<le> total p \<and>
      (p_calls p = 0 \<longrightarrow> p_calls q = 0 \<and> p_pending q \<subseteq># p_pending p))"
  using assms by (rule pipeline_stepE) (auto simp: total_def dest!: multi_member_split)

lemma pipeline_run_final:
  "pipeline_step\<^sup>*\<^sup>* p q \<Longrightarrow> p_sent p \<subseteq># p_sent q \<and> p_dropped p \<subseteq># p_dropped q \<and>
     (p_dead p \<longrightarrow> p_dead q \<and> total q \<le> total p \<and>
       (p_calls p = 0 \<longrightarrow> p_calls q = 0 \<and> p_pending q \<subseteq># p_pending p))"
proof (induction rule: rtranclp_induct)
  case (step q r)
  from pipeline_step_final [OF step.hyps(2)] step.IH show ?case
    by (auto intro: subset_mset.order_trans)
qed simp

text \<open>On a world the total is the number of messages accepted, with the calls inside \<open>Send\<close>.\<close>

lemma total_of_world:
  assumes "world_inv c0 w"
  shows "total (pipeline_of w) = length (accepted (hist w)) + length (calls w)"
proof -
  from assms have "size (mset (accepted (hist w))) = size (mset (queue (client w)) + mset (in_hand (sdr w)) +
      mset (sent (hist w)) + mset (dropped (hist w)))" by (simp add: world_inv_def conserved_def)
  then show ?thesis by (simp add: total_def pipeline_of_def)
qed

lemma steps_pipeline:
  "(step h)\<^sup>*\<^sup>* w w' \<Longrightarrow> world_inv c0 w \<Longrightarrow> world_inv c0 w' \<and> pipeline_step\<^sup>*\<^sup>* (pipeline_of w) (pipeline_of w')"
proof (induction rule: rtranclp_induct)
  case (step w' w'')
  then have w': "world_inv c0 w'" "pipeline_step\<^sup>*\<^sup>* (pipeline_of w) (pipeline_of w')" by simp_all
  from step_refines [OF step.hyps(2) w'(1)] w'(2) step_inv [OF step.hyps(2) w'(1)] show ?case
    by (auto simp: stutters_def intro: rtranclp.rtrancl_into_rtrancl)
qed simp

text \<open>
  C2. Refinement: what has happened to the client so far, with its queue, senders, connections, reconnects and
  notifications, is a run of the abstract pipeline from empty, and so is whatever happens next. In particular
  a message sent or dropped stays so, and the death is final. A dead client lets no call of \<open>Send\<close> in: from then on it accepts at most as many
  messages as there were calls that had already found it alive, and none if there was no such call.
\<close>

theorem world_refines_pipeline:
  assumes "runs_from h ustr mem uid r options c w" and "(step h)\<^sup>*\<^sup>* w w'"
  shows "pipeline_step\<^sup>*\<^sup>* empty_pipeline (pipeline_of w) \<and>
    pipeline_step\<^sup>*\<^sup>* (pipeline_of w) (pipeline_of w') \<and>
    mset (sent (hist w)) \<subseteq># mset (sent (hist w')) \<and> mset (dropped (hist w)) \<subseteq># mset (dropped (hist w')) \<and>
    (clientDead (client w) \<longrightarrow> clientDead (client w') \<and>
      length (accepted (hist w')) + length (calls w') \<le> length (accepted (hist w)) + length (calls w) \<and>
      (calls w = [] \<longrightarrow> mset (queue (client w')) + mset (in_hand (sdr w')) \<subseteq>#
         mset (queue (client w)) + mset (in_hand (sdr w))))"
proof -
  from assms(1) obtain t where std: "list_all std_option options"
    and new: "New h ustr None mem uid r options = Done (Inr c, Some t)" and run: "reachable h c t w"
    by (auto simp: runs_from_def)
  from reachable_pipeline [OF run New_startable [OF std new]]
  have first: "pipeline_step\<^sup>*\<^sup>* empty_pipeline (pipeline_of w)" .
  from runs_from_inv [OF assms(1)] have inv: "world_inv c w" by blast
  from steps_pipeline [OF assms(2) inv] have inv': "world_inv c w'"
    and path: "pipeline_step\<^sup>*\<^sup>* (pipeline_of w) (pipeline_of w')" by simp_all
  note fin = pipeline_run_final [OF path, unfolded total_of_world [OF inv] total_of_world [OF inv']]
  show ?thesis using first path fin by (simp add: pipeline_of_def)
qed

theorem world_refines_pipeline_witness:
  "\<exists>w w'. runs_from sample_host (\<lambda>u. ''id'') sample_mem 1 (Inr (Some NoOP)) [] sample_born w \<and>
     step sample_host w w' \<and> pipeline_step\<^sup>*\<^sup>* (pipeline_of w) (pipeline_of w')"
proof -
  let ?w = sample_sent
  let ?w' = "?w\<lparr>client := other_step UserReceive (client ?w), hist := note_other UserReceive (client ?w) (hist ?w)\<rparr>"
  have s: "step sample_host ?w ?w'" by (rule step.other) simp
  from world_refines_pipeline [OF sample_runs r_into_rtranclp, OF s] s sample_runs show ?thesis by blast
qed

end
