(* ===== verification/WorldBounds.thy ===== *)
theory WorldBounds
  imports WorldClaims
begin

text \<open>
  The channels of a running client keep the capacities \<open>New\<close> gave them, so its memory is
  bounded by the configured queue size whatever the users and the network do.
\<close>

definition caps :: "Client \<Rightarrow> nat option \<times> nat option" where
  "caps c = (map_option cap (sendCh c), map_option cap (notifier c))"

lemma caps_updates [simp]:
  "caps (c\<lparr>metrics := x1\<rparr>) = caps c" "caps (c\<lparr>memory := x2\<rparr>) = caps c"
  "caps (c\<lparr>closers := x3\<rparr>) = caps c" "caps (c\<lparr>log := x4\<rparr>) = caps c"
  "caps (c\<lparr>clientDead := x5\<rparr>) = caps c"
  by (simp_all add: caps_def)

lemma caps_sendNotify [simp]: "caps (sendNotify now c err) = caps c"
  by (auto simp: caps_def sendNotify_def logDrop_def log_add_def TryPut_def
      split: option.split prod.split bool.split)

lemma caps_log_add [simp]: "caps (log_add l c) = caps c"
  by (simp add: log_add_def)

lemma caps_handover: "handover_log c c' \<Longrightarrow> caps c' = caps c"
  by (auto simp: handover_log_def)

lemma caps_closeAuditConn [simp]: "caps (closeAuditConn c a) = caps c"
  by (simp add: closeAuditConn_def)

lemma caps_put: "has_room c \<Longrightarrow> caps (c\<lparr>sendCh := Some ((the (sendCh c))\<lparr>buf := xs\<rparr>)\<rparr>) = caps c"
  by (auto simp: caps_def has_room_def split: option.splits)

lemma caps_Send: "Send_client c msg = (r, c') \<Longrightarrow> caps c' = caps c"
  by (auto simp: Send_client_eq caps_put split: if_splits option.splits)

lemma caps_other: "caps (other_step x c) = caps c"
proof (cases x)
  case (UserSend msg)
  then show ?thesis by (cases "Send_client c msg") (simp add: caps_Send)
next
  case (CloserReturns now a err)
  then show ?thesis by (cases err) (simp_all add: closer_returns_def Let_def)
next
  case UserReceive
  then show ?thesis
    by (cases "notifier c") (auto simp: caps_def TryGet_def split: list.split)
qed

lemma caps_metrics_Add: "metrics_Add k c = Done c' \<Longrightarrow> caps c' = caps c"
  by (auto simp: metrics_Add_def split: option.splits)

lemma caps_requeue: "requeue c msg = Done c' \<Longrightarrow> caps c' = caps c"
  by (auto simp: requeue_def TryPut_nilable_cases caps_put split: if_splits dest!: caps_metrics_Add)

lemma caps_counts:
  "count_failed c msg = Done c' \<Longrightarrow> caps c' = caps c" "count_noop c msg = Done c' \<Longrightarrow> caps c' = caps c"
  by (auto simp: count_failed_def count_noop_def split: if_splits dest: caps_metrics_Add caps_requeue)

lemma caps_finish: "finish_write now a c msg r = Done c' \<Longrightarrow> caps c' = caps c"
  by (auto simp: finish_write_def bind_outcome_Done split: option.splits if_splits
      dest!: caps_metrics_Add caps_counts)

lemma caps_take:
  "sendCh c = Some ch \<Longrightarrow> TryGet ch = (Some msg, ch') \<Longrightarrow> caps (c\<lparr>sendCh := Some ch'\<rparr>) = caps c"
  by (auto simp: caps_def dest: ch.get_capacity)

lemma caps_attempt:
  assumes "client_ok c" and "quiet e" and "attempt h e n (bare c) = Done (r, s)"
  shows "caps (cs_client s) = caps c"
proof -
  from assms(2) have q: "re_noop e n = []" "re_others e n = []"
    by (auto simp: quiet_def)
  have close: "caps (closed_unused h c x) = caps c" for x
    by (auto simp: closed_unused_def split: sum.split option.split)
  show ?thesis
    using assms(3) q close
    by (cases rule: created_cases [of "re_create e n" h c])
       (auto simp: attempt_def run_noop_def bare_def others_def Let_def createSender_eq [OF assms(1)]
         conn_failure_def split: if_splits)
qed

lemma caps_dead_notice:
  assumes "client_ok c" and "sendNotifyDead sched now c (Some e) = Some c'"
  shows "caps c' = caps c"
proof -
  let ?v = "\<lparr>ne_Time = now, ne_Err = e\<rparr>"
  from assms(1) obtain n where n: "notifier c = Some n" "ch.bounded n" "0 < cap n"
    by (auto simp: client_ok_def)
  with assms(2) obtain n' ev where loop: "dead_loop sched ?v n [] = Some (n', ev)"
    and c': "c' = fold (\<lambda>x. log_add (''audit.Client notifier channel is full, evicting notification for the client death notice'', Some (ne_Err x))) ev (c\<lparr>notifier := Some n'\<rparr>)"
    by (auto simp: sendNotifyDead_def notice_def split: option.splits prod.splits)
  from dead_loop_result [OF loop n(2)] n(1) show ?thesis by (simp add: c' caps_def)
qed

lemma caps_put_step: "Send_put c msg = (r, c') \<Longrightarrow> caps c' = caps c"
  by (auto simp: Send_put_eq caps_put split: if_splits)

lemma caps_sender: "sender_step i (p, c, k) (p', c', k') \<Longrightarrow> caps c' = caps c"
  by (erule sender_stepE) (simp_all add: caps_take caps_finish)

lemma step_caps:
  assumes "step h w w'" and "client_ok (client w)"
  shows "caps (client w') = caps (client w)"
  using assms(1)
  by cases (simp_all add: caps_put_step caps_sender caps_other caps_handover caps_attempt [OF assms(2)]
    caps_dead_notice [OF assms(2)])

lemma reachable_caps:
  "reachable h c t w \<Longrightarrow> startable c t \<Longrightarrow> caps (client w) = caps c"
proof (induction rule: reachable.induct)
  case reach_start
  then show ?case by (simp add: started_def)
next
  case (reach_step w w')
  then have "client_ok (client w)" using reachable_inv world_inv_simps(1) by blast
  with step_caps [OF reach_step.hyps(2)] reach_step show ?case by simp
qed

text \<open>
  C24. Bounded memory: in every reachable state the queue holds at most the configured number of messages,
  with the one in the sender's hands beside it, and the notification channel at most two notices,
  however many messages users send and however often connecting fails.
\<close>

theorem world_bounded:
  assumes "runs_from h ustr mem uid r options c w"
  shows "length (queue (client w)) \<le> nat (queueSize c) \<and> length (in_hand (sdr w)) \<le> 1 \<and>
    length (notices (client w)) \<le> 2"
proof -
  from assms obtain t where std: "list_all std_option options"
    and new: "New h ustr None mem uid r options = Done (Inr c, Some t)" and run: "reachable h c t w"
    by (auto simp: runs_from_def)
  note t = New_startable [OF std new] run
  from runs_from_inv [OF assms] have ok: "client_ok (client w)" and c: "ready c"
    by (auto simp: world_inv_def well_formed_def)
  from reachable_caps [OF t(2,1)] have caps: "caps (client w) = caps c" .
  from c obtain s n where c': "sendCh c = Some s" "notifier c = Some n" "cap s = nat (queueSize c)" "cap n = 2"
    by (auto simp: ready_def client_ok_def)
  from ok obtain s' n' where w: "sendCh (client w) = Some s'" "notifier (client w) = Some n'"
    "length (buf s') \<le> cap s'" "length (buf n') \<le> cap n'"
    by (auto simp: client_ok_def ch.bounded_def)
  from caps c' w show ?thesis
    by (auto simp: caps_def queue_def notices_def in_hand_def split: sender_pc.split)
qed

theorem world_bounded_witness:
  "length (notices (client sample_sent)) \<le> 2"
  using world_bounded [OF sample_runs] by simp

end
