(* ===== verification/WorldEnd.thy ===== *)
theory WorldEnd
  imports WorldClaims
begin

text \<open>
  How a client ends: the cause of its death reaches the user whatever else is going on, and a
  hand-over or a death that has begun can always be completed.
\<close>

section \<open>The cause of death\<close>

text \<open>The death notice for a cause, and the notices the user has received or can still receive.\<close>

definition death_note :: "int \<Rightarrow> goerr \<Rightarrow> NotifyError" where
  "death_note now err = \<lparr>ne_Time = now,
     ne_Err = errorf ''audit.Client connection error: stopping connection manager: %w'' [err]\<rparr>"

definition told :: "world \<Rightarrow> NotifyError set" where
  "told w = set (heard (hist w)) \<union> set (notices (client w))"

definition explained :: "world \<Rightarrow> bool" where
  "explained w \<longleftrightarrow> (\<exists>now err. permanent err \<and> death_note now err \<in> told w)"

fun ending_ok :: "manager_pc \<Rightarrow> bool \<Rightarrow> bool" where
  "ending_ok (Dying err) b \<longleftrightarrow> permanent err"
| "ending_ok (Announced err) b \<longleftrightarrow> b"
| "ending_ok (Stopping None) b \<longleftrightarrow> b"
| "ending_ok Gone b \<longleftrightarrow> b"
| "ending_ok q b \<longleftrightarrow> True"

lemma ending_ok_mono: "ending_ok q b \<Longrightarrow> (b \<Longrightarrow> b') \<Longrightarrow> ending_ok q b'"
  by (cases "(q, b)" rule: ending_ok.cases) auto

lemma told_mono: "told w \<subseteq> told w' \<Longrightarrow> explained w \<Longrightarrow> explained w'"
  by (auto simp: explained_def)

lemma notices_grow: "set (notices c) \<subseteq> set (notices (sendNotify now c (Some e)))"
  by (simp add: notices_sendNotify)

lemma notices_Send: "Send_client c msg = (r, c') \<Longrightarrow> notices c' = notices c"
  by (auto simp: Send_client_eq notices_def split: if_splits option.splits)

lemma notices_other:
  assumes "\<not> is_send x" and "notifier c \<noteq> None"
  shows "set (notices c) \<subseteq> set (heard (note_other x c h)) \<union> set (notices (other_step x c))"
proof (cases x)
  case (CloserReturns now a err)
  have "notices (d\<lparr>closers := ks\<rparr>) = notices d" for d ks by (simp add: notices_def)
  with CloserReturns notices_grow show ?thesis
    by (cases err) (auto simp: closer_returns_def Let_def note_other_def)
next
  case UserReceive
  from assms(2) obtain n where n: "notifier c = Some n" by blast
  with UserReceive show ?thesis
    by (cases "buf n") (auto simp: note_other_def notices_def TryGet_def)
qed (use assms in auto)

text \<open>No step but the consumer's own takes a notice away while the client is ending.\<close>

lemma step_ending:
  assumes "step h w w'" and "world_inv c0 w" and "ending_ok (mgr w) (explained w)"
  shows "ending_ok (mgr w') (explained w')"
proof -
  note ok = world_inv_simps(1) [OF assms(2)]
  have keep: ?thesis if "told w \<subseteq> told w'" "mgr w' = mgr w"
    using that assms(3) told_mono [OF that(1)] by (auto intro: ending_ok_mono)
  show ?thesis
    using assms(1) world_inv_simps(6) [OF assms(2)]
  proof (cases rule: step_cases)
    case (send_load msg)
    then show ?thesis by (intro keep) (auto simp: told_def)
  next
    case (send_check xs msg ys)
    then show ?thesis by (intro keep) (auto simp: told_def)
  next
    case (send_put xs msg ys r c)
    then have "notices c = notices (client w)" by (auto simp: Send_put_eq notices_def split: if_splits)
    with send_put(1) show ?thesis by (intro keep) (auto simp: told_def note_put_def)
  next
    case (other x)
    have "heard (hist w) = heard (note_other x (client w) (hist w)) \<or>
        set (heard (hist w)) \<subseteq> set (heard (note_other x (client w) (hist w)))"
      by (simp add: note_other_def)
    with other notices_other [OF other(2), of "client w" "hist w"] ok show ?thesis
      by (intro keep) (auto simp: told_def client_ok_def)
  next
    case (take_msg m ch msg ch')
    then show ?thesis by (intro keep) (auto simp: told_def notices_def)
  next
    case (user_memory mem')
    then show ?thesis by (intro keep) (auto simp: told_def notices_def)
  next
    case (write_msg m msg ne r mem' os)
    then show ?thesis by (intro keep) (auto simp: told_def notices_def noted_def)
  next
    case (finish_msg m msg r now c)
    then have "in_hand (sdr w) = [msg]" by (simp add: in_hand_def)
    from finish_facts(6) [OF ok held_message(1) [OF assms(2) this] finish_msg(3)] finish_msg(1)
    show ?thesis by (intro keep) (auto simp: told_def note_message_def)
  next
    case (beat m ne r mem' os)
    then show ?thesis by (intro keep) (auto simp: told_def notices_def noted_def)
  next
    case (finish_beat m r now c)
    then have "pc_sender (sdr w) = Some m" by simp
    from finish_facts(6) [OF ok held_heartbeat(2) [OF assms(2) this] finish_beat(3)] finish_beat(1)
    show ?thesis by (intro keep) (auto simp: told_def note_beat_def)
  next
    case (announce err sched now c)
    from assms(3) announce(2) have "permanent err" by simp
    moreover from sendNotifyDead_result(2) [OF ok announce(3)] have "death_note now err \<in> set (notices c)"
      by (auto simp: death_note_def)
    ultimately show ?thesis using announce(1) by (auto simp: explained_def told_def)
  next
    case (mark_dead err)
    with assms(3) show ?thesis by (simp add: explained_def told_def)
  next
    case (stop_noop nxt m err)
    then show ?thesis by (intro keep) (auto simp: told_def)
  next
    case ended
    with assms(3) show ?thesis by (simp add: explained_def told_def)
  next
    case (reconnected e n s)
    from attempt_quiet(3) [OF ok reconnected(3,4)] reconnected(1) show ?thesis by auto
  qed auto
qed

lemma reachable_ending:
  "reachable h c t w \<Longrightarrow> startable c t \<Longrightarrow> ending_ok (mgr w) (explained w)"
proof (induction rule: reachable.induct)
  case reach_start
  then show ?case by (cases t) (simp_all add: started_def)
next
  case (reach_step w w')
  with step_ending [OF reach_step.hyps(2) reachable_inv] show ?case by blast
qed

section \<open>Finishing what has begun\<close>

text \<open>A step in which no user takes part: no call of \<open>Send\<close> goes on and no notification is received.\<close>

definition internal :: "host \<Rightarrow> world \<Rightarrow> world \<Rightarrow> bool" where
  "internal h w w' \<longleftrightarrow> step h w w' \<and> calls w' = calls w \<and> accepted (hist w') = accepted (hist w) \<and>
     heard (hist w') = heard (hist w)"

lemma internal_inv: "(internal h)\<^sup>*\<^sup>* w w' \<Longrightarrow> world_inv c0 w \<Longrightarrow> world_inv c0 w'"
  by (induction rule: rtranclp_induct) (auto simp: internal_def intro: step_inv)

lemma internal_steps: "(internal h)\<^sup>*\<^sup>* w w' \<Longrightarrow> (step h)\<^sup>*\<^sup>* w w'"
  by (rule rtranclp_mono [THEN predicate2D, rotated]) (auto simp: internal_def)

text \<open>
  Nothing is taken from the queue: only the message in the sender's hands is sent, put back or dropped.
\<close>

definition holds_back :: "world \<Rightarrow> world \<Rightarrow> bool" where
  "holds_back w w' \<longleftrightarrow> (\<exists>ys zs ds. sent (hist w') = sent (hist w) @ ys \<and>
     queue (client w') = queue (client w) @ zs \<and> dropped (hist w') = dropped (hist w) @ ds \<and>
     mset (in_hand (sdr w)) = mset ys + mset zs + mset ds + mset (in_hand (sdr w')))"

lemma holds_backI:
  assumes "sent (hist w') = sent (hist w) @ ys" and "queue (client w') = queue (client w) @ zs"
    and "dropped (hist w') = dropped (hist w) @ ds"
    and "mset (in_hand (sdr w)) = mset ys + mset zs + mset ds + mset (in_hand (sdr w'))"
  shows "holds_back w w'"
  using assms unfolding holds_back_def by blast

lemma holds_back_same:
  "sent (hist w') = sent (hist w) \<Longrightarrow> dropped (hist w') = dropped (hist w) \<Longrightarrow> queue (client w') = queue (client w) \<Longrightarrow>
     in_hand (sdr w') = in_hand (sdr w) \<Longrightarrow> holds_back w w'"
  by (rule holds_backI [of _ _ "[]" "[]" "[]"]) simp_all

lemma holds_back_refl [simp]: "holds_back w w"
  by (rule holds_back_same) simp_all

lemma holds_back_trans [trans]:
  assumes "holds_back w w1" and "holds_back w1 w2"
  shows "holds_back w w2"
proof -
  from assms(1) obtain ys zs ds where a: "sent (hist w1) = sent (hist w) @ ys"
    "queue (client w1) = queue (client w) @ zs" "dropped (hist w1) = dropped (hist w) @ ds"
    "mset (in_hand (sdr w)) = mset ys + mset zs + mset ds + mset (in_hand (sdr w1))"
    unfolding holds_back_def by blast
  from assms(2) obtain ys' zs' ds' where b: "sent (hist w2) = sent (hist w1) @ ys'"
    "queue (client w2) = queue (client w1) @ zs'" "dropped (hist w2) = dropped (hist w1) @ ds'"
    "mset (in_hand (sdr w1)) = mset ys' + mset zs' + mset ds' + mset (in_hand (sdr w2))"
    unfolding holds_back_def by blast
  show ?thesis by (rule holds_backI [of _ _ "ys @ ys'" "zs @ zs'" "ds @ ds'"]) (simp_all add: a b)
qed

lemma holds_back_finish:
  assumes "in_hand (sdr w) = [msg]" and "user_type (msg_Type msg)"
    and "write_effect (ms_conn m) (client w) msg r c"
  shows "holds_back w (w\<lparr>client := c, sdr := after_message m r, hist := note_message m (client w) msg r (hist w)\<rparr>)"
    (is "holds_back w ?w")
proof -
  consider (noop) "r = None" "conn_Type (ms_conn m) = TypeNoOP" | (sent) "r = None" "conn_Type (ms_conn m) \<noteq> TypeNoOP"
    | (requeued) err where "r = Some err" "has_room (client w)" | (lost) err where "r = Some err" "\<not> has_room (client w)"
    by (cases r) auto
  then show ?thesis
  proof cases
    case noop
    then show ?thesis
      using assms by (intro holds_backI [of ?w w "[]" "[]" "[msg]"]) (simp_all add: note_message_def write_effect_def)
  next
    case sent
    then show ?thesis
      using assms by (intro holds_backI [of ?w w "[msg]" "[]" "[]"]) (simp_all add: note_message_def write_effect_def)
  next
    case requeued
    then show ?thesis
      using assms by (intro holds_backI [of ?w w "[]" "[msg]" "[]"]) (simp_all add: note_message_def write_effect_def)
  next
    case lost
    then show ?thesis
      using assms by (intro holds_backI [of ?w w "[]" "[]" "[msg]"]) (simp_all add: note_message_def write_effect_def)
  qed
qed

text \<open>
  Any write returns and is finished, so a sender on its way comes back to its \<open>select\<close> or ends: at
  most five of its own steps.
\<close>

definition settled :: "sender_pc \<Rightarrow> bool" where
  "settled p \<longleftrightarrow> (case p of Absent \<Rightarrow> True | Selecting m \<Rightarrow> True | Broken m err \<Rightarrow> True | _ \<Rightarrow> False)"

text \<open>The connection of the current sender, which its own steps do not change.\<close>

definition conn_in_use :: "world \<Rightarrow> audit_conn option" where
  "conn_in_use w = map_option ms_conn (pc_sender (sdr w))"

fun still_to_do :: "sender_pc \<Rightarrow> nat" where
  "still_to_do (Holding m msg) = 4"
| "still_to_do (Written m msg r) = 3"
| "still_to_do (Beating m) = 2"
| "still_to_do (BeatWritten m r) = 1"
| "still_to_do p = 0"

lemma sender_goes_on:
  assumes "world_inv c0 w" and "\<not> settled (sdr w)"
  shows "\<exists>w'. internal h w w' \<and> mgr w' = mgr w \<and> holds_back w w' \<and> conn_in_use w' = conn_in_use w \<and>
    still_to_do (sdr w') < still_to_do (sdr w)"
proof (cases "sdr w")
  case (Holding m msg)
  obtain r mem' os where "conn_Write undefined (memory (client w)) (ms_conn m) msg = (r, mem', os)"
    using prod_cases3 by blast
  from step_write_msg [OF Holding this, of h] Holding show ?thesis
    by (intro exI [of _ "w\<lparr>client := (client w)\<lparr>memory := mem'\<rparr>, sdr := Written m msg r,
                hist := noted 0 undefined (client w) msg r os (hist w)\<rparr>"])
       (simp add: internal_def noted_def conn_in_use_def holds_back_same in_hand_def queue_def)
next
  case (Written m msg r)
  then have hand: "in_hand (sdr w) = [msg]" by (simp add: in_hand_def)
  note msg = held_message [OF assms(1) hand]
  obtain c where c: "finish_write 0 (ms_conn m) (client w) msg r = Done c"
    using finish_done [OF world_inv_simps(1) [OF assms(1)] msg(1), of 0 "ms_conn m" r] by blast
  note wr = finish_facts(2) [OF world_inv_simps(1) [OF assms(1)] msg(1) c]
  from step_finish_msg [OF Written c, of h] Written holds_back_finish [OF hand msg(2) wr] show ?thesis
    by (intro exI [of _ "w\<lparr>client := c, sdr := after_message m r,
                hist := note_message m (client w) msg r (hist w)\<rparr>"])
       (auto simp add: internal_def conn_in_use_def note_message_def after_message_def Stop_ticker_def split: option.split)
next
  case (Beating m)
  obtain r mem' os where "conn_Write undefined (memory (client w)) (ms_conn m) (ms_heartbeat m) = (r, mem', os)"
    using prod_cases3 by blast
  from step_beat [OF _ this, of h] Beating show ?thesis
    by (intro exI [of _ "w\<lparr>client := (client w)\<lparr>memory := mem'\<rparr>, sdr := BeatWritten m r,
                hist := noted 0 undefined (client w) (ms_heartbeat m) r os (hist w)\<rparr>"])
       (simp add: internal_def noted_def conn_in_use_def holds_back_same in_hand_def queue_def)
next
  case (BeatWritten m r)
  then have "pc_sender (sdr w) = Some m" by simp
  note hb = held_heartbeat [OF assms(1) this]
  obtain c where c: "finish_write 0 (ms_conn m) (client w) (ms_heartbeat m) r = Done c"
    using finish_done [OF world_inv_simps(1) [OF assms(1)] hb(2), of 0 "ms_conn m" r] by blast
  have "queue c = queue (client w)"
    using finish_facts(2) [OF world_inv_simps(1) [OF assms(1)] hb(2) c] hb(3)
    by (auto simp: write_effect_def split: if_splits)
  then have "holds_back w (w\<lparr>client := c, sdr := after_beat m r, hist := note_beat m r (hist w)\<rparr>)"
    by (intro holds_back_same) (simp_all add: note_beat_def BeatWritten in_hand_def after_beat_def split: option.split)
  with step_finish_beat [OF BeatWritten c, of h] BeatWritten show ?thesis
    by (intro exI [of _ "w\<lparr>client := c, sdr := after_beat m r, hist := note_beat m r (hist w)\<rparr>"])
       (auto simp add: internal_def conn_in_use_def note_beat_def after_beat_def Stop_ticker_def split: option.split)
qed (use assms(2) in \<open>simp_all add: settled_def\<close>)

lemma sender_settles:
  assumes "world_inv c0 w"
  shows "\<exists>w'. (internal h)\<^sup>*\<^sup>* w w' \<and> mgr w' = mgr w \<and> holds_back w w' \<and> conn_in_use w' = conn_in_use w \<and>
    settled (sdr w')"
  using assms
proof (induction "still_to_do (sdr w)" arbitrary: w rule: less_induct)
  case less
  show ?case
  proof (cases "settled (sdr w)")
    case False
    from sender_goes_on [OF less.prems this, of h] obtain w1 where
      w1: "internal h w w1" "mgr w1 = mgr w" "holds_back w w1" "conn_in_use w1 = conn_in_use w" "still_to_do (sdr w1) < still_to_do (sdr w)" by blast
    from less.hyps [OF w1(5) step_inv [OF _ less.prems, of h]] w1(1) obtain w' where
      "(internal h)\<^sup>*\<^sup>* w1 w'" "mgr w' = mgr w1" "holds_back w1 w'" "conn_in_use w' = conn_in_use w1"
      "settled (sdr w')" by (auto simp: internal_def)
    with w1(1-4) show ?thesis
      by (intro exI [of _ w']) (auto intro: converse_rtranclp_into_rtranclp holds_back_trans)
  qed (use holds_back_refl in blast)
qed

lemma sender_stops:
  assumes "world_inv c0 w" and "mgr w = Stopping nxt"
  shows "\<exists>w'. (internal h)\<^sup>*\<^sup>* w w' \<and> mgr w' = Stopping nxt \<and> holds_back w w' \<and> sdr w' = Absent"
proof -
  from sender_settles [OF assms(1), of h] obtain w' where
    w': "(internal h)\<^sup>*\<^sup>* w w'" "mgr w' = Stopping nxt" "settled (sdr w')" "holds_back w w'"
    using assms(2) by auto
  show ?thesis
  proof (cases "sdr w' = Absent")
    case False
    with w'(3) obtain x err where "sdr w' = Selecting x \<or> sdr w' = Broken x err"
      by (auto simp: settled_def split: sender_pc.splits)
    from step.stop_noop [OF w'(2) this, of h] have "internal h w' (w'\<lparr>sdr := Absent\<rparr>)"
      by (simp add: internal_def)
    moreover have "holds_back w' (w'\<lparr>sdr := Absent\<rparr>)"
      using w'(3) by (cases "sdr w'") (simp_all add: holds_back_same settled_def in_hand_def)
    ultimately show ?thesis
      using w'(1,2) holds_back_trans [OF w'(4)]
      by (intro exI [of _ "w'\<lparr>sdr := Absent\<rparr>"]) (auto intro: rtranclp.rtrancl_into_rtrancl)
  qed (use w' in blast)
qed

lemma launch_completes:
  assumes "world_inv c0 w" and "mgr w = Launching m"
  shows "\<exists>w'. (internal h)\<^sup>*\<^sup>* w w' \<and> mgr w' = Supervising \<and> holds_back w w' \<and> sdr w' = Selecting m"
proof -
  let ?w = "w\<lparr>sdr := Selecting m, mgr := Supervising, old := sdr w # old w, hist := new_line m (hist w)\<rparr>"
  have "launched m (Selecting m)" by (simp add: launched_def)
  from step.launch [OF assms(2) this, of h] have "internal h w ?w" by (simp add: internal_def new_line_def)
  moreover have "sdr w = Absent" using world_inv_simps(7) [OF assms(1)] assms(2) by simp
  then have "holds_back w ?w" by (intro holds_back_same) (simp_all add: new_line_def in_hand_def)
  ultimately show ?thesis by (intro exI [of _ ?w]) auto
qed

lemma hand_over_completes:
  assumes "world_inv c0 w" and "mgr w = Stopping (Some m)"
  shows "\<exists>w'. (internal h)\<^sup>*\<^sup>* w w' \<and> mgr w' = Supervising \<and> holds_back w w' \<and> sdr w' = Selecting m"
proof -
  from sender_stops [OF assms, of h] obtain w1 where
    w1: "(internal h)\<^sup>*\<^sup>* w w1" "mgr w1 = Stopping (Some m)" "sdr w1 = Absent" "holds_back w w1" by blast
  let ?w2 = "w1\<lparr>client := client w1, mgr := Launching m\<rparr>"
  have "handover_log (client w1) (client w1)" by (simp add: handover_log_def)
  from step.take_over [OF w1(2,3) this, of h] have s2: "internal h w1 ?w2" by (simp add: internal_def)
  then have path: "(internal h)\<^sup>*\<^sup>* w ?w2" using w1(1) by (auto intro: rtranclp.rtrancl_into_rtrancl)
  have kept_back: "holds_back w1 ?w2" by (rule holds_back_same) simp_all
  have "mgr ?w2 = Launching m" by simp
  from launch_completes [OF internal_inv [OF path assms(1)] this, of h] obtain w3 where
    "(internal h)\<^sup>*\<^sup>* ?w2 w3" "mgr w3 = Supervising" "holds_back ?w2 w3" "sdr w3 = Selecting m" by blast
  with path holds_back_trans [OF holds_back_trans [OF w1(4) kept_back]] show ?thesis
    by (intro exI [of _ w3]) (auto intro: rtranclp_trans)
qed

lemma death_completes_stopping:
  assumes "world_inv c0 w" and "mgr w = Stopping None"
  shows "\<exists>w'. (internal h)\<^sup>*\<^sup>* w w' \<and> mgr w' = Gone"
proof -
  from sender_stops [OF assms, of h] obtain w' where
    w': "(internal h)\<^sup>*\<^sup>* w w'" "mgr w' = Stopping None" "sdr w' = Absent" by blast
  from step.ended [OF w'(2,3), of h] have "internal h w' (w'\<lparr>mgr := Gone\<rparr>)" by (simp add: internal_def)
  with w'(1) show ?thesis
    by (intro exI [of _ "w'\<lparr>mgr := Gone\<rparr>"]) (auto intro: rtranclp.rtrancl_into_rtrancl)
qed

lemma death_completes_announced:
  assumes "world_inv c0 w" and "mgr w = Announced err"
  shows "\<exists>w'. (internal h)\<^sup>*\<^sup>* w w' \<and> mgr w' = Gone"
proof -
  let ?w = "w\<lparr>client := (client w)\<lparr>clientDead := True\<rparr>, mgr := Stopping None\<rparr>"
  from step.mark_dead [OF assms(2), of h] have "internal h w ?w" by (simp add: internal_def)
  moreover from this step_inv assms(1) have "world_inv c0 ?w" by (auto simp: internal_def)
  ultimately show ?thesis
    using death_completes_stopping [of c0 ?w h] by (auto intro: converse_rtranclp_into_rtranclp)
qed

lemma some_dead_notice:
  assumes "client_ok c"
  obtains c' where "sendNotifyDead [([], [])] now c (Some x) = Some c'"
proof -
  from assms obtain k where k: "notifier c = Some k" "ch.bounded k" "0 < cap k"
    by (auto simp: client_ok_def)
  have "intruders [([], [])] < length ([([], [])] :: schedule)" by (simp add: intruders_def)
  from dead_loop_returns [OF k(2,3) this, of "\<lparr>ne_Time = now, ne_Err = x\<rparr>" "[]"]
  obtain n ev where "dead_loop [([], [])] \<lparr>ne_Time = now, ne_Err = x\<rparr> k [] = Some (n, ev)" by blast
  with k that show ?thesis by (simp add: sendNotifyDead_def notice_def)
qed

lemma death_completes_dying:
  assumes "world_inv c0 w" and "mgr w = Dying err"
  shows "\<exists>w'. (internal h)\<^sup>*\<^sup>* w w' \<and> mgr w' = Gone"
proof -
  obtain c where c: "sendNotifyDead [([], [])] 0 (client w)
      (Some (errorf ''audit.Client connection error: stopping connection manager: %w'' [err])) = Some c"
    by (rule some_dead_notice [OF world_inv_simps(1) [OF assms(1)]])
  let ?w = "w\<lparr>client := c, mgr := Announced err\<rparr>"
  from step.announce [OF assms(2) c, of h] have "internal h w ?w" by (simp add: internal_def)
  moreover from this step_inv assms(1) have "world_inv c0 ?w" by (auto simp: internal_def)
  ultimately show ?thesis
    using death_completes_announced [of c0 ?w err h] by (auto intro: converse_rtranclp_into_rtranclp)
qed

text \<open>
  C9. No deadlock in a hand-over or a death: from every reachable state in which the manager has a new
  sender, the sender it replaces can be brought to its end and the new one be started and brought to its \<open>select\<close>, and from
  every one in which it has given up, the death can be announced, made visible and the task ended;
  both without any act of a user.
\<close>

theorem endings_complete:
  assumes "runs_from h ustr mem uid r options c w"
  shows "(\<forall>m. mgr w = Stopping (Some m) \<or> mgr w = Launching m \<longrightarrow>
      (\<exists>w'. (internal h)\<^sup>*\<^sup>* w w' \<and> mgr w' = Supervising \<and> sdr w' = Selecting m)) \<and>
    (\<forall>err. mgr w = Dying err \<or> mgr w = Announced err \<or> mgr w = Stopping None \<longrightarrow>
      (\<exists>w'. (internal h)\<^sup>*\<^sup>* w w' \<and> mgr w' = Gone \<and> clientDead (client w')))"
proof -
  from runs_from_inv [OF assms] have inv: "world_inv c w" by blast
  have dead: "clientDead (client w')" if "(internal h)\<^sup>*\<^sup>* w w'" "mgr w' = Gone" for w'
    using world_inv_simps(2) [OF internal_inv [OF that(1) inv]] that(2) by simp
  show ?thesis
    using hand_over_completes [OF inv] launch_completes [OF inv] death_completes_dying [OF inv] death_completes_announced [OF inv]
      death_completes_stopping [OF inv] dead by blast
qed

section \<open>A client that dies\<close>

text \<open>A deferred start whose first reconnect fails for good.\<close>

definition hopeless :: reconnect_env where
  "hopeless = \<lparr>re_noop = (\<lambda>n. []), re_others = (\<lambda>n. []), re_create = (\<lambda>n. Inl ErrValidation),
     re_now = (\<lambda>n. 0), re_sched = [], re_dead_now = 0\<rparr>"

lemma hopeless_attempt:
  assumes "client_ok c"
  obtains err s where "attempt h hopeless 0 (bare c) = Done (Some err, s)" "permanent err" "quiet hopeless"
  using assms
  by (cases "closers_Running c > maxClosers c")
     (auto simp: attempt_def hopeless_def run_noop_def bare_def others_def Let_def createSender_eq
       conn_failure_def quiet_def)

lemma sample_dies:
  "\<exists>c w err. runs_from sample_host (\<lambda>u. ''id'') sample_mem 1 (Inl ErrQueueFull) [WithDeferredConnection] c w \<and>
     mgr w = Dying err"
proof -
  let ?o = "[WithDeferredConnection]" and ?c = sample_deferring
  obtain noop err where new: "New sample_host (\<lambda>u. ''id'') None sample_mem 1 (Inl ErrQueueFull) ?o =
      Done (Inr ?c, Some (DeferredTask noop err))"
    using sample_New_deferred by blast
  let ?w0 = "started sample_host ?c (DeferredTask noop err)"
  have run: "runs_from sample_host (\<lambda>u. ''id'') sample_mem 1 (Inl ErrQueueFull) ?o ?c ?w0"
    using new reach_start by (auto simp: runs_from_def std_option_def)
  have "mgr ?w0 = Deferring noop err" by (simp add: started_def)
  note start = step.deferred_start [OF this refl]
  have "log (sendNotify 0 (client ?w0) x) \<noteq> None" for x
    by (simp add: started_def)
  from start [OF this] launched_def obtain w1 where w1: "step sample_host ?w0 w1" "mgr w1 = Reconnecting" by fastforce
  note run1 = runs_from_step [OF run w1(1)]
  from runs_from_inv [OF run1] world_inv_simps(1) have "client_ok (client w1)" by blast
  then obtain e s where a: "attempt sample_host hopeless 0 (bare (client w1)) = Done (Some e, s)"
    "permanent e" "quiet hopeless" by (rule hopeless_attempt)
  from step.gave_up [OF w1(2) a(3,1,2)] obtain w2 where "step sample_host w1 w2" "mgr w2 = Dying e" by fastforce
  with runs_from_step [OF run1] show ?thesis by blast
qed

theorem endings_complete_witness:
  "\<exists>c w err w'. runs_from sample_host (\<lambda>u. ''id'') sample_mem 1 (Inl ErrQueueFull) [WithDeferredConnection] c w \<and>
     mgr w = Dying err \<and> (internal sample_host)\<^sup>*\<^sup>* w w' \<and> mgr w' = Gone \<and> clientDead (client w')"
proof -
  from sample_dies obtain c w err where w: "runs_from sample_host (\<lambda>u. ''id'') sample_mem 1 (Inl ErrQueueFull)
      [WithDeferredConnection] c w" "mgr w = Dying err" by blast
  from endings_complete [OF w(1)] w show ?thesis by blast
qed

section \<open>The user learns why\<close>

lemma sample_dead:
  "\<exists>c w. runs_from sample_host (\<lambda>u. ''id'') sample_mem 1 (Inl ErrQueueFull) [WithDeferredConnection] c w \<and>
     clientDead (client w)"
proof -
  from sample_dies obtain c w err where w: "runs_from sample_host (\<lambda>u. ''id'') sample_mem 1 (Inl ErrQueueFull)
      [WithDeferredConnection] c w" "mgr w = Dying err" by blast
  from runs_from_inv [OF w(1)] have inv: "world_inv c w" by blast
  from death_completes_dying [OF inv w(2)] obtain w' where
    w': "(internal sample_host)\<^sup>*\<^sup>* w w'" "mgr w' = Gone" by blast
  from world_inv_simps(2) [OF internal_inv [OF w'(1) inv]] w'(2) have "clientDead (client w')" by simp
  with runs_from_steps [OF internal_steps [OF w'(1)] w(1)] show ?thesis by blast
qed

text \<open>
  C8. A client never dies silently: in every reachable state in which \<open>Send\<close> refuses because the client is dead, the
  user has received a notification with the cause, a permanent error, or it is waiting on
  the channel of \<open>Notify\<close>; no other notification, background close or late write displaces it.
\<close>

theorem death_explained:
  assumes "runs_from h ustr mem uid r options c w" and "clientDead (client w)"
  shows "\<exists>now err. permanent err \<and> death_note now err \<in> set (heard (hist w)) \<union> set (notices (client w))"
proof -
  from assms(1) obtain t where std: "list_all std_option options"
    and new: "New h ustr None mem uid r options = Done (Inr c, Some t)" and run: "reachable h c t w"
    by (auto simp: runs_from_def)
  note start = New_startable [OF std new]
  from world_inv_simps(2) [OF reachable_inv [OF run start]] assms(2)
  have "mgr w = Stopping None \<or> mgr w = Gone" by simp
  with reachable_ending [OF run start] show ?thesis by (auto simp: explained_def told_def)
qed

theorem death_explained_witness:
  "\<exists>c w now err. runs_from sample_host (\<lambda>u. ''id'') sample_mem 1 (Inl ErrQueueFull) [WithDeferredConnection] c w \<and>
     permanent err \<and> death_note now err \<in> set (heard (hist w)) \<union> set (notices (client w))"
proof -
  from sample_dead obtain c w where "runs_from sample_host (\<lambda>u. ''id'') sample_mem 1 (Inl ErrQueueFull)
      [WithDeferredConnection] c w" "clientDead (client w)" by blast
  with death_explained [OF this] show ?thesis by blast
qed

end
