(* ===== verification/WorldRuns.thy ===== *)
theory WorldRuns
  imports WorldClaims
begin

text \<open>
  The runs of the sender, the manager and the deferred start, as the functions of \<open>MsgSender\<close> and \<open>Manager\<close>
  have them, are paths of the step relation of \<open>World\<close>: what is proved of its reachable states
  holds wherever those functions arrive.
\<close>

section \<open>Paths between configurations\<close>

text \<open>
  A configuration is a world without its history, the calls inside \<open>Send\<close> and the earlier senders; \<open>leads\<close> says that these
  do not matter for a path.
\<close>

type_synonym config = "Client \<times> sender_pc \<times> manager_pc"

definition config_of :: "world \<Rightarrow> config" where
  "config_of w = (client w, sdr w, mgr w)"

definition leads :: "host \<Rightarrow> config \<Rightarrow> config \<Rightarrow> bool" where
  "leads h s s' \<longleftrightarrow> (\<forall>w. config_of w = s \<longrightarrow> (\<exists>w'. (step h)\<^sup>*\<^sup>* w w' \<and> config_of w' = s'))"

lemma leads_refl [simp]: "leads h s s"
  by (auto simp: leads_def)

lemma leads_trans [trans]: "leads h s s1 \<Longrightarrow> leads h s1 s2 \<Longrightarrow> leads h s s2"
  unfolding leads_def by (metis rtranclp_trans)

lemma leads_step:
  assumes "\<And>w :: world. client w = c \<Longrightarrow> sdr w = p \<Longrightarrow> mgr w = q \<Longrightarrow> \<exists>w'. step h w w' \<and> config_of w' = s'"
  shows "leads h (c, p, q) s'"
  unfolding leads_def config_of_def
proof (intro allI impI)
  fix w :: world
  assume "(client w, sdr w, mgr w) = (c, p, q)"
  with assms [of w] obtain w' where "step h w w'" "config_of w' = s'" by auto
  then show "\<exists>w'. (step h)\<^sup>*\<^sup>* w w' \<and> (client w', sdr w', mgr w') = s'"
    by (intro exI [of _ w']) (auto simp: config_of_def)
qed

lemma leads_send:
  assumes "record_ok (memory c) (msg_Record msg)"
  shows "leads h (c, p, q) (snd (Send_client c msg), p, q)"
  unfolding leads_def
proof (intro allI impI)
  fix w :: world
  assume w: "config_of w = (c, p, q)"
  obtain r c' where send: "Send_client c msg = (r, c')" by fastforce
  from w assms have "record_ok (memory (client w)) (msg_Record msg)" "Send_client (client w) msg = (r, c')"
    using send by (auto simp: config_of_def)
  from send_path [OF this, of h] w send
  show "\<exists>w'. (step h)\<^sup>*\<^sup>* w w' \<and> config_of w' = (snd (Send_client c msg), p, q)"
    by (intro exI [of _ "w\<lparr>client := c', hist := note_put r (stamped (client w) msg) (hist w)\<rparr>"])
       (simp add: config_of_def)
qed

lemma leads_other:
  assumes "other_ok (memory c) x"
  shows "leads h (c, p, q) (other_step x c, p, q)"
proof (cases x)
  case (UserSend msg)
  with leads_send assms show ?thesis by simp
next
  case (CloserReturns now a err)
  then have x: "\<not> is_send x" by simp
  show ?thesis
    by (rule leads_step, rule exI, rule conjI, rule step.other [OF x]) (simp add: config_of_def)
next
  case UserReceive
  then have x: "\<not> is_send x" by simp
  show ?thesis
    by (rule leads_step, rule exI, rule conjI, rule step.other [OF x]) (simp add: config_of_def)
qed

lemma leads_others:
  assumes "client_ok c" and "list_all (other_ok (memory c)) xs"
  shows "leads h (c, p, q) (others xs c, p, q)"
  using assms
proof (induction xs arbitrary: c)
  case (Cons x xs)
  let ?c = "other_step x c"
  from Cons.prems have "other_ok (memory c) x" by simp
  from other_step_effect [OF Cons.prems(1) this] have "client_ok ?c" "memory ?c = memory c"
    by (auto simp: others_effect_def)
  with Cons.IH [of ?c] Cons.prems(2) have "leads h (?c, p, q) (others xs ?c, p, q)" by simp
  with leads_trans [OF leads_other [OF \<open>other_ok (memory c) x\<close>] this] show ?case
    by (simp add: others_def)
qed (simp add: others_def)

section \<open>The sender\<close>

lemma leads_take:
  assumes "sendCh c = Some ch" and "TryGet ch = (Some msg, ch')"
  shows "leads h (c, Selecting m, q) (c\<lparr>sendCh := Some ch'\<rparr>, Holding m msg, q)"
  by (rule leads_step, rule exI, rule conjI, rule step_take_msg) (use assms in \<open>simp_all add: config_of_def\<close>)

text \<open>The parts of a write: the connection's own, what others do, what the sender makes of the result.\<close>

lemma write_parts:
  assumes "msgSender_write e a c msg = Done (r, c', os)" and "client_ok c" and "writable c msg"
    and "list_all (other_ok (memory c)) (we_others e)"
  obtains mem' where "conn_Write (we_net e) (memory c) a msg = (r, mem', os)"
    "finish_write (we_now e) a (others (we_others e) (c\<lparr>memory := mem'\<rparr>)) msg r = Done c'"
    "client_ok (c\<lparr>memory := mem'\<rparr>)" "list_all (other_ok (memory (c\<lparr>memory := mem'\<rparr>))) (we_others e)"
proof -
  obtain mem' where w: "conn_Write (we_net e) (memory c) a msg = (r, mem', os)"
    and f: "finish_write (we_now e) a (others (we_others e) (c\<lparr>memory := mem'\<rparr>)) msg r = Done c'"
    using assms(1) by (auto simp: msgSender_write_def bind_outcome_Done split: prod.splits)
  note rok = writable_record_ok [OF assms(3)]
  have "list_all (other_ok mem') (we_others e)"
    by (rule other_ok_mono [OF au.write_keeps [OF rok w] assms(4)])
  then show thesis using that [OF w f client_ok_memory [OF assms(2) rok w]] by simp
qed

lemma leads_write:
  assumes "msgSender_write e (ms_conn m) c msg = Done (r, c', os)" and "client_ok c" and "writable c msg"
    and "list_all (other_ok (memory c)) (we_others e)"
  shows "leads h (c, Holding m msg, q) (c', after_message m r, q)"
proof -
  obtain mem' where w: "conn_Write (we_net e) (memory c) (ms_conn m) msg = (r, mem', os)"
    "finish_write (we_now e) (ms_conn m) (others (we_others e) (c\<lparr>memory := mem'\<rparr>)) msg r = Done c'"
    and ok: "client_ok (c\<lparr>memory := mem'\<rparr>)" "list_all (other_ok (memory (c\<lparr>memory := mem'\<rparr>))) (we_others e)"
    by (rule write_parts [OF assms])
  have "leads h (c, Holding m msg, q) (c\<lparr>memory := mem'\<rparr>, Written m msg r, q)"
    by (rule leads_step, rule exI, rule conjI, rule step_write_msg)
       (use w(1) in \<open>simp_all add: config_of_def\<close>)
  also have "leads h \<dots> (others (we_others e) (c\<lparr>memory := mem'\<rparr>), Written m msg r, q)"
    by (rule leads_others [OF ok])
  also have "leads h \<dots> (c', after_message m r, q)"
    by (rule leads_step, rule exI, rule conjI, rule step_finish_msg)
       (use w(2) in \<open>simp_all add: config_of_def\<close>)
  finally show ?thesis .
qed

lemma leads_beat:
  assumes "msgSender_write e (ms_conn m) c (ms_heartbeat m) = Done (r, c', os)"
    and "client_ok c" and "sender_ok m" and "list_all (other_ok (memory c)) (we_others e)"
    and "p = Beating m \<or> p = Selecting m \<and> ms_ticker m = Ticking"
  shows "leads h (c, p, q) (c', after_beat m r, q)"
proof -
  obtain mem' where w: "conn_Write (we_net e) (memory c) (ms_conn m) (ms_heartbeat m) = (r, mem', os)"
    "finish_write (we_now e) (ms_conn m) (others (we_others e) (c\<lparr>memory := mem'\<rparr>)) (ms_heartbeat m) r = Done c'"
    and ok: "client_ok (c\<lparr>memory := mem'\<rparr>)" "list_all (other_ok (memory (c\<lparr>memory := mem'\<rparr>))) (we_others e)"
    by (rule write_parts [OF assms(1,2) writable_heartbeat [OF assms(3)] assms(4)])
  have "leads h (c, p, q) (c\<lparr>memory := mem'\<rparr>, BeatWritten m r, q)"
    by (rule leads_step, rule exI, rule conjI, rule step_beat)
       (use w(1) assms(5) in \<open>simp_all add: config_of_def\<close>)
  also have "leads h \<dots> (others (we_others e) (c\<lparr>memory := mem'\<rparr>), BeatWritten m r, q)"
    by (rule leads_others [OF ok])
  also have "leads h \<dots> (c', after_beat m r, q)"
    by (rule leads_step, rule exI, rule conjI, rule step_finish_beat)
       (use w(2) in \<open>simp_all add: config_of_def\<close>)
  finally show ?thesis .
qed

text \<open>A service that takes a message or a tick.\<close>

definition after_service :: "msgSender \<Rightarrow> goerr option \<Rightarrow> sender_pc" where
  "after_service m r = (case r of None \<Rightarrow> Selecting m | Some err \<Rightarrow> Broken m err)"

lemma leads_service_message:
  assumes "serviceMsg MsgReady e1 e2 m c = Done (r, m', c', os)" and "client_ok c" and "sender_ok m"
    and "list_all (other_ok (memory c)) (we_others e1)" and "list_all (other_ok (memory c)) (we_others e2)"
  shows "leads h (c, Selecting m, q) (c', after_service m' r, q)"
proof -
  from assms(1) obtain ch msg ch' where c: "sendCh c = Some ch" "TryGet ch = (Some msg, ch')"
    by (auto simp: serviceMsg_def stop_on_error_Done split: option.splits prod.splits)
  let ?c = "c\<lparr>sendCh := Some ch'\<rparr>"
  note take = take_message [OF assms(2) c]
  have o1: "list_all (other_ok (memory ?c)) (we_others e1)" using assms(4) by simp
  from write_step [OF take(1,2) o1, of "ms_conn m"] obtain r1 c1 os1 where
    w1: "msgSender_write e1 (ms_conn m) ?c msg = Done (r1, c1, os1)" "client_ok c1"
    and mono: "\<And>x. record_ok (memory ?c) x \<Longrightarrow> record_ok (memory c1) x" by metis
  have first: "leads h (c, Selecting m, q) (c1, after_message m r1, q)"
    by (rule leads_trans [OF leads_take [OF c] leads_write [OF w1(1) take(1,2) o1]])
  show ?thesis
  proof (cases "r1 = None \<and> ms_ticker m = NilTicker")
    case False
    with assms(1) c w1(1) first show ?thesis
      by (auto simp: serviceMsg_def stop_on_error_Done after_service_def after_message_def
          split: option.splits if_splits)
  next
    case True
    have o2: "list_all (other_ok (memory c1)) (we_others e2)"
      by (rule other_ok_mono [OF _ assms(5)]) (use mono in simp)
    from write_step [OF w1(2) writable_heartbeat [OF assms(3)] o2, of "ms_conn m"] obtain r2 c2 os2 where
      w2: "msgSender_write e2 (ms_conn m) c1 (ms_heartbeat m) = Done (r2, c2, os2)" by metis
    have "after_message m r1 = Beating m" using True by (simp add: after_message_def)
    with first leads_beat [OF w2 w1(2) assms(3) o2, of "Beating m" h q]
    have "leads h (c, Selecting m, q) (c2, after_beat m r2, q)" by (auto intro: leads_trans)
    with assms(1) c w1(1) w2 True show ?thesis
      by (auto simp: serviceMsg_def stop_on_error_Done after_service_def after_beat_def
          split: option.splits if_splits)
  qed
qed

lemma leads_service:
  assumes "serviceMsg ev e1 e2 m c = Done (r, m', c', os)" and "client_ok c" and "sender_ok m"
    and "list_all (other_ok (memory c)) (we_others e1)" and "list_all (other_ok (memory c)) (we_others e2)"
    and "ev \<noteq> CtxDone"
  shows "leads h (c, Selecting m, q) (c', after_service m' r, q)"
proof (cases ev)
  case Tick
  with assms(1) have t: "ms_ticker m = Ticking"
    by (auto simp: serviceMsg_def stop_on_error_Done split: if_splits)
  from assms(1) Tick t have w: "msgSender_write e1 (ms_conn m) c (ms_heartbeat m) = Done (r, c', os)"
    and m': "m' = (if r = None then m else Stop_ticker m)"
    by (auto simp: serviceMsg_def stop_on_error_Done bind_outcome_Done)
  have "after_beat m r = after_service m' r"
    using t by (cases r) (simp_all add: m' after_service_def after_beat_def)
  with leads_beat [OF w assms(2,3,4), of "Selecting m" h q] t show ?thesis by simp
qed (use assms leads_service_message in auto)

text \<open>A round that takes no cancellation: the background context is never cancelled.\<close>

definition calm :: "round \<Rightarrow> bool" where
  "calm rd \<longleftrightarrow> \<not> rd_cancelled rd \<and> rd_event rd \<noteq> CtxDone"

lemma leads_stop:
  assumes "p = Selecting m \<or> p = Broken m err"
  shows "leads h (c, p, Stopping nxt) (c, Absent, Stopping nxt)"
proof (rule leads_step)
  fix w :: world
  assume w: "client w = c" "sdr w = p" "mgr w = Stopping nxt"
  from w(2) assms have "sdr w = Selecting m \<or> sdr w = Broken m err" by simp
  from step.stop_noop [OF w(3) this, of h] w
  show "\<exists>w'. step h w w' \<and> config_of w' = (c, Absent, Stopping nxt)"
    by (intro exI [of _ "w\<lparr>sdr := Absent\<rparr>"]) (simp add: config_of_def)
qed

text \<open>Where a run of the sender arrives; only while the manager waits for its end may it be cancelled.\<close>

definition run_arrives :: "host \<Rightarrow> manager_pc \<Rightarrow> msgSender \<Rightarrow> Client \<Rightarrow> sender_status \<Rightarrow> bool" where
  "run_arrives h q m c st \<longleftrightarrow> (case st of
       Crashed \<Rightarrow> False
     | Running m' c' os \<Rightarrow> leads h (c, Selecting m, q) (c', Selecting m', q)
     | Returned r m' c' os \<Rightarrow>
         (\<exists>err. r = Some err \<and> leads h (c, Selecting m, q) (c', Broken m' err, q)) \<or>
         (\<exists>nxt. q = Stopping nxt) \<and> leads h (c, Selecting m, q) (c', Absent, q))"

lemma run_arrives_from:
  "run_arrives h q m1 c1 st \<Longrightarrow> leads h (c, Selecting m, q) (c1, Selecting m1, q) \<Longrightarrow> run_arrives h q m c st"
  by (auto simp: run_arrives_def split: sender_status.splits intro: leads_trans)

lemma Stop_ticker_twice:
  "serviceMsg ev e1 e2 m c = Done (Some err, m', c', os) \<Longrightarrow> Stop_ticker m' = m'"
  by (auto simp: serviceMsg_def stop_on_error_Done Stop_ticker_def)

lemma leads_run:
  assumes "client_ok c" and "sender_ok m" and "list_all (round_ok (memory c)) rs"
    and "list_all calm rs \<or> q = Stopping nxt"
  shows "run_arrives h q m c (sender rs m c os)"
  using assms
proof (induction rs arbitrary: m c os)
  case Nil
  then show ?case by (simp add: run_arrives_def)
next
  case (Cons rd rs)
  let ?c = "others (rd_others rd) c"
  from Cons.prems(3) have rd: "list_all (other_ok (memory c)) (rd_others rd)"
    "list_all (other_ok (memory c)) (we_others (rd_env1 rd))"
    "list_all (other_ok (memory c)) (we_others (rd_env2 rd))"
    and rs: "list_all (round_ok (memory c)) rs"
    by (simp_all add: round_ok_def [of _ rd])
  from others_ok [OF Cons.prems(1) rd(1)] have c: "client_ok ?c" "memory ?c = memory c"
    by (auto simp: others_effect_def)
  have o: "leads h (c, Selecting m, q) (?c, Selecting m, q)" by (rule leads_others [OF Cons.prems(1) rd(1)])
  have stop: "leads h (c, Selecting m, q) (?c, Absent, q)" if "q = Stopping nxt"
    using leads_trans [OF o] leads_stop [of "Selecting m" m] that by simp
  show ?case
  proof (cases "rd_cancelled rd")
    case True
    with Cons.prems(4) stop show ?thesis by (auto simp: run_arrives_def calm_def)
  next
    case False
    show ?thesis
    proof (cases "not_ready (rd_event rd) m ?c")
      case True
      with False o show ?thesis by (simp add: service_blocked run_arrives_def)
    next
      case ready: False
      from service_cases [OF c(1) Cons.prems(2) this] rd(2,3) c(2) obtain r m' c' os' where
        s: "serviceMsg (rd_event rd) (rd_env1 rd) (rd_env2 rd) m ?c = Done (r, m', c', os')"
          "client_ok c'" "sender_ok m'" "\<And>x. record_ok (memory ?c) x \<Longrightarrow> record_ok (memory c') x"
        unfolding service_post_def by metis
      have mono: "\<And>x. record_ok (memory c) x \<Longrightarrow> record_ok (memory c') x" using s(4) c(2) by simp
      have ok: "list_all (round_ok (memory c')) rs" by (rule round_ok_mono [OF mono rs])
      show ?thesis
      proof (cases "rd_event rd = CtxDone")
        case True
        with s(1) have "r = Some Canceled" "c' = ?c" by (auto simp: serviceMsg_def)
        with True False s(1) Cons.prems(4) stop show ?thesis by (auto simp: run_arrives_def calm_def)
      next
        case ev: False
        have l: "leads h (c, Selecting m, q) (c', after_service m' r, q)"
          by (rule leads_trans [OF o leads_service [OF s(1) c(1) Cons.prems(2) _ _ ev]])
             (use rd(2,3) c(2) in simp_all)
        show ?thesis
        proof (cases r)
          case None
          have "list_all calm rs \<or> q = Stopping nxt" using Cons.prems(4) by auto
          from run_arrives_from [OF Cons.IH [OF s(2,3) ok this]] l None
          have "run_arrives h q m c (sender rs m' c' (os @ os'))" by (simp add: after_service_def)
          with False None s(1) show ?thesis by simp
        next
          case (Some err)
          with s(1) have "Stop_ticker m' = m'" by (auto dest: Stop_ticker_twice)
          with False Some s(1) l show ?thesis by (auto simp: run_arrives_def after_service_def)
        qed
      qed
    qed
  qed
qed

section \<open>Reconnecting\<close>

text \<open>Where the sender's task is while a reconnect works on a state: with the no-op sender it serves, without it has ended.\<close>

definition stands :: "conn_state \<Rightarrow> sender_pc \<Rightarrow> bool" where
  "stands s p \<longleftrightarrow> (case cs_noop s of
       Some m \<Rightarrow> p = Selecting m | None \<Rightarrow> p = Absent \<or> (\<exists>m err. p = Broken m err))"

lemma leads_noop:
  assumes "cs_ok m0 s" and "list_all (round_ok m0) rs" and "list_all calm rs \<or> q = Stopping nxt"
    and "run_noop rs s = Done s'" and "stands s p"
  shows "\<exists>p'. stands s' p' \<and> leads h (cs_client s, p, q) (cs_client s', p', q)"
proof (cases "cs_noop s")
  case None
  with assms(4,5) have "s' = s" by (simp add: run_noop_def)
  with assms(5) show ?thesis by (intro exI [of _ p]) simp
next
  case (Some m)
  with assms(5) have p: "p = Selecting m" by (simp add: stands_def)
  from assms(1) Some have ok: "client_ok (cs_client s)" "sender_ok m"
    and mono: "\<And>x. record_ok m0 x \<Longrightarrow> record_ok (memory (cs_client s)) x" by (auto simp: cs_ok_def)
  note run = leads_run [OF ok round_ok_mono [OF mono assms(2)] assms(3), of h "[]"]
  show ?thesis
  proof (cases "sender rs m (cs_client s) []")
    case (Running m' c' os)
    with run Some assms(4) p show ?thesis
      by (intro exI [of _ "Selecting m'"]) (auto simp: run_noop_def run_arrives_def stands_def)
  next
    case (Returned r m' c' os)
    with run p obtain p' where "p' = Absent \<or> (\<exists>m err. p' = Broken m err)"
      "leads h (cs_client s, p, q) (c', p', q)"
      by (auto simp: run_arrives_def)
    with Returned Some assms(4) show ?thesis
      by (intro exI [of _ p']) (auto simp: run_noop_def stands_def)
  next
    case Crashed
    with run show ?thesis by (simp add: run_arrives_def)
  qed
qed

definition calm_env :: "reconnect_env \<Rightarrow> bool" where
  "calm_env e \<longleftrightarrow> (\<forall>n. list_all calm (re_noop e n))"

text \<open>An attempt is what others do before it, then an attempt alone.\<close>

definition alone :: "reconnect_env \<Rightarrow> reconnect_env" where
  "alone e = e\<lparr>re_noop := (\<lambda>n. []), re_others := (\<lambda>n. [])\<rparr>"

lemma alone_quiet: "quiet (alone e)"
  by (simp add: quiet_def alone_def)

text \<open>Every world with this configuration is one in which the program panics.\<close>

definition doomed :: "host \<Rightarrow> config \<Rightarrow> bool" where
  "doomed h s \<longleftrightarrow> (\<forall>w. config_of w = s \<longrightarrow> crashes h w)"

lemma attempt_alone_panics:
  assumes "run_noop (re_noop e n) s = Done s1" and "attempt h e n s = Panics"
  shows "doomed h (others (re_others e n) (cs_client s1), p, Reconnecting)"
proof -
  let ?c = "others (re_others e n) (cs_client s1)"
  have "\<not> closers_Running ?c > maxClosers ?c"
    using assms by (auto simp: attempt_def Let_def)
  moreover from this have "createSender h (re_create e n) ?c = Panics"
    using assms by (cases "createSender h (re_create e n) ?c")
      (auto simp: attempt_def Let_def split: option.splits)
  ultimately have "attempt h (alone e) n (bare ?c) = Panics"
    by (simp add: attempt_def run_noop_def bare_def alone_def others_def [of "[]"] Let_def)
  then show ?thesis
    unfolding doomed_def by (auto simp: config_of_def intro: crashes.nil_connection [OF _ alone_quiet])
qed

lemma attempt_alone:
  assumes "run_noop (re_noop e n) s = Done s1" and "attempt h e n s = Done (r, s2)"
  shows "\<exists>s3. attempt h (alone e) n (bare (others (re_others e n) (cs_client s1))) = Done (r, s3) \<and>
    cs_client s3 = cs_client s2 \<and> (r = None \<longrightarrow> cs_sender s3 = cs_sender s2) \<and> cs_noop s2 = cs_noop s1"
proof -
  let ?c = "others (re_others e n) (cs_client s1)"
  show ?thesis
  proof (cases "closers_Running ?c > maxClosers ?c")
    case True
    with assms show ?thesis
      by (auto simp: attempt_def run_noop_def bare_def alone_def others_def [of "[]"] Let_def)
  next
    case False
    with assms obtain x sn c1 where c: "createSender h (re_create e n) ?c = Done (x, sn, c1)"
      by (auto simp: attempt_def Let_def bind_outcome_Done)
    with False assms have s2: "r = x" "s2 = s1\<lparr>cs_sender := sn, cs_client := (case x of None \<Rightarrow> c1
        | Some y \<Rightarrow> sendNotify (re_now e n) c1 (Some (errorf ''audit.Client connection error: %w'' [y])))\<rparr>"
      by (auto simp: attempt_def Let_def split: option.splits)
    from False c have "attempt h (alone e) n (bare ?c) = Done (x, (bare ?c)\<lparr>cs_sender := sn, cs_client := (case x of None \<Rightarrow> c1
        | Some y \<Rightarrow> sendNotify (re_now e n) c1 (Some (errorf ''audit.Client connection error: %w'' [y])))\<rparr>)"
      by (simp add: attempt_def run_noop_def bare_def alone_def others_def [of "[]"] Let_def split: option.split)
    with s2 show ?thesis by simp
  qed
qed

lemma leads_attempt:
  assumes "cs_ok m0 s" and "env_ok m0 e" and "calm_env e" and "attempt h e n s = Done (r, s')" and "stands s p"
  shows "\<exists>p'. stands s' p' \<and> (case r of
      None \<Rightarrow> leads h (cs_client s, p, Reconnecting) (cs_client s', p', Stopping (cs_sender s'))
    | Some err \<Rightarrow> if permanent err
        then \<forall>err'. (\<forall>t. errors_is err t \<longrightarrow> errors_is err' t) \<longrightarrow>
          leads h (cs_client s, p, Reconnecting) (cs_client s', p', Dying err')
        else leads h (cs_client s, p, Reconnecting) (cs_client s', p', Reconnecting))"
proof -
  from assms(2) have env: "list_all (round_ok m0) (re_noop e n)" "list_all (other_ok m0) (re_others e n)"
    by (auto simp: env_ok_def)
  obtain s1 where s1: "run_noop (re_noop e n) s = Done s1" "cs_ok m0 s1"
    using run_noop_ok [OF assms(1) env(1)] by blast
  from assms(3) have calm: "list_all calm (re_noop e n) \<or> Reconnecting = Stopping nxt" for nxt
    by (simp add: calm_env_def)
  from leads_noop [OF assms(1) env(1) calm s1(1) assms(5)] obtain p' where
    p': "stands s1 p'" "leads h (cs_client s, p, Reconnecting) (cs_client s1, p', Reconnecting)" by blast
  let ?c = "others (re_others e n) (cs_client s1)"
  from s1(2) have ok: "client_ok (cs_client s1)"
    and mono: "\<And>x. record_ok m0 x \<Longrightarrow> record_ok (memory (cs_client s1)) x" by (auto simp: cs_ok_def)
  from leads_trans [OF p'(2) leads_others [OF ok other_ok_mono [OF mono env(2)]]]
  have first: "leads h (cs_client s, p, Reconnecting) (?c, p', Reconnecting)" .
  from attempt_alone [OF s1(1) assms(4)] obtain s3 where
    s3: "attempt h (alone e) n (bare ?c) = Done (r, s3)" "cs_client s3 = cs_client s'"
      "r = None \<longrightarrow> cs_sender s3 = cs_sender s'" "cs_noop s' = cs_noop s1" by blast
  note quiet = alone_quiet
  have "case r of
      None \<Rightarrow> leads h (?c, p', Reconnecting) (cs_client s', p', Stopping (cs_sender s'))
    | Some err \<Rightarrow> if permanent err
        then \<forall>err'. (\<forall>t. errors_is err t \<longrightarrow> errors_is err' t) \<longrightarrow>
          leads h (?c, p', Reconnecting) (cs_client s', p', Dying err')
        else leads h (?c, p', Reconnecting) (cs_client s', p', Reconnecting)"
  proof (cases r)
    case None
    have "leads h (?c, p', Reconnecting) (cs_client s', p', Stopping (cs_sender s'))"
      by (rule leads_step, rule exI, rule conjI, rule step.reconnected [OF _ quiet, where n = n and s = s3])
         (use s3 None in \<open>simp_all add: config_of_def\<close>)
    with None show ?thesis by simp
  next
    case (Some err)
    show ?thesis
    proof (cases "permanent err")
      case True
      have "leads h (?c, p', Reconnecting) (cs_client s', p', Dying err')"
        if "\<forall>t. errors_is err t \<longrightarrow> errors_is err' t" for err'
        by (rule leads_step, rule exI, rule conjI, rule step.gave_up [OF _ quiet _ True that, where n = n and s = s3])
           (use s3 Some in \<open>simp_all add: config_of_def\<close>)
      with Some True show ?thesis by simp
    next
      case False
      have "leads h (?c, p', Reconnecting) (cs_client s', p', Reconnecting)"
        by (rule leads_step, rule exI, rule conjI, rule step.attempt_failed [OF _ quiet _ False, where n = n and s = s3])
           (use s3 Some in \<open>simp_all add: config_of_def\<close>)
      with Some False show ?thesis by simp
    qed
  qed
  moreover have "stands s' p'" using p'(1) s3(4) by (simp add: stands_def)
  ultimately show ?thesis
    using leads_trans [OF first] by (intro exI [of _ p']) (auto split: option.splits if_splits)
qed

lemma leads_attempt_panics:
  assumes "cs_ok m0 s" and "env_ok m0 e" and "calm_env e" and "attempt h e n s = Panics" and "stands s p"
  shows "\<exists>s'. leads h (cs_client s, p, Reconnecting) s' \<and> doomed h s'"
proof -
  from assms(2) have env: "list_all (round_ok m0) (re_noop e n)" "list_all (other_ok m0) (re_others e n)"
    by (auto simp: env_ok_def)
  obtain s1 where s1: "run_noop (re_noop e n) s = Done s1" "cs_ok m0 s1"
    using run_noop_ok [OF assms(1) env(1)] by blast
  from assms(3) have calm: "list_all calm (re_noop e n) \<or> Reconnecting = Stopping nxt" for nxt
    by (simp add: calm_env_def)
  from leads_noop [OF assms(1) env(1) calm s1(1) assms(5)] obtain p' where
    p': "leads h (cs_client s, p, Reconnecting) (cs_client s1, p', Reconnecting)" by blast
  from s1(2) have ok: "client_ok (cs_client s1)"
    and mono: "\<And>x. record_ok m0 x \<Longrightarrow> record_ok (memory (cs_client s1)) x" by (auto simp: cs_ok_def)
  from leads_trans [OF p' leads_others [OF ok other_ok_mono [OF mono env(2)]]]
    attempt_alone_panics [OF s1(1) assms(4), of p'] show ?thesis by blast
qed

lemma leads_attempts:
  "attempts (attempt h e) s n s' \<Longrightarrow> cs_ok m0 s \<Longrightarrow> env_ok m0 e \<Longrightarrow> calm_env e \<Longrightarrow> stands s p \<Longrightarrow>
   \<exists>p'. stands s' p' \<and> leads h (cs_client s, p, Reconnecting) (cs_client s', p', Reconnecting)"
proof (induction rule: attempts.induct)
  case no_attempt
  then show ?case by (intro exI [of _ p]) simp
next
  case (failed_attempt n s1 err s2)
  then obtain p1 where p1: "stands s1 p1" "leads h (cs_client s, p, Reconnecting) (cs_client s1, p1, Reconnecting)"
    by blast
  from attempts_ok [OF failed_attempt.hyps(1) failed_attempt.prems(1,2)] have "cs_ok m0 s1" by simp
  from leads_attempt [OF this failed_attempt.prems(2,3) failed_attempt.hyps(2) p1(1)] failed_attempt.hyps(3)
  obtain p2 where "stands s2 p2" "leads h (cs_client s1, p1, Reconnecting) (cs_client s2, p2, Reconnecting)"
    by auto
  with leads_trans [OF p1(2)] show ?case by blast
qed

text \<open>The end of a client: the notice, then the mark.\<close>

lemma leads_death:
  assumes "sendNotifyDead sched now c
      (Some (errorf ''audit.Client connection error: stopping connection manager: %w'' [err])) = Some c'"
  shows "leads h (c, p, Dying err) (c'\<lparr>clientDead := True\<rparr>, p, Stopping None)"
proof -
  have "leads h (c, p, Dying err) (c', p, Announced err)"
    by (rule leads_step, rule exI, rule conjI, rule step.announce)
       (use assms in \<open>simp_all add: config_of_def\<close>)
  also have "leads h \<dots> (c'\<lparr>clientDead := True\<rparr>, p, Stopping None)"
    by (rule leads_step, rule exI, rule conjI, rule step.mark_dead) (simp_all add: config_of_def)
  finally show ?thesis .
qed

lemma leads_reconnect:
  assumes R: "retry_uncancelled R" and s: "cs_ok m0 s" and env: "env_ok m0 e" "calm_env e"
    and res: "reconnect R h e s = Some res" and p: "stands s p"
  shows "(\<exists>s' p'. res = Done s' \<and> stands s' p' \<and>
      leads h (cs_client s, p, Reconnecting) (cs_client s', p', Stopping (cs_sender s'))) \<or>
    res = Panics \<and> (\<exists>s'. leads h (cs_client s, p, Reconnecting) s' \<and> doomed h s')"
proof -
  let ?s = "s\<lparr>cs_sender := None\<rparr>" and ?op = "attempt h e"
  have s0: "cs_ok m0 ?s" "stands ?s p" using s p by (simp_all add: cs_ok_def stands_def)
  from res obtain out where out: "R ?op ?s = Some out" by (auto simp: reconnect_def split: option.splits)
  from R [unfolded retry_uncancelled_def, rule_format, OF out] obtain n s1 where
    n: "attempts ?op ?s n s1" "retry_done (?op n s1) out" by blast
  from leads_attempts [OF n(1) s0(1) env s0(2)] obtain p1 where
    p1: "stands s1 p1" "leads h (cs_client s, p, Reconnecting) (cs_client s1, p1, Reconnecting)" by auto
  from attempts_ok [OF n(1) s0(1) env(1)] have s1: "cs_ok m0 s1" by simp
  from s1 env(1) show ?thesis
  proof (cases rule: attempt_ok [where h = h and n = n])
    case panics
    with n(2) out res have "res = Panics" by (simp add: retry_done_def reconnect_def)
    with leads_attempt_panics [OF s1 env panics(1) p1(1)] leads_trans [OF p1(2)] show ?thesis by blast
  next
    case (returns r s2)
    from leads_attempt [OF s1 env returns(1) p1(1)] obtain p2 where
      p2: "stands s2 p2" "case r of
        None \<Rightarrow> leads h (cs_client s1, p1, Reconnecting) (cs_client s2, p2, Stopping (cs_sender s2))
      | Some err \<Rightarrow> if permanent err
          then \<forall>err'. (\<forall>t. errors_is err t \<longrightarrow> errors_is err' t) \<longrightarrow>
            leads h (cs_client s1, p1, Reconnecting) (cs_client s2, p2, Dying err')
          else leads h (cs_client s1, p1, Reconnecting) (cs_client s2, p2, Reconnecting)" by blast
    from n(2) returns(1) consider (made) "r = None" "out = Done (None, s2)"
      | (dead) err err' where "r = Some err" "permanent err" "out = Done (Some err', s2)"
          "\<forall>t. errors_is err t \<longrightarrow> errors_is err' t"
      by (auto simp: retry_done_def)
    then show ?thesis
    proof cases
      case made
      with res out have "res = Done s2" by (simp add: reconnect_def)
      with p2 made leads_trans [OF p1(2)] show ?thesis by auto
    next
      case (dead err err')
      with res out obtain c2 where c2: "sendNotifyDead (re_sched e) (re_dead_now e) (cs_client s2)
          (Some (errorf ''audit.Client connection error: stopping connection manager: %w'' [err'])) = Some c2"
        "res = Done (s2\<lparr>cs_sender := None, cs_client := c2\<lparr>clientDead := True\<rparr>\<rparr>)"
        by (auto simp: reconnect_def split: option.splits)
      from dead p2(2) have "leads h (cs_client s1, p1, Reconnecting) (cs_client s2, p2, Dying err')" by simp
      from leads_trans [OF leads_trans [OF p1(2) this] leads_death [OF c2(1)]] p2(1) c2(2)
      have "res = Done (s2\<lparr>cs_sender := None, cs_client := c2\<lparr>clientDead := True\<rparr>\<rparr>) \<and>
          stands (s2\<lparr>cs_sender := None, cs_client := c2\<lparr>clientDead := True\<rparr>\<rparr>) p2 \<and>
          leads h (cs_client s, p, Reconnecting) (c2\<lparr>clientDead := True\<rparr>, p2, Stopping None)"
        by (simp add: stands_def)
      then show ?thesis
        by (intro disjI1 exI [of _ "s2\<lparr>cs_sender := None, cs_client := c2\<lparr>clientDead := True\<rparr>\<rparr>"] exI [of _ p2]) simp
    qed
  qed
qed

section \<open>The manager\<close>

definition gen_calm :: "generation \<Rightarrow> bool" where
  "gen_calm g \<longleftrightarrow> list_all calm (g_rounds g) \<and> calm_env (g_re g)"

text \<open>The manager is inside a call: a reconnect, or the wait for the no-op sender to end.\<close>

definition busy :: "manager_pc \<Rightarrow> bool" where
  "busy q \<longleftrightarrow> q = Reconnecting \<or> (\<exists>nxt. q = Stopping nxt)"

definition arrives :: "host \<Rightarrow> config \<Rightarrow> manager_status \<Rightarrow> bool" where
  "arrives h s st \<longleftrightarrow> (case st of
       Failed \<Rightarrow> (\<exists>s'. leads h s s' \<and> doomed h s')
     | Waiting \<Rightarrow> (\<exists>c p q. leads h s (c, p, q) \<and> busy q)
     | Serving m c \<Rightarrow> leads h s (c, Selecting m, Supervising)
     | Ended c \<Rightarrow> leads h s (c, Absent, Gone))"

lemma arrives_from: "arrives h s1 st \<Longrightarrow> leads h s s1 \<Longrightarrow> arrives h s st"
  by (cases st) (auto simp: arrives_def intro: leads_trans [of h s s1])

lemma arrives_waiting: "leads h s (c, p, q) \<Longrightarrow> busy q \<Longrightarrow> arrives h s Waiting"
  by (auto simp: arrives_def)

lemma busy_simps [simp]: "busy Reconnecting" "busy (Stopping nxt)"
  by (simp_all add: busy_def)

lemma uncancelled_contract: "retry_uncancelled R \<Longrightarrow> retry_contract R"
  unfolding retry_uncancelled_def retry_contract_def retry_end_def by blast

lemma leads_clear: "stands s p \<Longrightarrow> cs_noop s = None \<Longrightarrow> leads h (c, p, Stopping nxt) (c, Absent, Stopping nxt)"
  by (auto simp: stands_def intro: leads_stop)

lemma leads_take_over:
  assumes "handover_log c c'"
  shows "leads h (c, Absent, Stopping (Some m)) (c', Absent, Launching m)"
  by (rule leads_step, rule exI, rule conjI, rule step.take_over)
     (use assms in \<open>simp_all add: config_of_def\<close>)

lemma leads_launch: "launched m p \<Longrightarrow> leads h (c, Absent, Launching m) (c, p, Supervising)"
  by (rule leads_step, rule exI, rule conjI, rule step.launch) (simp_all add: config_of_def)

lemma launched_simps [simp]: "launched m (Selecting m)" "launched m (Broken m err)"
  by (simp_all add: launched_def)

lemma leads_ended: "leads h (c, Absent, Stopping None) (c, Absent, Gone)"
  by (rule leads_step, rule exI, rule conjI, rule step.ended) (simp_all add: config_of_def)

lemma leads_sender_ended:
  "leads h (c, Broken m err, Supervising)
     (sendNotify now c (Some (errorf ''audit.Client connection error: %w'' [err])), Absent, Reconnecting)"
  by (rule leads_step, rule exI, rule conjI, rule step.sender_ended) (simp_all add: config_of_def)

text \<open>A reconnect without a no-op sender makes none.\<close>

lemma attempt_noop: "cs_noop s = None \<Longrightarrow> attempt h e n s = Done (r, s') \<Longrightarrow> cs_noop s' = None"
  by (auto simp: attempt_def run_noop_def Let_def bind_outcome_Done split: option.splits if_splits prod.splits)

lemma attempts_noop: "attempts (attempt h e) s n s' \<Longrightarrow> cs_noop s = None \<Longrightarrow> cs_noop s' = None"
  by (induction rule: attempts.induct) (auto dest: attempt_noop)

lemma reconnect_noop:
  assumes "retry_uncancelled R" and "reconnect R h e s = Some (Done s')" and "cs_noop s = None"
  shows "cs_noop s' = None"
proof -
  let ?s = "s\<lparr>cs_sender := None\<rparr>" and ?op = "attempt h e"
  from assms(2) obtain out where out: "R ?op ?s = Some out" by (auto simp: reconnect_def split: option.splits)
  from assms(1) [unfolded retry_uncancelled_def, rule_format, OF out] obtain n s1 where
    n: "attempts ?op ?s n s1" "retry_done (?op n s1) out" by blast
  from attempts_noop [OF n(1)] assms(3) have s1: "cs_noop s1 = None" by simp
  from n(2) out assms(2) obtain r s2 where s2: "?op n s1 = Done (r, s2)" "cs_noop s' = cs_noop s2"
    by (auto simp: retry_done_def reconnect_def split: option.splits)
  with attempt_noop [OF s1] show ?thesis by auto
qed

lemma run_sender_arrives:
  assumes "client_ok c" and "sender_ok m" and "gen_ok (memory c) g" and "gen_calm g"
  shows "case run_sender (g_once g) (g_rounds g) m c of
      Crashed \<Rightarrow> False
    | Running m' c' os \<Rightarrow> leads h (c, Absent, Launching m) (c', Selecting m', Supervising)
    | Returned r m' c' os \<Rightarrow> \<exists>err. r = Some err \<and> leads h (c, Absent, Launching m) (c', Broken m' err, Supervising)"
proof (cases "g_once g")
  case (Some err)
  then show ?thesis by (simp add: run_sender_def leads_launch)
next
  case None
  from assms(3,4) have g: "list_all (round_ok (memory c)) (g_rounds g)" "list_all calm (g_rounds g)"
    by (simp_all add: gen_ok_def gen_calm_def)
  from g(2) have "list_all calm (g_rounds g) \<or> Supervising = Stopping nxt" for nxt by simp
  note run = leads_run [OF assms(1,2) g(1) this, of h "[]"]
  note launch = leads_launch [OF launched_simps(1), of h c m]
  show ?thesis
    using run leads_trans [OF launch] None
    by (auto simp: run_sender_def run_arrives_def split: sender_status.split)
qed

lemma leads_generation:
  assumes "client_ok c" and "sender_ok m" and "gen_ok (memory c) g" and "gen_calm g"
    and "run_sender (g_once g) (g_rounds g) m c = Returned r m' c' os"
  shows "\<exists>err. r = Some err \<and> client_ok c' \<and> (\<forall>x. record_ok (memory c) x \<longrightarrow> record_ok (memory c') x) \<and>
    leads h (c, Absent, Launching m)
      (sendNotify (g_now g) c' (Some (errorf ''audit.Client connection error: %w'' [err])), Absent, Reconnecting)"
proof -
  from run_sender_arrives [OF assms(1-4), of h] assms(5) obtain err where
    err: "r = Some err" "leads h (c, Absent, Launching m) (c', Broken m' err, Supervising)" by auto
  have "list_all (round_ok (memory c)) (g_rounds g)" using assms(3) by (simp add: gen_ok_def)
  from run_sender_post [OF assms(1,2) this, of "g_once g"] assms(5) have
    "client_ok c'" "\<forall>x. record_ok (memory c) x \<longrightarrow> record_ok (memory c') x" by simp_all
  with err leads_trans [OF err(2) leads_sender_ended] show ?thesis by simp
qed

lemma arrives_doomed: "leads h s s1 \<Longrightarrow> leads h s1 s2 \<Longrightarrow> doomed h s2 \<Longrightarrow> arrives h s Failed"
  unfolding arrives_def manager_status.case by (blast intro: leads_trans)

lemma leads_manager:
  assumes R: "retry_uncancelled R"
  shows "client_ok c \<Longrightarrow> sender_ok m \<Longrightarrow> list_all (gen_ok (memory c)) gs \<Longrightarrow> list_all gen_calm gs \<Longrightarrow>
    arrives h (c, Absent, Launching m) (manageSender R h gs m c)"
proof (induction gs arbitrary: m c)
  case Nil
  then show ?case by (simp add: arrives_def leads_launch)
next
  case (Cons g gs)
  from Cons.prems(3,4) have g: "gen_ok (memory c) g" "gen_calm g"
    and gs: "list_all (gen_ok (memory c)) gs" "list_all gen_calm gs" by simp_all
  from g have env: "env_ok (memory c) (g_re g)" "calm_env (g_re g)" by (simp_all add: gen_ok_def gen_calm_def)
  note run = run_sender_arrives [OF Cons.prems(1,2) g, of h]
  show ?case
  proof (cases "run_sender (g_once g) (g_rounds g) m c")
    case (Running m' c' os)
    with run show ?thesis by (simp add: arrives_def)
  next
    case Crashed
    with run show ?thesis by simp
  next
    case (Returned r m' c' os)
    from leads_generation [OF Cons.prems(1,2) g Returned, of h] obtain err where
      r: "r = Some err" and ok: "client_ok c'"
      and mono: "\<And>x. record_ok (memory c) x \<Longrightarrow> record_ok (memory c') x"
      and first: "leads h (c, Absent, Launching m)
        (sendNotify (g_now g) c' (Some (errorf ''audit.Client connection error: %w'' [err])), Absent, Reconnecting)"
      by blast
    let ?c = "sendNotify (g_now g) c' (Some (errorf ''audit.Client connection error: %w'' [err]))"
    let ?s = "\<lparr>cs_noop = None, cs_sender = None, cs_client = ?c\<rparr>"
    have s: "cs_ok (memory c) ?s" using ok mono by (simp add: cs_ok_def sendNotify_ok)
    have p: "stands ?s Absent" by (simp add: stands_def)
    show ?thesis
    proof (cases "reconnect R h (g_re g) ?s")
      case None
      with arrives_waiting [OF first] Returned r show ?thesis by simp
    next
      case res: (Some res)
      from leads_reconnect [OF R s env res p] consider
        (crashed) s1 where "res = Panics" "leads h (?c, Absent, Reconnecting) s1" "doomed h s1"
      | (returned) s' p' where "res = Done s'" "stands s' p'"
          "leads h (?c, Absent, Reconnecting) (cs_client s', p', Stopping (cs_sender s'))" by auto
      then show ?thesis
      proof cases
        case crashed
        with arrives_doomed [OF first] Returned r res show ?thesis by simp
      next
        case (returned s' p')
        from uncancelled_contract [OF R] s env(1) res have "reconnect_post R (memory c) (g_re g) ?s s'"
          by (rule reconnect_lemma) (use returned(1) in simp_all)
        then have ok': "client_ok (cs_client s')" "cs_ok (memory c) s'"
          and mono': "\<And>x. record_ok (memory c) x \<Longrightarrow> record_ok (memory (cs_client s')) x"
          by (auto simp: reconnect_post_def cs_ok_def)
        have "cs_noop s' = None"
          using reconnect_noop [OF R res [unfolded returned(1)]] by simp
        from leads_trans [OF leads_trans [OF first returned(3)] leads_clear [OF returned(2) this]]
        have stop: "leads h (c, Absent, Launching m) (cs_client s', Absent, Stopping (cs_sender s'))" .
        show ?thesis
        proof (cases "cs_sender s'")
          case None
          with leads_trans [OF stop [unfolded None] leads_ended] Returned r res returned(1)
          show ?thesis by (simp add: arrives_def)
        next
          case m2: (Some m2)
          with ok'(2) have "sender_ok m2" by (simp add: cs_ok_def)
          note rest = Cons.IH [OF ok'(1) this gens_ok_mono [OF mono' gs(1)] gs(2)]
          have "handover_log (cs_client s') (cs_client s')" by (simp add: handover_log_def)
          from arrives_from [OF rest leads_trans [OF stop [unfolded m2] leads_take_over [OF this]]]
          show ?thesis using Returned r res returned(1) m2 by simp
        qed
      qed
    qed
  qed
qed

section \<open>The background task\<close>

lemma leads_deferred_start:
  assumes "log (sendNotify now c
      (Some (errorf ''audit.Client initial connection failed, deferring connection: %w'' [err]))) \<noteq> None"
    and "launched noop p"
  shows "leads h (c, Absent, Deferring noop err)
     (log_add (''audit.Client initial connection failed, starting deferred connection'', Some err)
        (sendNotify now c
          (Some (errorf ''audit.Client initial connection failed, deferring connection: %w'' [err]))),
      p, Reconnecting)"
  by (rule leads_step, rule exI, rule conjI, rule step.deferred_start)
     (use assms in \<open>simp_all add: config_of_def\<close>)

lemma doomed_deferred: "log c = None \<Longrightarrow> doomed h (c, p, Deferring noop err)"
  by (auto simp: doomed_def config_of_def intro: crashes.nil_logger)

lemma leads_deferred:
  assumes R: "retry_uncancelled R" and c: "client_ok c" and noop: "sender_ok noop"
    and e: "deferred_ok (memory c) e" "calm_env (df_re e)"
    and gs: "list_all (gen_ok (memory c)) gs" "list_all gen_calm gs"
  shows "arrives h (c, Absent, Deferring noop err) (deferredConnect R h e gs noop err c)"
proof (cases "log c = None")
  case True
  then have "deferredConnect R h e gs noop err c = Failed" by (simp add: deferredConnect_def)
  with arrives_doomed [OF leads_refl leads_refl doomed_deferred [OF True]] show ?thesis by simp
next
  case False
  then obtain l where logger: "log c = Some l" by blast
  let ?c1 = "sendNotify (df_now e) c
      (Some (errorf ''audit.Client initial connection failed, deferring connection: %w'' [err]))"
  let ?c2 = "log_add (''audit.Client initial connection failed, starting deferred connection'', Some err) ?c1"
  let ?s = "\<lparr>cs_noop = (if df_once e = None then Some noop else None), cs_sender = None, cs_client = ?c2\<rparr>"
  obtain p0 where p0: "launched noop p0" "stands ?s p0"
  proof (cases "df_once e")
    case None
    then show ?thesis by (intro that [of "Selecting noop"]) (simp_all add: stands_def)
  next
    case (Some x)
    then show ?thesis by (intro that [of "Broken noop x"]) (simp_all add: stands_def)
  qed
  have log1: "log ?c1 \<noteq> None" using logger by simp
  note first = leads_deferred_start [OF log1 p0(1), of h]
  have s: "cs_ok (memory c) ?s" using c noop by (simp add: cs_ok_def sendNotify_ok)
  from e(1) have env: "env_ok (memory c) (df_re e)" "list_all (round_ok (memory c)) (df_last e)"
    by (simp_all add: deferred_ok_def)
  show ?thesis
  proof (cases "reconnect R h (df_re e) ?s")
    case None
    with arrives_waiting [OF first] logger show ?thesis by (simp add: deferredConnect_def)
  next
    case (Some res)
    from leads_reconnect [OF R s env(1) e(2) Some p0(2)] consider
      (crashed) s1 where "res = Panics" "leads h (?c2, p0, Reconnecting) s1" "doomed h s1"
    | (returned) s1 p1 where "res = Done s1" "stands s1 p1"
        "leads h (?c2, p0, Reconnecting) (cs_client s1, p1, Stopping (cs_sender s1))" by auto
    then show ?thesis
    proof cases
      case crashed
      with arrives_doomed [OF first] logger Some show ?thesis by (simp add: deferredConnect_def)
    next
      case (returned s1 p1)
      from uncancelled_contract [OF R] s env(1) Some have "reconnect_post R (memory c) (df_re e) ?s s1"
        by (rule reconnect_lemma) (use returned(1) in simp_all)
      then have ok1: "cs_ok (memory c) s1" by (simp add: reconnect_post_def)
      note second = leads_trans [OF first returned(3)]
      obtain s2 where s2: "run_noop (df_last e) s1 = Done s2" "cs_ok (memory c) s2" "cs_sender s2 = cs_sender s1"
        using run_noop_ok [OF ok1 env(2)] by blast
      have "list_all calm (df_last e) \<or> Stopping (cs_sender s1) = Stopping (cs_sender s1)" by simp
      from leads_noop [OF ok1 env(2) this s2(1) returned(2), of h] obtain p2 where
        p2: "stands s2 p2" "leads h (cs_client s1, p1, Stopping (cs_sender s1)) (cs_client s2, p2, Stopping (cs_sender s1))"
        by blast
      have deferred: "deferredConnect R h e gs noop err c =
          (if cs_noop s2 \<noteq> None then Waiting
           else case cs_sender s1 of
             None \<Rightarrow> Ended (cs_client s2)
           | Some m \<Rightarrow> manageSender R h gs m
               (log_add (''audit.Client deferred connection established, switching to real sender'', None) (cs_client s2)))"
        using logger Some returned(1) s2(1,3) by (simp add: deferredConnect_def split: option.split)
      show ?thesis
      proof (cases "cs_noop s2 = None")
        case False
        with arrives_waiting [OF leads_trans [OF second p2(2)]] deferred show ?thesis by simp
      next
        case True
        from leads_trans [OF leads_trans [OF second p2(2)] leads_clear [OF p2(1) True]]
        have stop: "leads h (c, Absent, Deferring noop err) (cs_client s2, Absent, Stopping (cs_sender s1))" .
        show ?thesis
        proof (cases "cs_sender s1")
          case None
          with leads_trans [OF stop [unfolded None] leads_ended] True deferred
          show ?thesis by (simp add: arrives_def)
        next
          case sdr: (Some sdr)
          let ?c3 = "log_add (''audit.Client deferred connection established, switching to real sender'', None) (cs_client s2)"
          have ok3: "client_ok ?c3" "sender_ok sdr" and mono: "\<And>x. record_ok (memory c) x \<Longrightarrow> record_ok (memory ?c3) x"
            using s2(2,3) sdr by (auto simp: cs_ok_def)
          have "handover_log (cs_client s2) ?c3" by (simp add: handover_log_def)
          from leads_trans [OF stop [unfolded sdr] leads_take_over [OF this]]
          have "leads h (c, Absent, Deferring noop err) (?c3, Absent, Launching sdr)" .
          from arrives_from [OF leads_manager [OF R ok3 gens_ok_mono [OF mono gs(1)] gs(2)] this] sdr True deferred
          show ?thesis by simp
        qed
      qed
    qed
  qed
qed

text \<open>A path from the start is a run of the client that \<open>New\<close> returned.\<close>

lemma leads_reachable:
  assumes "leads h (config_of (started h c t)) s"
  shows "\<exists>w. reachable h c t w \<and> config_of w = s"
proof -
  from assms obtain w where w: "(step h)\<^sup>*\<^sup>* (started h c t) w" "config_of w = s" by (auto simp: leads_def)
  from w(1) have "reachable h c t w"
    by (induction rule: rtranclp_induct) (auto intro: reach_start reach_step)
  with w(2) show ?thesis by blast
qed

text \<open>
  C5. The interleaved model covers the sequential one: whatever the background task of a client from \<open>New\<close> does, over any
  generations of senders (also such whose task cannot be started), reconnects and hand-overs, with any acts of users and of the network
  between and during its steps, is a run of the step relation, which reaches the
  same client, served by the same sender, or gone; where a call has not returned, the run stands in that call; where the task panics, on a
  nil logger or a nil connection, the run reaches a state in which the program panics. The contexts are those the package
  uses outside tests: no sender but the one told to stop and no back-off sees its context cancelled. So every property of the reachable states holds
  wherever \<open>deferredConnect\<close> and \<open>manageSender\<close> arrive.
\<close>

theorem task_runs_in_world:
  assumes "retry_uncancelled R" and "list_all std_option options"
    and "New h ustr None mem uid r options = Done (Inr c, Some t)"
    and "deferred_ok (memory c) e" and "calm_env (df_re e)"
    and "list_all (gen_ok (memory c)) gs" and "list_all gen_calm gs"
  shows "case run_task R h e gs t c of
      Failed \<Rightarrow> \<exists>w. runs_from h ustr mem uid r options c w \<and> crashes h w
    | Waiting \<Rightarrow> \<exists>w. runs_from h ustr mem uid r options c w \<and> busy (mgr w)
    | Serving m c' \<Rightarrow> \<exists>w. runs_from h ustr mem uid r options c w \<and> client w = c' \<and>
        sdr w = Selecting m \<and> mgr w = Supervising
    | Ended c' \<Rightarrow> \<exists>w. runs_from h ustr mem uid r options c w \<and> client w = c' \<and>
        sdr w = Absent \<and> mgr w = Gone"
proof -
  from New_startable [OF assms(2,3)] have start: "startable c t" .
  then have ok: "client_ok c" by (simp add: startable_def ready_def)
  have arr: "arrives h (config_of (started h c t)) (run_task R h e gs t c)"
  proof (cases t)
    case (ManageTask m)
    with start have "sender_ok m" by (simp add: startable_def)
    from leads_manager [OF assms(1) ok this assms(6,7), of h] ManageTask show ?thesis
      by (simp add: started_def config_of_def run_task_def)
  next
    case (DeferredTask noop err)
    with start have "sender_ok noop" by (simp add: startable_def)
    from leads_deferred [OF assms(1) ok this assms(4-7), of h err] DeferredTask show ?thesis
      by (simp add: started_def config_of_def run_task_def)
  qed
  have run: "\<exists>w. runs_from h ustr mem uid r options c w \<and> config_of w = s"
    if "leads h (config_of (started h c t)) s" for s
    using leads_reachable [OF that] assms(2,3) by (auto simp: runs_from_def)
  show ?thesis
  proof (cases "run_task R h e gs t c")
    case Waiting
    with arr obtain c' p q where "leads h (config_of (started h c t)) (c', p, q)" "busy q"
      by (auto simp: arrives_def)
    with run [of "(c', p, q)"] Waiting show ?thesis by (auto simp: config_of_def)
  next
    case Failed
    with arr obtain s' where "leads h (config_of (started h c t)) s'" "doomed h s'"
      by (auto simp: arrives_def)
    with run [of s'] Failed show ?thesis by (auto simp: doomed_def)
  qed (use arr run in \<open>auto simp: arrives_def config_of_def\<close>)
qed

text \<open>A back-off without an end, looked at for \<open>k\<close> attempts.\<close>

fun patient_loop ::
  "nat \<Rightarrow> nat \<Rightarrow> (nat \<Rightarrow> 's \<Rightarrow> (goerr option \<times> 's) outcome) \<Rightarrow> 's
     \<Rightarrow> (goerr option \<times> 's) outcome option" where
  "patient_loop 0 n op s = None"
| "patient_loop (Suc k) n op s =
     (case op n s of
        Blocked \<Rightarrow> None
      | Panics \<Rightarrow> Some Panics
      | Done (None, s') \<Rightarrow> Some (Done (None, s'))
      | Done (Some e, s') \<Rightarrow>
          if permanent e then Some (Done (Some e, s')) else patient_loop k (Suc n) op s')"

lemma patient_loop_done:
  "attempts op s0 n s \<Longrightarrow> patient_loop k n op s = Some res \<Longrightarrow>
   \<exists>n' s'. attempts op s0 n' s' \<and> retry_done (op n' s') res"
proof (induction k arbitrary: n s)
  case (Suc k)
  show ?case
  proof (cases "op n s")
    case (Done y)
    obtain r s' where y: "y = (r, s')" by fastforce
    show ?thesis
    proof (cases "\<exists>e. r = Some e \<and> \<not> permanent e")
      case True
      then obtain e where e: "r = Some e" "\<not> permanent e" by blast
      with Suc.prems Done y have "attempts op s0 (Suc n) s'" "patient_loop k (Suc n) op s' = Some res"
        by (auto intro: attempts.failed_attempt)
      then show ?thesis by (rule Suc.IH)
    next
      case False
      with Suc.prems Done y have "retry_done (op n s) res"
        by (cases r) (auto simp: retry_done_def)
      with Suc.prems(1) show ?thesis by blast
    qed
  qed (use Suc.prems in \<open>auto simp: retry_done_def\<close>)
qed simp

definition retry_patient :: "nat \<Rightarrow> retry" where
  "retry_patient k op s = patient_loop k 0 op s"

lemma retry_patient_uncancelled: "retry_uncancelled (retry_patient k)"
  unfolding retry_uncancelled_def retry_patient_def
  by (intro allI impI) (rule patient_loop_done [OF attempts.no_attempt])

text \<open>A deferred start that fails once more and then for good.\<close>

definition sample_giving_up :: deferred_env where
  "sample_giving_up = \<lparr>df_now = 1, df_once = None, df_re = sample_reconnect,
     df_last = [(sample_round MsgReady sample_env)\<lparr>rd_cancelled := True\<rparr>]\<rparr>"

lemma sample_giving_up_ok:
  "deferred_ok sample_mem sample_giving_up" "calm_env (df_re sample_giving_up)"
  using sample_reconnect_ok(1) sample_round_ok(1)
  by (simp_all add: deferred_ok_def sample_giving_up_def round_ok_def calm_env_def sample_reconnect_def)

lemma sample_gives_up:
  "\<exists>c'. run_task (retry_patient 5) sample_host sample_giving_up [] (DeferredTask m err) sample_deferring = Ended c'"
  by (simp add: run_task_def deferredConnect_def reconnect_def retry_patient_def numeral_eq_Suc attempt_def run_noop_def
      sample_giving_up_def sample_reconnect_def sample_round_def
      Let_def others_def createSender_def newSender_def closers_Running_def log_add_def
      logDrop_def sendNotify_def notice_def TryPut_def make_chan_def sendNotifyDead_def dead_loop.simps TryGet_def)

theorem task_runs_in_world_witness:
  "\<exists>w. runs_from sample_host (\<lambda>u. ''id'') sample_mem 1 (Inl ErrQueueFull) [WithDeferredConnection] sample_deferring w \<and>
     mgr w = Gone"
proof -
  let ?t = "DeferredTask (fresh_sender sample_host sample_deferring NoOP)
       (errorf ''failed to create audit connection: %w'' [ErrQueueFull])"
  obtain c' where "run_task (retry_patient 5) sample_host sample_giving_up [] ?t sample_deferring = Ended c'"
    using sample_gives_up by blast
  with task_runs_in_world [OF retry_patient_uncancelled [of 5] _ sample_New_deferred _ sample_giving_up_ok(2), of "[]"]
    sample_giving_up_ok(1)
  show ?thesis by (auto simp: std_option_def)
qed

end
