(* ===== verification/ConnFacts.thy ===== *)
theory ConnFacts
  imports SenderRuns
begin

text \<open>
  What the connections promise: which socket \<open>NewDomainSocket\<close> dials, that its guard and its errors leave no
  connection behind, and how a sender uses the network connection it owns.
\<close>

section \<open>Dialing a domain socket\<close>

text \<open>The path the options choose: the last one given, where the empty one stands for the default.\<close>

definition chosen_path :: "(string \<Rightarrow> goerr option) \<Rightarrow> string list \<Rightarrow> string" where
  "chosen_path stat ps =
     (if ps \<noteq> [] \<and> last ps \<noteq> [] then last ps
      else if stat ''/var/run/mdsd/asa/default_fluent.socket'' = None
      then ''/var/run/mdsd/asa/default_fluent.socket''
      else ''/var/run/mdsd/default_fluent.socket'')"

lemma apply_paths:
  "apply_dsOptions (map DomainSocketPath ps) o1 = Inr (if ps = [] then o1 else o1\<lparr>path := last ps\<rparr>)"
  by (induction ps arbitrary: o1) (simp_all add: DomainSocketPath_def)

lemma setDefaults_path:
  "path (setDefaults stat \<lparr>path = []\<rparr>) = chosen_path stat []"
  "ps \<noteq> [] \<Longrightarrow> path (setDefaults stat \<lparr>path = last ps\<rparr>) = chosen_path stat ps"
  by (simp_all add: setDefaults_def chosen_path_def asaSocket_def fluentSocket_def split: option.split)

text \<open>
  C39. \<open>NewDomainSocket\<close> with any list of path options: with ten or more closes pending it fails
  without dialing; otherwise it dials exactly the chosen path on the network \<open>unix\<close>, and returns either the dial's error,
  wrapped, or a domain socket connection over the dialed one. It never closes a connection, so none is leaked.
\<close>

theorem NewDomainSocket_spec:
  "NewDomainSocket l stat dial (map DomainSocketPath ps) =
     (if 10 \<le> l then (Inl (errorf (''there are '' @ itoa l @ '' Domain Socket connections trying to close, there indicates some system level error'') []), [])
      else case dial ''unix'' (chosen_path stat ps) of
          Inl e \<Rightarrow> (Inl (errorf (''failed to connect to audit server('' @ chosen_path stat ps @ ''): %w'') [e]), [])
        | Inr k \<Rightarrow> (Inr (DomainSocketConn \<lparr>wr_conn = k\<rparr>), []))"
  by (cases "ps = []")
     (simp_all add: NewDomainSocket_def apply_paths setDefaults_path writer_New_def Let_def split: sum.split)

section \<open>How a sender uses its connection\<close>

text \<open>
  The network connection behind a connection, if it has one; and traffic in which all calls are on it, each write
  comes directly after a deadline, and nothing is closed.
\<close>

definition network :: "audit_conn \<Rightarrow> nat option" where
  "network a = (case a of NoOP \<Rightarrow> None | DomainSocketConn w \<Rightarrow> Some (wr_conn w)
     | TCPConn w \<Rightarrow> Some (wr_conn w) | TestHangConn h \<Rightarrow> None)"

fun guarded :: "nat option \<Rightarrow> netop list \<Rightarrow> bool" where
  "guarded k [] \<longleftrightarrow> True"
| "guarded k (SetWriteDeadline i t # NetWrite j b # os) \<longleftrightarrow> k = Some i \<and> j = i \<and> guarded k os"
| "guarded k (SetWriteDeadline i t # os) \<longleftrightarrow> k = Some i \<and> guarded k os"
| "guarded k (x # os) \<longleftrightarrow> False"

lemma guarded_deadline: "guarded k ys \<Longrightarrow> guarded k (SetWriteDeadline i t # ys) \<longleftrightarrow> k = Some i"
proof (cases ys)
  case (Cons y zs)
  then show "guarded k ys \<Longrightarrow> ?thesis" by (cases y) auto
qed simp

lemma guarded_append: "guarded k xs \<Longrightarrow> guarded k ys \<Longrightarrow> guarded k (xs @ ys)"
  by (induction k xs rule: guarded.induct) (auto simp: guarded_deadline)

lemma guarded_Write: "conn_Write ne m a msg = (r, m', os) \<Longrightarrow> guarded (network a) os"
  by (auto simp: conn_Write_def writer_Write_def network_def Let_def
      split: audit_conn.splits prod.splits sum.splits)

lemma guarded_write:
  assumes "msgSender_write e a c msg = Done (r, c', os)"
  shows "guarded (network a) os"
proof -
  obtain w m' ops where w: "conn_Write (we_net e) (memory c) a msg = (w, m', ops)" by (rule prod_cases3)
  with assms have "os = ops"
    by (auto simp: msgSender_write_def bind_outcome_Done)
  with guarded_Write [OF w] show ?thesis by simp
qed

lemma guarded_service:
  assumes "serviceMsg ev e1 e2 m c = Done (r, m', c', os)"
  shows "guarded (network (ms_conn m)) os" and "ms_conn m' = ms_conn m"
  using assms
  by (auto simp: serviceMsg_def stop_on_error_def bind_outcome_Done Stop_ticker_def
      split: event.splits option.splits prod.splits if_splits
      intro: guarded_append dest!: guarded_write)

lemma guarded_run:
  "guarded (network (ms_conn m)) os \<Longrightarrow> guarded (network (ms_conn m)) (traffic (sender rs m c os))"
proof (induction rs arbitrary: m c os)
  case (Cons rd rs)
  show ?case
  proof (cases "serviceMsg (rd_event rd) (rd_env1 rd) (rd_env2 rd) m (others (rd_others rd) c)")
    case (Done x)
    obtain r m' c' os' where x: "x = (r, m', c', os')" by (rule prod_cases4)
    note s = guarded_service [OF Done [unfolded x]]
    from guarded_append [OF Cons.prems s(1)] Cons.IH [of m' "os @ os'" c'] s(2) Cons.prems Done x
    show ?thesis by (cases r) auto
  qed (use Cons.prems in auto)
qed simp

text \<open>
  Over every run of a sender, whatever the network, the clock and other goroutines do: it calls only the
  network connection it owns, every write to it directly follows a call that sets a write deadline, so
  no write can block for ever, and the sender does not close it; on a connection without a network it makes
  no call at all.
\<close>

lemma sender_deadlines:
  "guarded (network (ms_conn m)) (traffic (sender rs m c []))"
  by (rule guarded_run) simp

end
