(* ===== verification/WorldWire.thy ===== *)
theory WorldWire
  imports WorldClaims ConnFacts
begin

text \<open>
  What the client puts on the network, for every interleaving: the lines of the history obey the heartbeat
  protocol and the discipline of deadlines, a sender that saw an error writes no more, and what
  the program counts as sent is what its connections took.
\<close>

section \<open>Lines\<close>

text \<open>
  A note tells the truth if it has what the connection's \<open>Write\<close> gives on that memory. Such a write calls only the network
  connection behind it, directly after setting a deadline, and one that succeeded there did write.
\<close>

definition note_ok :: "audit_conn \<Rightarrow> written_note \<Rightarrow> bool" where
  "note_ok a n \<longleftrightarrow> record_ok (wn_mem n) (msg_Record (wn_msg n)) \<and>
     (\<exists>m'. conn_Write (wn_net n) (wn_mem n) a (wn_msg n) = (wn_result n, m', wn_ops n)) \<and>
     guarded (network a) (wn_ops n) \<and>
     (\<forall>k. network a = Some k \<longrightarrow> wn_result n = None \<longrightarrow>
        (\<exists>t b. wn_ops n = [SetWriteDeadline k t, NetWrite k b]))"

definition taken_well :: "written_note list \<Rightarrow> bool" where
  "taken_well ns \<longleftrightarrow> list_all (\<lambda>n. wn_result n = None) ns"

definition types_of :: "written_note list \<Rightarrow> Type list" where
  "types_of ns = map (\<lambda>n. msg_Type (wn_msg n)) ns"

definition line_ok :: "audit_conn \<Rightarrow> written_note list \<Rightarrow> bool" where
  "line_ok a ns \<longleftrightarrow> hb_protocol user_type Heartbeat (types_of ns) \<and> taken_well (butlast ns) \<and>
     list_all (note_ok a) ns"

lemma taken_well_simps [simp]:
  "taken_well []" "taken_well (ns @ [n]) \<longleftrightarrow> taken_well ns \<and> wn_result n = None"
  by (simp_all add: taken_well_def)

lemma types_of_simps [simp]:
  "types_of [] = []" "types_of (ns @ [n]) = types_of ns @ [msg_Type (wn_msg n)]"
  "length (types_of ns) = length ns"
  by (simp_all add: types_of_def)

lemma line_start [simp]: "line_ok a []"
  by (simp add: line_ok_def)

lemma note_written:
  "conn_Write ne m a msg = (r, m', os) \<Longrightarrow> record_ok m (msg_Record msg) \<Longrightarrow>
     note_ok a \<lparr>wn_net = ne, wn_mem = m, wn_msg = msg, wn_result = r, wn_ops = os\<rparr>"
  using guarded_Write [of ne m a msg r m' os]
  by (auto simp: note_ok_def conn_Write_def writer_Write_def network_def Let_def
      split: audit_conn.splits prod.splits sum.splits)

text \<open>A message may open a line or follow a heartbeat; a heartbeat may follow anything.\<close>

lemma line_first:
  assumes "user_type (msg_Type (wn_msg n))" and "note_ok a n"
  shows "line_ok a [n]"
  using assms by (simp add: line_ok_def types_of_def)

lemma line_second:
  assumes "line_ok a ns" and "taken_well ns" and "ns \<noteq> []" and "msg_Type (wn_msg n) = Heartbeat" and "note_ok a n"
  shows "line_ok a (ns @ [n])"
proof -
  have "hb_protocol user_type Heartbeat (types_of ns @ [Heartbeat])"
  proof (cases "2 \<le> length (types_of ns)")
    case True
    then show ?thesis using assms(1) by (intro protocol_extend) (simp_all add: line_ok_def)
  next
    case False
    with assms(3) obtain x where "ns = [x]" by (cases ns; cases "tl ns") auto
    with assms(1) show ?thesis by (simp add: line_ok_def types_of_def)
  qed
  with assms show ?thesis by (simp add: line_ok_def)
qed

lemma line_later:
  assumes "line_ok a ns" and "taken_well ns" and "2 \<le> length ns" and "user_type (msg_Type (wn_msg n))"
    and "note_ok a n"
  shows "line_ok a (ns @ [n])"
proof -
  have "hb_protocol user_type Heartbeat (types_of ns @ [msg_Type (wn_msg n)])"
    using assms(1,3,4) by (intro protocol_extend) (simp_all add: line_ok_def)
  with assms show ?thesis by (simp add: line_ok_def)
qed

section \<open>What the connections took\<close>

definition line_took :: "line \<Rightarrow> Msg list" where
  "line_took l = (case l of (a, ns) \<Rightarrow>
     if conn_Type a = TypeNoOP then [] else map wn_msg (filter (\<lambda>n. wn_result n = None) ns))"

definition took :: "line list \<Rightarrow> Msg list" where
  "took ls = concat (map line_took (rev ls))"

text \<open>The message, or the heartbeat, a connection has taken and its sender has yet to count.\<close>

definition landed :: "sender_pc \<Rightarrow> Msg list" where
  "landed p = (case p of
       Written m msg r \<Rightarrow> if r = None \<and> conn_Type (ms_conn m) \<noteq> TypeNoOP then [msg] else []
     | BeatWritten m r \<Rightarrow> if r = None \<and> conn_Type (ms_conn m) \<noteq> TypeNoOP then [ms_heartbeat m] else []
     | _ \<Rightarrow> [])"

abbreviation of_user :: "Msg \<Rightarrow> bool" where
  "of_user msg \<equiv> user_type (msg_Type msg)"

definition counted_right :: "history \<Rightarrow> sender_pc \<Rightarrow> bool" where
  "counted_right h p \<longleftrightarrow> filter of_user (took (line_log h)) = sent h @ filter of_user (landed p) \<and>
     length (filter (\<lambda>x. \<not> of_user x) (took (line_log h))) =
       beats h + length (filter (\<lambda>x. \<not> of_user x) (landed p))"

lemma took_new [simp]: "took ((a, []) # ls) = took ls"
  by (simp add: took_def line_took_def)

lemma took_note:
  "took ((a, ns @ [n]) # ls) = took ((a, ns) # ls) @
     (if wn_result n = None \<and> conn_Type a \<noteq> TypeNoOP then [wn_msg n] else [])"
  by (simp add: took_def line_took_def)

section \<open>The invariant\<close>

text \<open>Where a sender is in its line, by its ticker and its program point.\<close>

definition between :: "msgSender \<Rightarrow> written_note list \<Rightarrow> bool" where
  "between m ns \<longleftrightarrow> taken_well ns \<and> (if ms_ticker m = NilTicker then ns = [] else 2 \<le> length ns)"

fun at_point :: "sender_pc \<Rightarrow> written_note list \<Rightarrow> bool" where
  "at_point (Selecting m) ns = between m ns"
| "at_point (Holding m msg) ns = between m ns"
| "at_point (Written m msg r) ns = (ns \<noteq> [] \<and> between m (butlast ns) \<and> wn_result (last ns) = r)"
| "at_point (Beating m) ns = (taken_well ns \<and> ns \<noteq> [])"
| "at_point (BeatWritten m r) ns = (2 \<le> length ns \<and> taken_well (butlast ns) \<and> wn_result (last ns) = r)"
| "at_point p ns = True"

definition on_line :: "sender_pc \<Rightarrow> line list \<Rightarrow> bool" where
  "on_line p ls \<longleftrightarrow> (\<forall>m. pc_sender p = Some m \<longrightarrow> (\<exists>ns ls'. ls = (ms_conn m, ns) # ls' \<and> at_point p ns))"

fun unused :: "manager_pc \<Rightarrow> bool" where
  "unused (Stopping (Some m)) \<longleftrightarrow> ms_ticker m = NilTicker"
| "unused (Launching m) \<longleftrightarrow> ms_ticker m = NilTicker"
| "unused (Deferring m err) \<longleftrightarrow> ms_ticker m = NilTicker"
| "unused q \<longleftrightarrow> True"

definition wire_inv :: "world \<Rightarrow> bool" where
  "wire_inv w \<longleftrightarrow> list_all (\<lambda>(a, ns). line_ok a ns) (line_log (hist w)) \<and>
     on_line (sdr w) (line_log (hist w)) \<and> counted_right (hist w) (sdr w) \<and> unused (mgr w)"

text \<open>A step that neither writes nor finishes a write.\<close>

lemma wire_still:
  assumes "wire_inv w" and "line_log (hist w') = line_log (hist w)" and "sent (hist w') = sent (hist w)"
    and "beats (hist w') = beats (hist w)" and "unused (mgr w')" and "landed (sdr w') = landed (sdr w)"
    and "on_line (sdr w) (line_log (hist w)) \<Longrightarrow> on_line (sdr w') (line_log (hist w))"
  shows "wire_inv w'"
  using assms by (simp add: wire_inv_def counted_right_def)


lemma taken_well_split: "ns \<noteq> [] \<Longrightarrow> taken_well ns \<longleftrightarrow> taken_well (butlast ns) \<and> wn_result (last ns) = None"
  using taken_well_simps(2) [of "butlast ns" "last ns"] by simp

lemma on_lineD:
  assumes "wire_inv w" and "pc_sender (sdr w) = Some m"
  obtains ns ls where "line_log (hist w) = (ms_conn m, ns) # ls" "at_point (sdr w) ns" "line_ok (ms_conn m) ns"
    "list_all (\<lambda>(a, ns). line_ok a ns) ls"
  using assms by (auto simp: wire_inv_def on_line_def)

text \<open>The writes.\<close>

lemma wire_write:
  assumes "wire_inv w" and "world_inv c0 w" and "sdr w = Holding m msg"
    and "conn_Write ne (memory (client w)) (ms_conn m) msg = (r, mem', os)"
  shows "wire_inv (w\<lparr>client := (client w)\<lparr>memory := mem'\<rparr>, sdr := Written m msg r,
      hist := noted 0 ne (client w) msg r os (hist w)\<rparr>)"
proof -
  let ?n = "\<lparr>wn_net = ne, wn_mem = memory (client w), wn_msg = msg, wn_result = r, wn_ops = os\<rparr>"
  have "pc_sender (sdr w) = Some m" by (simp add: assms(3))
  from on_lineD [OF assms(1) this] obtain ns ls where l: "line_log (hist w) = (ms_conn m, ns) # ls"
    "at_point (sdr w) ns" "line_ok (ms_conn m) ns" "list_all (\<lambda>(a, ns). line_ok a ns) ls" by blast
  have "in_hand (sdr w) = [msg]" by (simp add: assms(3) in_hand_def)
  note msg = held_message [OF assms(2) this]
  note note_true = note_written [OF assms(4) writable_record_ok [OF msg(1)]]
  from msg(2) have "user_type (msg_Type msg)" .
  moreover from l(2) assms(3) have b: "between m ns" by simp
  ultimately have "line_ok (ms_conn m) (ns @ [?n])"
    using line_first [of ?n "ms_conn m"] line_later [OF l(3), of ?n] note_true
    by (auto simp: between_def split: if_splits)
  with l(4) b assms(1,3) show ?thesis
    by (simp add: noted_def wire_inv_def on_line_def l(1) counted_right_def took_note landed_def)
qed

lemma wire_beat:
  assumes "wire_inv w" and "world_inv c0 w" and "sdr w = Beating m \<or> sdr w = Selecting m \<and> ms_ticker m = Ticking"
    and "conn_Write ne (memory (client w)) (ms_conn m) (ms_heartbeat m) = (r, mem', os)"
  shows "wire_inv (w\<lparr>client := (client w)\<lparr>memory := mem'\<rparr>, sdr := BeatWritten m r,
      hist := noted 0 ne (client w) (ms_heartbeat m) r os (hist w)\<rparr>)"
proof -
  let ?n = "\<lparr>wn_net = ne, wn_mem = memory (client w), wn_msg = ms_heartbeat m, wn_result = r, wn_ops = os\<rparr>"
  from assms(3) have p: "pc_sender (sdr w) = Some m" by auto
  from on_lineD [OF assms(1) this] obtain ns ls where l: "line_log (hist w) = (ms_conn m, ns) # ls"
    "at_point (sdr w) ns" "line_ok (ms_conn m) ns" "list_all (\<lambda>(a, ns). line_ok a ns) ls" by blast
  from l(2) assms(3) have b: "taken_well ns" "ns \<noteq> []" by (auto simp: between_def)
  note note_true = note_written [OF assms(4) writable_record_ok [OF held_heartbeat(2) [OF assms(2) p]]]
  from held_heartbeat(1) [OF assms(2) p] have "msg_Type (ms_heartbeat m) = Heartbeat" by (simp add: sender_ok_def)
  with line_second [OF l(3) b, of ?n] note_true have "line_ok (ms_conn m) (ns @ [?n])" by simp
  moreover have "1 \<le> length ns" using b(2) by (cases ns) simp_all
  moreover have "landed (sdr w) = []" using assms(3) by (auto simp: landed_def)
  ultimately show ?thesis
    using l(4) b assms(1)
    by (simp add: noted_def wire_inv_def on_line_def l(1) counted_right_def took_note landed_def)
qed

text \<open>What a sender does with the answer.\<close>

lemma wire_finish:
  assumes "wire_inv w" and "world_inv c0 w" and "sdr w = Written m msg r"
  shows "wire_inv (w\<lparr>client := c, sdr := after_message m r, hist := note_message m (client w) msg r (hist w)\<rparr>)"
proof -
  have p: "pc_sender (sdr w) = Some m" by (simp add: assms(3))
  from on_lineD [OF assms(1) this] obtain ns ls where l: "line_log (hist w) = (ms_conn m, ns) # ls"
    "at_point (sdr w) ns" by blast
  have user: "user_type (msg_Type msg)"
    by (rule held_message(2) [OF assms(2)]) (simp add: assms(3) in_hand_def)
  from l(2) assms(3) have b: "ns \<noteq> []" "between m (butlast ns)" "wn_result (last ns) = r" by simp_all
  have "on_line (after_message m r) (line_log (hist w))"
    using b by (cases r) (auto simp: on_line_def l(1) after_message_def Stop_ticker_def taken_well_split
        between_def split: if_splits)
  moreover have "line_log (note_message m (client w) msg r (hist w)) = line_log (hist w)"
    by (simp add: note_message_def)
  moreover have "landed (after_message m r) = []"
    by (simp add: after_message_def landed_def split: option.split)
  moreover have "sent (note_message m (client w) msg r (hist w)) = sent (hist w) @ landed (sdr w)"
    "beats (note_message m (client w) msg r (hist w)) = beats (hist w)"
    by (simp_all add: note_message_def landed_def assms(3))
  moreover have "list_all of_user (landed (sdr w))" using user by (simp add: landed_def assms(3))
  ultimately show ?thesis using assms(1) by (simp add: wire_inv_def counted_right_def list_all_iff)
qed

lemma wire_finish_beat:
  assumes "wire_inv w" and "world_inv c0 w" and "sdr w = BeatWritten m r"
  shows "wire_inv (w\<lparr>client := c, sdr := after_beat m r, hist := note_beat m r (hist w)\<rparr>)"
proof -
  have p: "pc_sender (sdr w) = Some m" by (simp add: assms(3))
  from on_lineD [OF assms(1) this] obtain ns ls where l: "line_log (hist w) = (ms_conn m, ns) # ls"
    "at_point (sdr w) ns" by blast
  note hb = held_heartbeat(3) [OF assms(2) p]
  from l(2) assms(3) have b: "2 \<le> length ns" "taken_well (butlast ns)" "wn_result (last ns) = r" by simp_all
  then have "ns \<noteq> []" by auto
  with b have "on_line (after_beat m r) (line_log (hist w))"
    by (cases r) (auto simp: on_line_def l(1) after_beat_def Stop_ticker_def taken_well_split
        between_def split: if_splits)
  moreover have "landed (after_beat m r) = []"
    by (simp add: after_beat_def landed_def split: option.split)
  moreover have "line_log (note_beat m r (hist w)) = line_log (hist w)" "sent (note_beat m r (hist w)) = sent (hist w)"
    by (simp_all add: note_beat_def)
  moreover have "beats (note_beat m r (hist w)) = beats (hist w) + length (landed (sdr w))"
    by (simp add: note_beat_def landed_def assms(3))
  moreover have "list_all (\<lambda>x. \<not> of_user x) (landed (sdr w))" using hb by (simp add: landed_def assms(3))
  ultimately show ?thesis using assms(1)
    by (simp add: wire_inv_def counted_right_def list_all_iff)
qed

text \<open>A new sender.\<close>

lemma wire_new:
  assumes "wire_inv w" and "sdr w = Absent" and "ms_ticker m = NilTicker" and "launched m p" and "unused q"
  shows "wire_inv (w\<lparr>client := c, sdr := p, mgr := q, old := ps, hist := new_line m (hist w)\<rparr>)"
  using assms
  by (auto simp: wire_inv_def new_line_def on_line_def between_def counted_right_def landed_def launched_def)

lemma attempt_unused:
  assumes "client_ok c" and "quiet e" and "attempt h e n (bare c) = Done (None, s)"
  shows "\<exists>m. cs_sender s = Some m \<and> ms_ticker m = NilTicker"
proof -
  from assms(2) have q: "re_noop e n = []" "re_others e n = []"
    by (auto simp: quiet_def)
  show ?thesis
    using assms(3) q
    by (cases rule: created_cases [of "re_create e n" h c])
       (auto simp: attempt_def run_noop_def bare_def others_def Let_def createSender_eq [OF assms(1)]
         conn_failure_def split: if_splits)
qed

lemma step_wire:
  assumes "step h w w'" and "world_inv c0 w" and "wire_inv w"
  shows "wire_inv w'"
proof -
  note ok = world_inv_simps(1) [OF assms(2)]
  have still: "wire_inv w'" if "hist w' = hist w" "sdr w' = sdr w" "unused (mgr w')" for w'
    by (rule wire_still [OF assms(3)]) (simp_all add: that)
  have unused: "unused (mgr w)" using assms(3) by (simp add: wire_inv_def)
  show ?thesis
    using assms(1) world_inv_simps(6) [OF assms(2)]
  proof (cases rule: step_cases)
    case (send_put xs msg ys r c)
    then show ?thesis
      using unused by (intro wire_still [OF assms(3)]) (auto simp: note_put_def)
  next
    case (other x)
    then show ?thesis
      using unused by (intro wire_still [OF assms(3)]) (auto simp: note_other_def)
  next
    case (take_msg m ch msg ch')
    then show ?thesis
      using unused by (intro wire_still [OF assms(3)]) (auto simp: landed_def on_line_def)
  next
    case (write_msg m msg ne r mem' os)
    with wire_write [OF assms(3,2)] show ?thesis by simp
  next
    case (finish_msg m msg r now c)
    with wire_finish [OF assms(3,2)] show ?thesis by simp
  next
    case (beat m ne r mem' os)
    with wire_beat [OF assms(3,2)] show ?thesis by simp
  next
    case (finish_beat m r now c)
    with wire_finish_beat [OF assms(3,2)] show ?thesis by simp
  next
    case (deferred_start noop err c now p)
    with unused wire_new [OF assms(3) world_inv_simps(7) [OF assms(2)], of noop p Reconnecting]
    show ?thesis by simp
  next
    case (launch m p)
    with unused wire_new [OF assms(3) world_inv_simps(7) [OF assms(2)], where m = m and p = p and q = Supervising and c = "client w"]
    show ?thesis by simp
  next
    case (sender_ended m err now)
    then show ?thesis by (intro wire_still [OF assms(3)]) (auto simp: landed_def on_line_def)
  next
    case (reconnected e n s)
    from attempt_unused [OF ok reconnected(3,4)] reconnected(1) show ?thesis by (intro still) auto
  next
    case (stop_noop nxt m err)
    with unused show ?thesis by (intro wire_still [OF assms(3)]) (auto simp: landed_def on_line_def)
  qed (use unused in \<open>auto intro: still\<close>)
qed

section \<open>Reachable states\<close>

definition fresh_task :: "task \<Rightarrow> bool" where
  "fresh_task t \<longleftrightarrow> (case t of ManageTask m \<Rightarrow> ms_ticker m = NilTicker | DeferredTask m err \<Rightarrow> ms_ticker m = NilTicker)"

lemma started_wire: "fresh_task t \<Longrightarrow> wire_inv (started h c t)"
  by (cases t) (simp_all add: fresh_task_def started_def wire_inv_def no_history_def on_line_def
      counted_right_def took_def landed_def)

lemma New_fresh:
  assumes "list_all std_option options" and "New h ustr once_err mem uid r options = Done (Inr c, Some t)"
  shows "fresh_task t"
  using New_result [OF assms] by (auto simp: fresh_task_def handed_over_def split: if_splits)

lemma reachable_wire:
  "reachable h c t w \<Longrightarrow> startable c t \<Longrightarrow> fresh_task t \<Longrightarrow> wire_inv w"
proof (induction rule: reachable.induct)
  case (reach_step w w')
  with step_wire [OF reach_step.hyps(2) reachable_inv] show ?case by blast
qed (rule started_wire)

lemma runs_from_wire: "runs_from h ustr mem uid r options c w \<Longrightarrow> wire_inv w"
  using New_startable New_fresh reachable_wire by (auto simp: runs_from_def)


section \<open>The claim\<close>

text \<open>
  C4. What the network sees, under every interleaving of users, sender and manager: on each
  connection the client ever wrote to, the first message is a user's, the second a heartbeat and every later
  one either; nothing follows a failed write; every call is on that connection's own network
  connection, a write directly after a deadline; and over all connections the user messages that were taken
  are, in order, those the history has as sent, with the one whose write has just returned, and the counter
  of sent messages differs from their number and that of the heartbeats only by that one.
\<close>

theorem world_wire:
  assumes "runs_from h ustr mem uid r options c w"
  shows "(\<forall>(a, ns) \<in> set (line_log (hist w)).
      hb_protocol user_type Heartbeat (types_of ns) \<and> taken_well (butlast ns) \<and> list_all (note_ok a) ns) \<and>
    (\<forall>m. pc_sender (sdr w) = Some m \<longrightarrow> (\<exists>ns ls. line_log (hist w) = (ms_conn m, ns) # ls)) \<and>
    filter of_user (took (line_log (hist w))) = sent (hist w) @ filter of_user (landed (sdr w)) \<and>
    count (client w) MsgsSent + length (landed (sdr w)) = count c MsgsSent + length (took (line_log (hist w)))"
proof -
  from runs_from_wire [OF assms] have lines: "list_all (\<lambda>(a, ns). line_ok a ns) (line_log (hist w))"
    and on: "on_line (sdr w) (line_log (hist w))" and counted: "counted_right (hist w) (sdr w)"
    by (simp_all add: wire_inv_def)
  from runs_from_inv [OF assms] have "count (client w) MsgsSent =
      count c MsgsSent + length (sent (hist w)) + beats (hist w)"
    by (simp add: world_inv_def counters_right_def)
  moreover have "length (took (line_log (hist w))) = length (sent (hist w)) + beats (hist w) + length (landed (sdr w))"
    using counted sum_length_filter_compl [of of_user "took (line_log (hist w))"]
      sum_length_filter_compl [of of_user "landed (sdr w)"]
    by (simp add: counted_right_def)
  ultimately show ?thesis
    using lines on counted by (auto simp: line_ok_def list_all_iff on_line_def counted_right_def)
qed

text \<open>A client over TCP that has written one message.\<close>

definition sample_tcp :: audit_conn where
  "sample_tcp = TCPConn \<lparr>wr_conn = 3\<rparr>"

lemma sample_wrote:
  "\<exists>w n. runs_from sample_host (\<lambda>u. ''id'') sample_mem 1 (Inr (Some sample_tcp)) [] sample_born w \<and>
     line_log (hist w) = [(sample_tcp, [n])] \<and> wn_msg n = sample_msg \<and> wn_net n = ne \<and>
     wn_result n = fst (conn_Write ne (wn_mem n) sample_tcp sample_msg)"
proof -
  let ?m = "fresh_sender sample_host sample_born sample_tcp"
  let ?runs = "runs_from sample_host (\<lambda>u. ''id'') sample_mem 1 (Inr (Some sample_tcp)) [] sample_born"
  let ?w0 = "started sample_host sample_born (ManageTask ?m)"
  have run0: "?runs ?w0"
    using reach_start by (auto simp: runs_from_def sample_New_conn)
  have "mgr ?w0 = Launching ?m" "launched ?m (Selecting ?m)" by (simp_all add: started_def launched_def)
  from runs_from_step [OF run0 step.launch [OF this]] obtain w1 :: world where
    w1: "?runs w1" "client w1 = sample_born" "sdr w1 = Selecting ?m" "line_log (hist w1) = [(sample_tcp, [])]"
    by (fastforce simp: started_def new_line_def no_history_def)
  have "record_ok (memory (client w1)) (msg_Record sample_msg)"
    using sample_ok by (simp add: w1(2) sample_born_def sample_initial_def initial_client_def)
  from send_path [OF this] sample_accepts w1(2)
  have "(step sample_host)\<^sup>*\<^sup>* w1 (w1\<lparr>client := sample_born\<lparr>sendCh := Some ((make_chan 2048)\<lparr>buf := [sample_msg]\<rparr>)\<rparr>,
      hist := note_put None (stamped sample_born sample_msg) (hist w1)\<rparr>)" by simp
  from runs_from_steps [OF this w1(1)] w1(3,4) obtain w1' :: world where
    w1': "?runs w1'" "sendCh (client w1') = Some ((make_chan 2048)\<lparr>buf := [sample_msg]\<rparr>)" "sdr w1' = Selecting ?m"
      "line_log (hist w1') = [(sample_tcp, [])]" by (fastforce simp: note_put_def)
  let ?ch = "(make_chan 2048)\<lparr>buf := [sample_msg]\<rparr>"
  have "TryGet ?ch = (Some sample_msg, ?ch\<lparr>buf := []\<rparr>)" by (simp add: TryGet_def)
  from runs_from_step [OF w1'(1) step_take_msg [OF w1'(3,2) this]] w1'(4) obtain w2 :: world where
    w2: "?runs w2" "sdr w2 = Holding ?m sample_msg" "line_log (hist w2) = [(sample_tcp, [])]" by fastforce
  obtain r mem' os where io: "conn_Write ne (memory (client w2)) (ms_conn ?m) sample_msg = (r, mem', os)"
    using prod_cases3 by blast
  from runs_from_step [OF w2(1) step_write_msg [OF w2(2) io]] w2(3) io show ?thesis by (fastforce simp: noted_def)
qed

theorem world_wire_witness:
  "\<exists>w n. runs_from sample_host (\<lambda>u. ''id'') sample_mem 1 (Inr (Some sample_tcp)) [] sample_born w \<and>
     line_log (hist w) = [(sample_tcp, [n])] \<and> wn_msg n = sample_msg \<and> note_ok sample_tcp n \<and>
     length (landed (sdr w)) \<le> length (took (line_log (hist w)))"
proof -
  from sample_wrote obtain w n where
    w: "runs_from sample_host (\<lambda>u. ''id'') sample_mem 1 (Inr (Some sample_tcp)) [] sample_born w"
    "line_log (hist w) = [(sample_tcp, [n])]" "wn_msg n = sample_msg" by blast
  from world_wire [OF w(1)] w(2) runs_from_inv [OF w(1)]
  have "note_ok sample_tcp n" "length (landed (sdr w)) \<le> length (took (line_log (hist w)))"
    by (auto simp: world_inv_def counters_right_def)
  with w show ?thesis by blast
qed

end
