(* ===== verification/Liveness.thy ===== *)
theory Liveness
  imports WorldFacts
begin

text \<open>
  What the client does when its surroundings let it: on a working connection every write succeeds and is counted.
\<close>

section \<open>A working connection\<close>

text \<open>Every message can be encoded and every write of the network connection succeeds.\<close>

definition working :: "wenv \<Rightarrow> bool" where
  "working e \<longleftrightarrow> we_others e = [] \<and> (\<forall>w. \<exists>b. ne_enc (we_net e) w = Inr b) \<and>
     (\<forall>b. ne_write (we_net e) b = None)"

lemma marshalPrep_works:
  assumes "user_type (msg_Type msg) \<or> msg_Type msg = Heartbeat"
  shows "\<exists>p m'. marshalPrep t m msg = (Inr p, m')"
  using assms
  by (cases "sort_compact 0 (cats m) (OperationCategories (msg_Record msg))";
      cases "sort_compact [] (lvls m) (CallerAccessLevels (msg_Record msg))")
     (auto simp: marshalPrep_def user_type_def Let_def const_defs)

lemma conn_works:
  assumes "working e" and "user_type (msg_Type msg) \<or> msg_Type msg = Heartbeat"
  shows "fst (conn_Write (we_net e) m a msg) = None"
proof -
  from marshalPrep_works [OF assms(2)] obtain p m' where
    p: "marshalPrep (ne_unix (we_net e)) m msg = (Inr p, m')" by blast
  from assms(1) obtain b where "ne_enc (we_net e) (resolve m' p) = Inr b" by (auto simp: working_def)
  with p assms(1) show ?thesis
    by (auto simp: conn_Write_def writer_Write_def MarshalMsgpack_def Let_def working_def
        split: audit_conn.split)
qed

text \<open>One write, with nothing else going on.\<close>

lemma write_alone:
  assumes "client_ok c" and "writable c msg" and "we_others e = []"
    and "msgSender_write e a c msg = Done (r, c', os)"
  shows "client_ok c'" and "write_effect a c msg r c'"
proof -
  have others: "list_all (other_ok (memory c)) (we_others e)" using assms(3) by simp
  from write_done [OF assms(1,2) others, of a] assms(4) have w: "client_ok c'"
    "write_effect a (after_io e a c msg) msg r c'" by auto
  obtain m' where "after_io e a c msg = c\<lparr>memory := m'\<rparr>"
    using assms(3) by (simp add: after_io_def others_def)
  then have same: "queue (after_io e a c msg) = queue c" "has_room (after_io e a c msg) = has_room c"
    "metrics (after_io e a c msg) = metrics c"
    by (simp_all add: queue_def has_room_def)
  have "counted ks (after_io e a c msg) c' = counted ks c c'" for ks
    by (rule counted_cong) (simp_all add: same)
  with w(2) same show "write_effect a c msg r c'"
    by (auto simp: write_effect_def split: if_splits)
  show "client_ok c'" by (rule w)
qed

text \<open>It succeeds on a working connection, and is counted.\<close>

lemma write_works:
  assumes "client_ok c" and "writable c msg" and "working e"
  obtains c' os where "msgSender_write e a c msg = Done (None, c', os)" "client_ok c'"
    "queue c' = queue c" "\<And>k. count c' k = count c k + (if k = success_counter a msg then 1 else 0)"
    "conn_Write (we_net e) (memory c) a msg = (None, memory c', os)"
proof -
  from assms(3) have o: "we_others e = []" by (simp add: working_def)
  then have others: "list_all (other_ok (memory c)) (we_others e)" by simp
  from write_done [OF assms(1,2) others, of a] obtain r c' os where
    w: "msgSender_write e a c msg = Done (r, c', os)"
      "conn_Write (we_net e) (memory c) a msg = (r, memory c', os)" by blast
  from conn_works [OF assms(3), of msg "memory c" a] w(2) writable_cases [OF assms(2)]
  have r: "r = None" by auto
  note alone = write_alone [OF assms(1,2) o w(1)]
  from alone(2) r have eff: "queue c' = queue c" "counted [success_counter a msg] c c'"
    by (simp_all add: write_effect_def)
  show ?thesis
  proof (rule that [OF w(1) [unfolded r] alone(1) eff(1)])
    fix k
    show "count c' k = count c k + (if k = success_counter a msg then 1 else 0)"
      using eff(2) by (simp add: counted_def)
  qed (use w(2) r in simp)
qed

end
