(* ===== verification/WorldLive.thy ===== *)
theory WorldLive
  imports WorldEnd Liveness
begin

text \<open>
  No trap: as long as its manager has not given up, a client can always come back to a working sender and
  send everything that is queued, without any act of a user; and until then only the message in the hands of
  a sender can be lost.
\<close>

section \<open>What stays as New made it\<close>

fun ending :: "manager_pc \<Rightarrow> bool" where
  "ending (Dying err) \<longleftrightarrow> True"
| "ending (Announced err) \<longleftrightarrow> True"
| "ending (Stopping None) \<longleftrightarrow> True"
| "ending Gone \<longleftrightarrow> True"
| "ending q \<longleftrightarrow> False"

text \<open>
  The parts of a client that never change; no close runs in the background before the manager has given up,
  since only a connection that is refused for good is closed; and a supervised sender is there.
\<close>

definition steady :: "Client \<Rightarrow> Client \<Rightarrow> bool" where
  "steady c c' \<longleftrightarrow> goos c' = goos c \<and> maxClosers c' = maxClosers c \<and> (log c' = None \<longleftrightarrow> log c = None)"

definition live_inv :: "Client \<Rightarrow> world \<Rightarrow> bool" where
  "live_inv c0 w \<longleftrightarrow> steady c0 (client w) \<and> (\<not> ending (mgr w) \<longrightarrow> closers (client w) = []) \<and>
     (mgr w = Supervising \<longrightarrow> sdr w \<noteq> Absent)"

lemma frame_steady: "frame c c' \<Longrightarrow> steady c0 c \<Longrightarrow> steady c0 c'"
  by (auto simp: frame_def steady_def)

lemma frame_closers: "frame c c' \<Longrightarrow> closers c = [] \<Longrightarrow> closers c' = []"
  by (simp add: frame_def)

lemma live_frame:
  assumes "live_inv c0 w" and "frame (client w) (client w')" and "\<not> ending (mgr w') \<longrightarrow> \<not> ending (mgr w)"
    and "mgr w' = Supervising \<longrightarrow> sdr w' \<noteq> Absent"
  shows "live_inv c0 w'"
  using assms frame_steady [OF assms(2)] frame_closers [OF assms(2)] by (auto simp: live_inv_def)

lemma attempt_closers:
  assumes "client_ok c" and "quiet e" and "attempt h e n (bare c) = Done (r, s)"
  shows "steady c0 c \<Longrightarrow> steady c0 (cs_client s)"
    and "(\<And>err. r = Some err \<Longrightarrow> \<not> permanent err) \<Longrightarrow> closers (cs_client s) = closers c"
proof -
  from assms(2) have q: "re_noop e n = []" "re_others e n = []"
    by (auto simp: quiet_def)
  have "(steady c0 c \<longrightarrow> steady c0 (cs_client s)) \<and>
      ((\<forall>err. r = Some err \<longrightarrow> \<not> permanent err) \<longrightarrow> closers (cs_client s) = closers c)"
    using assms(3) q
    by (cases rule: created_cases [of "re_create e n" h c])
       (auto simp: attempt_def run_noop_def bare_def others_def Let_def createSender_eq [OF assms(1)]
         conn_failure_def steady_def closed_unused_def closeAuditConn_def not_linux_def split: if_splits)
  then show "steady c0 c \<Longrightarrow> steady c0 (cs_client s)"
    "(\<And>err. r = Some err \<Longrightarrow> \<not> permanent err) \<Longrightarrow> closers (cs_client s) = closers c" by auto
qed


lemma after_present: "after_message m r \<noteq> Absent" "after_beat m r \<noteq> Absent"
  by (auto simp: after_message_def after_beat_def split: option.split)

lemma step_live:
  assumes "step h w w'" and "world_inv c0 w" and "live_inv c0 w"
  shows "live_inv c0 w'"
proof -
  note ok = world_inv_simps(1) [OF assms(2)]
  from assms(3) have st: "steady c0 (client w)" by (simp add: live_inv_def)
  note frm = live_frame [OF assms(3)]
  have sup: "mgr w = Supervising \<Longrightarrow> sdr w \<noteq> Absent"
    using assms(3) by (auto simp: live_inv_def)
  show ?thesis
    using assms(1) world_inv_simps(6) [OF assms(2)]
  proof (cases rule: step_cases)
    case (send_load msg)
    then show ?thesis using sup by (intro frm) auto
  next
    case (send_check xs msg ys)
    then show ?thesis using sup by (intro frm) auto
  next
    case (send_put xs msg ys r c)
    then have "frame (client w) c" by (auto simp: Send_put_eq split: if_splits)
    with send_put(1) show ?thesis using sup by (intro frm) auto
  next
    case (other x)
    then show ?thesis using sup by (intro frm) (auto simp: frame_other)
  next
    case (take_msg m ch msg ch')
    then show ?thesis by (intro frm) auto
  next
    case (user_memory mem')
    then show ?thesis using sup by (intro frm) auto
  next
    case (write_msg m msg ne r mem' os)
    then show ?thesis by (intro frm) auto
  next
    case (finish_msg m msg r now c)
    then show ?thesis using frame_finish [OF finish_msg(3)] by (intro frm) (auto simp: after_present)
  next
    case (beat m ne r mem' os)
    then show ?thesis by (intro frm) auto
  next
    case (finish_beat m r now c)
    then show ?thesis using frame_finish [OF finish_beat(3)] by (intro frm) (auto simp: after_present)
  next
    case (deferred_start noop err c now p)
    then show ?thesis by (intro frm) auto
  next
    case (launch m p)
    then show ?thesis by (intro frm) (auto simp: launched_def)
  next
    case (sender_ended m err now)
    then show ?thesis by (intro frm) auto
  next
    case (attempt_failed e n err s)
    note a = attempt_closers [OF ok attempt_failed(3,4)]
    show ?thesis using a(1) [OF st] a(2) attempt_failed assms(3) by (auto simp: live_inv_def)
  next
    case (gave_up e n err s err')
    note a = attempt_closers(1) [OF ok gave_up(3,4) st]
    then show ?thesis using gave_up(1) by (simp add: live_inv_def)
  next
    case (reconnected e n s)
    note a = attempt_closers [OF ok reconnected(3,4)]
    show ?thesis using a(1) [OF st] a(2) reconnected assms(3) by (auto simp: live_inv_def)
  next
    case (announce err sched now c)
    from sendNotifyDead_result(3) [OF ok announce(3)] announce(1,2) show ?thesis by (intro frm) auto
  next
    case (mark_dead err)
    then show ?thesis using st by (simp add: live_inv_def steady_def)
  next
    case (stop_noop nxt m err)
    then show ?thesis by (intro frm) auto
  next
    case (take_over m c)
    then have "frame (client w) c" by (auto simp: handover_log_def)
    with take_over(1,2) show ?thesis by (intro frm) auto
  next
    case ended
    then show ?thesis by (intro frm) auto
  qed
qed

lemma internal_live: "(internal h)\<^sup>*\<^sup>* w w' \<Longrightarrow> world_inv c0 w \<Longrightarrow> live_inv c0 w \<Longrightarrow> live_inv c0 w'"
proof (induction rule: rtranclp_induct)
  case (step y z)
  then have "step h y z" by (simp add: internal_def)
  from step_live [OF this internal_inv [OF step.hyps(1)]] step show ?case by blast
qed

lemma started_live:
  assumes "closers c = []"
  shows "live_inv c (started h c t)"
  using assms by (cases t) (simp_all add: started_def live_inv_def steady_def)

lemma reachable_live:
  "reachable h c t w \<Longrightarrow> startable c t \<Longrightarrow> closers c = [] \<Longrightarrow> live_inv c w"
proof (induction rule: reachable.induct)
  case (reach_step w w')
  with step_live [OF reach_step.hyps(2) reachable_inv] show ?case by blast
qed (rule started_live)

lemma New_client:
  assumes "list_all std_option options" and "New h ustr once_err mem uid r options = Done (Inr c, Some t)"
  shows "closers c = []" and "maxClosers c = 1000"
  using New_result [OF assms] by (auto simp: ready_def)

lemma runs_from_live:
  assumes "runs_from h ustr mem uid r options c w"
  shows "live_inv c w" and "maxClosers (client w) = 1000"
proof -
  from assms obtain t where std: "list_all std_option options"
    and new: "New h ustr None mem uid r options = Done (Inr c, Some t)" and run: "reachable h c t w"
    by (auto simp: runs_from_def)
  note c = New_client [OF std new]
  from reachable_live [OF run New_startable [OF std new] c(1)] show i: "live_inv c w" .
  with c(2) show "maxClosers (client w) = 1000"
    by (simp_all add: live_inv_def steady_def)
qed

section \<open>Sending what is queued\<close>

text \<open>A network that takes everything.\<close>

definition good_net :: wenv where
  "good_net = \<lparr>we_net = \<lparr>ne_now = 0, ne_unix = 0, ne_enc = (\<lambda>x. Inr []), ne_write = (\<lambda>b. None)\<rparr>,
     we_others = [], we_now = 0\<rparr>"

lemma good_works: "working good_net"
  by (simp add: working_def good_net_def)

text \<open>One message, and one heartbeat.\<close>

lemma message_lands:
  assumes "world_inv c0 w" and "sdr w = Holding m msg" and "conn_Type (ms_conn m) \<noteq> TypeNoOP"
  shows "\<exists>w'. (internal h)\<^sup>*\<^sup>* w w' \<and> mgr w' = mgr w \<and> sdr w' = after_message m None \<and>
    queue (client w') = queue (client w) \<and> sent (hist w') = sent (hist w) @ [msg] \<and> dropped (hist w') = dropped (hist w)"
proof -
  have hand: "in_hand (sdr w) = [msg]" by (simp add: assms(2) in_hand_def)
  note msg = held_message [OF assms(1) hand]
  obtain r mem' os where io: "conn_Write (we_net good_net) (memory (client w)) (ms_conn m) msg = (r, mem', os)"
    using prod_cases3 by blast
  with conn_works [OF good_works, of msg "memory (client w)" "ms_conn m"] msg(2) have r: "r = None" by simp
  let ?w1 = "w\<lparr>client := (client w)\<lparr>memory := mem'\<rparr>, sdr := Written m msg None,
    hist := noted 0 (we_net good_net) (client w) msg None os (hist w)\<rparr>"
  from step_write_msg [OF assms(2) io, of h] r have s1: "step h w ?w1" by simp
  note inv1 = step_inv [OF s1 assms(1)]
  have hand1: "in_hand (sdr ?w1) = [msg]" by (simp add: in_hand_def)
  note msg1 = held_message(1) [OF inv1 hand1]
  obtain c where c: "finish_write 0 (ms_conn m) (client ?w1) msg None = Done c"
    using finish_done [OF world_inv_simps(1) [OF inv1] msg1, of 0 "ms_conn m" None] by blast
  let ?w2 = "?w1\<lparr>client := c, sdr := after_message m None,
    hist := note_message m (client ?w1) msg None (hist ?w1)\<rparr>"
  have "sdr ?w1 = Written m msg None" by simp
  from step_finish_msg [OF this c, of h] have s2: "step h ?w1 ?w2" .
  have "queue c = queue (client w)"
    using finish_facts(2) [OF world_inv_simps(1) [OF inv1] msg1 c] by (simp add: write_effect_def queue_def)
  moreover from s1 s2 have "internal h w ?w1" "internal h ?w1 ?w2"
    by (simp_all add: internal_def note_message_def noted_def)
  then have "(internal h)\<^sup>*\<^sup>* w ?w2" by (meson converse_rtranclp_into_rtranclp r_into_rtranclp)
  ultimately show ?thesis
    by (intro exI [of _ ?w2]) (simp add: note_message_def noted_def assms(3))
qed

lemma beat_lands:
  assumes "world_inv c0 w" and "sdr w = Beating m"
  shows "\<exists>w'. (internal h)\<^sup>*\<^sup>* w w' \<and> mgr w' = mgr w \<and> sdr w' = Selecting (m\<lparr>ms_ticker := Ticking\<rparr>) \<and>
    queue (client w') = queue (client w) \<and> sent (hist w') = sent (hist w) \<and> dropped (hist w') = dropped (hist w)"
proof -
  have p: "pc_sender (sdr w) = Some m" by (simp add: assms(2))
  note hb = held_heartbeat [OF assms(1) p]
  obtain r mem' os where io: "conn_Write (we_net good_net) (memory (client w)) (ms_conn m) (ms_heartbeat m) = (r, mem', os)"
    using prod_cases3 by blast
  from hb(1) have "msg_Type (ms_heartbeat m) = Heartbeat" by (simp add: sender_ok_def)
  with io conn_works [OF good_works, of "ms_heartbeat m" "memory (client w)" "ms_conn m"] have r: "r = None" by simp
  let ?w1 = "w\<lparr>client := (client w)\<lparr>memory := mem'\<rparr>, sdr := BeatWritten m None,
    hist := noted 0 (we_net good_net) (client w) (ms_heartbeat m) None os (hist w)\<rparr>"
  from step_beat [OF _ io, of h] assms(2) r have s1: "step h w ?w1" by simp
  note inv1 = step_inv [OF s1 assms(1)]
  have "pc_sender (sdr ?w1) = Some m" by simp
  note hb1 = held_heartbeat(2) [OF inv1 this]
  obtain c where c: "finish_write 0 (ms_conn m) (client ?w1) (ms_heartbeat m) None = Done c"
    using finish_done [OF world_inv_simps(1) [OF inv1] hb1, of 0 "ms_conn m" None] by blast
  let ?w2 = "?w1\<lparr>client := c, sdr := after_beat m None, hist := note_beat m None (hist ?w1)\<rparr>"
  have "sdr ?w1 = BeatWritten m None" by simp
  from step_finish_beat [OF this c, of h] have s2: "step h ?w1 ?w2" .
  have "queue c = queue (client w)"
    using finish_facts(2) [OF world_inv_simps(1) [OF inv1] hb1 c] by (simp add: write_effect_def queue_def)
  moreover from s1 s2 have "internal h w ?w1" "internal h ?w1 ?w2"
    by (simp_all add: internal_def note_beat_def noted_def)
  then have "(internal h)\<^sup>*\<^sup>* w ?w2" by (meson converse_rtranclp_into_rtranclp r_into_rtranclp)
  ultimately show ?thesis
    by (intro exI [of _ ?w2]) (simp add: note_beat_def noted_def after_beat_def)
qed


lemma delivers_one:
  assumes "world_inv c0 w" and "sdr w = Selecting m" and "conn_Type (ms_conn m) \<noteq> TypeNoOP"
    and "queue (client w) = msg # q"
  shows "\<exists>w' m'. (internal h)\<^sup>*\<^sup>* w w' \<and> mgr w' = mgr w \<and> sdr w' = Selecting m' \<and> ms_conn m' = ms_conn m \<and>
    queue (client w') = q \<and> sent (hist w') = sent (hist w) @ [msg] \<and> dropped (hist w') = dropped (hist w)"
proof -
  from assms(4) obtain ch where ch: "sendCh (client w) = Some ch" "buf ch = msg # q"
    by (auto simp: queue_def split: option.splits)
  then have get: "TryGet ch = (Some msg, ch\<lparr>buf := q\<rparr>)" by (simp add: TryGet_def)
  let ?w1 = "w\<lparr>client := (client w)\<lparr>sendCh := Some (ch\<lparr>buf := q\<rparr>)\<rparr>, sdr := Holding m msg,
    hist := (hist w)\<lparr>taken := taken (hist w) @ [msg]\<rparr>\<rparr>"
  from step_take_msg [OF assms(2) ch(1) get, of h] have s1: "internal h w ?w1" by (simp add: internal_def)
  then have inv1: "world_inv c0 ?w1" using step_inv assms(1) by (auto simp: internal_def)
  have "sdr ?w1 = Holding m msg" by simp
  from message_lands [OF inv1 this assms(3), of h] obtain w2 where
    w2: "(internal h)\<^sup>*\<^sup>* ?w1 w2" "mgr w2 = mgr w" "sdr w2 = after_message m None" "queue (client w2) = q"
      "sent (hist w2) = sent (hist w) @ [msg]" "dropped (hist w2) = dropped (hist w)"
    by (auto simp: queue_def)
  from s1 w2(1) have path: "(internal h)\<^sup>*\<^sup>* w w2" by (rule converse_rtranclp_into_rtranclp)
  show ?thesis
  proof (cases "ms_ticker m = NilTicker")
    case True
    with w2(3) have "sdr w2 = Beating m" by (simp add: after_message_def)
    from beat_lands [OF internal_inv [OF w2(1) inv1] this, of h] obtain w3 where
      w3: "(internal h)\<^sup>*\<^sup>* w2 w3" "mgr w3 = mgr w2" "sdr w3 = Selecting (m\<lparr>ms_ticker := Ticking\<rparr>)"
        "queue (client w3) = queue (client w2)" "sent (hist w3) = sent (hist w2)" "dropped (hist w3) = dropped (hist w2)"
      by blast
    with w2 rtranclp_trans [OF path w3(1)] show ?thesis
      by (intro exI [of _ w3] exI [of _ "m\<lparr>ms_ticker := Ticking\<rparr>"]) simp
  next
    case False
    with w2 path show ?thesis by (intro exI [of _ w2] exI [of _ m]) (simp add: after_message_def)
  qed
qed

lemma delivers_all:
  assumes "world_inv c0 w" and "sdr w = Selecting m" and "conn_Type (ms_conn m) \<noteq> TypeNoOP"
  shows "\<exists>w' m'. (internal h)\<^sup>*\<^sup>* w w' \<and> mgr w' = mgr w \<and> sdr w' = Selecting m' \<and> ms_conn m' = ms_conn m \<and>
    queue (client w') = [] \<and> sent (hist w') = sent (hist w) @ queue (client w) \<and> dropped (hist w') = dropped (hist w)"
  using assms
proof (induction "queue (client w)" arbitrary: w m)
  case Nil
  then show ?case by (intro exI [of _ w] exI [of _ m]) simp
next
  case (Cons msg q)
  from delivers_one [OF Cons.prems Cons.hyps(2) [symmetric], of h] obtain w1 m1 where
    w1: "(internal h)\<^sup>*\<^sup>* w w1" "mgr w1 = mgr w" "sdr w1 = Selecting m1" "ms_conn m1 = ms_conn m"
      "queue (client w1) = q" "sent (hist w1) = sent (hist w) @ [msg]" "dropped (hist w1) = dropped (hist w)"
    by blast
  have "conn_Type (ms_conn m1) \<noteq> TypeNoOP" using w1(4) Cons.prems(3) by simp
  from Cons.hyps(1) [OF w1(5) [symmetric] internal_inv [OF w1(1) Cons.prems(1)] w1(3) this] obtain w2 m2 where
    "(internal h)\<^sup>*\<^sup>* w1 w2" "mgr w2 = mgr w1" "sdr w2 = Selecting m2" "ms_conn m2 = ms_conn m1"
      "queue (client w2) = []" "sent (hist w2) = sent (hist w1) @ q" "dropped (hist w2) = dropped (hist w1)"
    using w1(5) by auto
  with w1 Cons.hyps(2) [symmetric] show ?case
    by (intro exI [of _ w2] exI [of _ m2]) (auto intro: rtranclp_trans)
qed

section \<open>Coming back\<close>

text \<open>An attempt of the reconnect that gets a connection the host may use.\<close>

definition offering :: "audit_conn \<Rightarrow> reconnect_env" where
  "offering a = \<lparr>re_noop = (\<lambda>n. []), re_others = (\<lambda>n. []), re_create = (\<lambda>n. Inr (Some a)),
     re_now = (\<lambda>n. 0), re_sched = [], re_dead_now = 0\<rparr>"

lemma offering_attempt:
  assumes "client_ok c" and "closers c = []" and "0 \<le> maxClosers c" and "usable h c a"
  shows "\<exists>s. attempt h (offering a) 0 (bare c) = Done (None, s) \<and> cs_client s = c \<and>
    cs_sender s = Some (fresh_sender h c a)"
  using assms
  by (simp add: attempt_def offering_def run_noop_def bare_def others_def Let_def createSender_eq
      conn_failure_def closers_Running_def)

text \<open>From the reconnect, by way of the hand-over.\<close>

lemma comes_back:
  assumes "world_inv c0 w" and "live_inv c0 w" and "0 \<le> maxClosers c0" and "usable h c0 a"
    and "mgr w = Reconnecting"
  shows "\<exists>w' m. (internal h)\<^sup>*\<^sup>* w w' \<and> mgr w' = Supervising \<and> sdr w' = Selecting m \<and> ms_conn m = a \<and> holds_back w w'"
proof -
  from assms(2-5) have "closers (client w) = []" "0 \<le> maxClosers (client w)" "usable h (client w) a"
    by (simp_all add: live_inv_def steady_def usable_def)
  from offering_attempt [OF world_inv_simps(1) [OF assms(1)] this] obtain s where
    s: "attempt h (offering a) 0 (bare (client w)) = Done (None, s)" "cs_client s = client w"
      "cs_sender s = Some (fresh_sender h (client w) a)" by blast
  have "quiet (offering a)" by (simp add: quiet_def offering_def)
  let ?w1 = "w\<lparr>client := cs_client s, mgr := Stopping (cs_sender s)\<rparr>"
  from step.reconnected [OF assms(5) \<open>quiet (offering a)\<close> s(1)] have s1: "internal h w ?w1"
    by (simp add: internal_def)
  then have inv1: "world_inv c0 ?w1" using step_inv assms(1) by (auto simp: internal_def)
  have "mgr ?w1 = Stopping (Some (fresh_sender h (client w) a))" by (simp add: s(3))
  from hand_over_completes [OF inv1 this, of h] obtain w2 where
    w2: "(internal h)\<^sup>*\<^sup>* ?w1 w2" "mgr w2 = Supervising" "holds_back ?w1 w2"
      "sdr w2 = Selecting (fresh_sender h (client w) a)" by blast
  have "holds_back w ?w1" by (rule holds_back_same) (simp_all add: s(2))
  with w2 s1 holds_back_trans show ?thesis
    by (intro exI [of _ w2]) (auto intro: converse_rtranclp_into_rtranclp)
qed

text \<open>
  The sender the client works with or is about to: the one the manager supervises, starts, or has for the hand-over.
\<close>

definition chosen :: "world \<Rightarrow> msgSender option" where
  "chosen w = (case mgr w of Supervising \<Rightarrow> pc_sender (sdr w) | Launching m \<Rightarrow> Some m
     | Stopping s \<Rightarrow> s | _ \<Rightarrow> None)"

definition at_work :: "world \<Rightarrow> bool" where
  "at_work w \<longleftrightarrow> mgr w = Supervising \<and> (\<exists>m. sdr w = Selecting m \<and> conn_Type (ms_conn m) \<noteq> TypeNoOP)"

lemma reconnects_to_work:
  assumes "world_inv c0 w" and "live_inv c0 w" and "0 \<le> maxClosers c0" and "usable h c0 a"
    and "conn_Type a \<noteq> TypeNoOP" and "mgr w = Reconnecting"
  shows "\<exists>w'. (internal h)\<^sup>*\<^sup>* w w' \<and> at_work w' \<and> holds_back w w'"
  using comes_back [OF assms(1-4,6)] assms(5) by (auto simp: at_work_def)

lemma supervised_to_work:
  assumes "world_inv c0 w" and "live_inv c0 w" and "0 \<le> maxClosers c0" and "usable h c0 a"
    and "conn_Type a \<noteq> TypeNoOP" and "mgr w = Supervising"
    and "\<forall>m. pc_sender (sdr w) = Some m \<longrightarrow> conn_Type (ms_conn m) \<noteq> TypeNoOP"
  shows "\<exists>w'. (internal h)\<^sup>*\<^sup>* w w' \<and> at_work w' \<and> holds_back w w'"
proof -
  from sender_settles [OF assms(1), of h] obtain w1 where
    w1: "(internal h)\<^sup>*\<^sup>* w w1" "mgr w1 = Supervising" "holds_back w w1" "conn_in_use w1 = conn_in_use w"
      "settled (sdr w1)" using assms(6) by auto
  have inv1: "world_inv c0 w1" by (rule internal_inv [OF w1(1) assms(1)])
  note live1 = internal_live [OF w1(1) assms(1,2)]
  from w1(2) live1 have "sdr w1 \<noteq> Absent" by (simp add: live_inv_def)
  with w1(5) consider (ready) m where "sdr w1 = Selecting m" | (broken) m err where "sdr w1 = Broken m err"
    by (auto simp: settled_def split: sender_pc.splits)
  then show ?thesis
  proof cases
    case ready
    with w1(4) assms(7) have "conn_Type (ms_conn m) \<noteq> TypeNoOP"
      by (cases "pc_sender (sdr w)") (auto simp: conn_in_use_def)
    with ready w1 show ?thesis by (auto simp: at_work_def)
  next
    case broken
    let ?w2 = "w1\<lparr>client := sendNotify 0 (client w1) (Some (errorf ''audit.Client connection error: %w'' [err])),
      sdr := Absent, mgr := Reconnecting\<rparr>"
    from step.sender_ended [OF w1(2) broken, of h 0] have s: "step h w1 ?w2" .
    then have i: "internal h w1 ?w2" by (simp add: internal_def)
    note inv2 = step_inv [OF s inv1] and live2 = step_live [OF s inv1 live1]
    have kept_back: "holds_back w1 ?w2"
      using undisturbed_sendNotify [OF world_inv_simps(1) [OF inv1]] broken
      by (intro holds_back_same) (simp_all add: undisturbed_def in_hand_def)
    from reconnects_to_work [OF inv2 live2 assms(3-5)] obtain w3 where
      "(internal h)\<^sup>*\<^sup>* ?w2 w3" "at_work w3" "holds_back ?w2 w3" by auto
    with i w1(1,3) kept_back show ?thesis
      by (intro exI [of _ w3])
         (meson converse_rtranclp_into_rtranclp rtranclp_trans holds_back_trans)
  qed
qed


lemma handed_over_to_work:
  assumes "world_inv c0 w" and "mgr w = Stopping (Some m) \<or> mgr w = Launching m"
    and "conn_Type (ms_conn m) \<noteq> TypeNoOP"
  shows "\<exists>w'. (internal h)\<^sup>*\<^sup>* w w' \<and> at_work w' \<and> holds_back w w'"
  using assms(2)
proof
  assume "mgr w = Stopping (Some m)"
  from hand_over_completes [OF assms(1) this, of h] assms(3) show ?thesis unfolding at_work_def by metis
next
  assume "mgr w = Launching m"
  from launch_completes [OF assms(1) this, of h] assms(3) show ?thesis unfolding at_work_def by metis
qed

lemma deferred_to_work:
  assumes "world_inv c0 w" and "live_inv c0 w" and "0 \<le> maxClosers c0" and "usable h c0 a"
    and "conn_Type a \<noteq> TypeNoOP" and "mgr w = Deferring noop err" and "log c0 \<noteq> None"
  shows "\<exists>w'. (internal h)\<^sup>*\<^sup>* w w' \<and> at_work w' \<and> holds_back w w'"
proof -
  from assms(6) world_inv_simps(7) [OF assms(1)] have sdr: "sdr w = Absent" by simp
  let ?c = "sendNotify 0 (client w)
    (Some (errorf ''audit.Client initial connection failed, deferring connection: %w'' [err]))"
  let ?l = "(''audit.Client initial connection failed, starting deferred connection'', Some err)"
  let ?w1 = "w\<lparr>client := log_add ?l ?c, sdr := Selecting noop, mgr := Reconnecting, old := sdr w # old w,
    hist := new_line noop (hist w)\<rparr>"
  from assms(2,7) have "log ?c \<noteq> None" by (simp add: live_inv_def steady_def)
  moreover have "launched noop (Selecting noop)" by (simp add: launched_def)
  ultimately have s: "step h w ?w1" by (rule step.deferred_start [OF assms(6) refl])
  then have i: "internal h w ?w1" by (simp add: internal_def new_line_def)
  note inv1 = step_inv [OF s assms(1)] and live1 = step_live [OF s assms(1,2)]
  have kept_back: "holds_back w ?w1"
    using undisturbed_defer(1) [OF world_inv_simps(1) [OF assms(1)]] sdr
    by (intro holds_back_same) (simp_all add: undisturbed_def in_hand_def new_line_def)
  from reconnects_to_work [OF inv1 live1 assms(3-5)] obtain w2 where
    "(internal h)\<^sup>*\<^sup>* ?w1 w2" "at_work w2" "holds_back ?w1 w2" by auto
  with i kept_back show ?thesis
    by (intro exI [of _ w2]) (meson converse_rtranclp_into_rtranclp holds_back_trans)
qed

lemma gets_to_work:
  assumes "world_inv c0 w" and "live_inv c0 w" and "0 \<le> maxClosers c0" and "usable h c0 a"
    and "conn_Type a \<noteq> TypeNoOP" and "\<not> ending (mgr w)"
    and "\<forall>m. chosen w = Some m \<longrightarrow> conn_Type (ms_conn m) \<noteq> TypeNoOP"
    and "\<forall>m err. mgr w = Deferring m err \<longrightarrow> log c0 \<noteq> None"
  shows "\<exists>w'. (internal h)\<^sup>*\<^sup>* w w' \<and> at_work w' \<and> holds_back w w'"
proof (cases "mgr w")
  case (Deferring m err)
  with assms(8) show ?thesis using deferred_to_work [OF assms(1-5)] by blast
next
  case (Launching m)
  with assms(7) show ?thesis by (intro handed_over_to_work [OF assms(1)]) (simp_all add: chosen_def)
next
  case Supervising
  with assms(7) show ?thesis by (intro supervised_to_work [OF assms(1-5)]) (simp_all add: chosen_def)
next
  case Reconnecting
  then show ?thesis by (rule reconnects_to_work [OF assms(1-5)])
next
  case (Stopping s)
  with assms(6) obtain m where m: "s = Some m" by (cases s) auto
  with Stopping assms(7) show ?thesis by (intro handed_over_to_work [OF assms(1)]) (simp_all add: chosen_def)
qed (use assms(6) in simp_all)

text \<open>
  C7. No trap: in every reachable state in which the manager has not given up, no close runs in the background; and where
  the host lets the client use some real connection, the sender in use, being started or taking over (if there is one) is not a
  no-op one, and a deferred start has a logger, the client can go on, without any act
  of a user, to a sender on a real connection that waits at an empty queue. All messages that were queued have
  then been sent, in their order, and only a message that was in the hands of a sender may have been
  dropped instead.
\<close>

theorem world_recovers:
  assumes "runs_from h ustr mem uid r options c w" and "\<not> ending (mgr w)"
    and "usable h c a" and "conn_Type a \<noteq> TypeNoOP"
    and "\<forall>m. chosen w = Some m \<longrightarrow> conn_Type (ms_conn m) \<noteq> TypeNoOP"
    and "\<forall>m err. mgr w = Deferring m err \<longrightarrow> log c \<noteq> None"
  shows "closers (client w) = [] \<and>
    (\<exists>w' m ys zs ds. (internal h)\<^sup>*\<^sup>* w w' \<and> mgr w' = Supervising \<and> sdr w' = Selecting m \<and>
       conn_Type (ms_conn m) \<noteq> TypeNoOP \<and> queue (client w') = [] \<and>
       sent (hist w') = sent (hist w) @ ys @ queue (client w) @ zs \<and>
       dropped (hist w') = dropped (hist w) @ ds \<and>
       mset (in_hand (sdr w)) = mset ys + mset zs + mset ds)"
proof -
  from runs_from_inv [OF assms(1)] have inv: "world_inv c w" by blast
  note live = runs_from_live [OF assms(1)]
  then have max: "0 \<le> maxClosers c" by (simp add: live_inv_def steady_def)
  from live(1) assms(2) have closers: "closers (client w) = []" by (simp add: live_inv_def)
  from gets_to_work [OF inv live(1) max assms(3,4,2,5,6)] obtain w1 where
    w1: "(internal h)\<^sup>*\<^sup>* w w1" "at_work w1" "holds_back w w1" by blast
  from w1(2) obtain m where m: "mgr w1 = Supervising" "sdr w1 = Selecting m" "conn_Type (ms_conn m) \<noteq> TypeNoOP"
    by (auto simp: at_work_def)
  from w1(3) m(2) obtain ys zs ds where kept_back: "sent (hist w1) = sent (hist w) @ ys"
    "queue (client w1) = queue (client w) @ zs" "dropped (hist w1) = dropped (hist w) @ ds"
    "mset (in_hand (sdr w)) = mset ys + mset zs + mset ds" by (auto simp: holds_back_def in_hand_def)
  from delivers_all [OF internal_inv [OF w1(1) inv] m(2,3), of h] obtain w2 m2 where
    w2: "(internal h)\<^sup>*\<^sup>* w1 w2" "mgr w2 = mgr w1" "sdr w2 = Selecting m2" "ms_conn m2 = ms_conn m"
      "queue (client w2) = []" "sent (hist w2) = sent (hist w1) @ queue (client w1)"
      "dropped (hist w2) = dropped (hist w1)" by blast
  show ?thesis
    using closers kept_back m w2 rtranclp_trans [OF w1(1) w2(1)]
    by (intro conjI exI [of _ w2] exI [of _ m2] exI [of _ ys] exI [of _ zs] exI [of _ ds]) simp_all
qed

text \<open>A deferred client that has accepted a message before it ever had a connection.\<close>

theorem world_recovers_witness:
  "\<exists>c w w'. runs_from sample_host (\<lambda>u. ''id'') sample_mem 1 (Inl ErrQueueFull) [WithDeferredConnection] c w \<and>
     queue (client w) = [sample_msg] \<and> (internal sample_host)\<^sup>*\<^sup>* w w' \<and> sent (hist w') = [sample_msg]"
proof -
  let ?c = sample_deferring and ?runs = "runs_from sample_host (\<lambda>u. ''id'') sample_mem 1 (Inl ErrQueueFull)
    [WithDeferredConnection] sample_deferring"
  obtain noop err where new: "New sample_host (\<lambda>u. ''id'') None sample_mem 1 (Inl ErrQueueFull) [WithDeferredConnection] =
      Done (Inr ?c, Some (DeferredTask noop err))"
    using sample_New_deferred by blast
  let ?w0 = "started sample_host ?c (DeferredTask noop err)"
  have run0: "?runs ?w0" using new reach_start by (auto simp: runs_from_def std_option_def)
  have "record_ok (memory (client ?w0)) (msg_Record sample_msg)" using sample_ok by (simp add: started_def)
  note rok = this
  have "stamped ?c sample_msg = sample_msg"
    by (simp add: stamped_def sample_deferring_def sample_initial_def initial_client_def sample_msg_def sample_record_def)
  then have "Send_client ?c sample_msg = (None, ?c\<lparr>sendCh := Some ((make_chan 2048)\<lparr>buf := [sample_msg]\<rparr>)\<rparr>)"
    using sample_Validate
    by (simp add: Send_client_eq user_types queue_def has_room_def)
       (simp add: sample_deferring_def sample_initial_def initial_client_def queue_def has_room_def)
  then have "Send_client (client ?w0) sample_msg = (None, ?c\<lparr>sendCh := Some ((make_chan 2048)\<lparr>buf := [sample_msg]\<rparr>)\<rparr>)"
    by (simp add: started_def)
  from runs_from_steps [OF send_path [OF rok this] run0] obtain w :: world where run: "?runs w"
    and w: "mgr w = Deferring noop err" "sdr w = Absent" "queue (client w) = [sample_msg]" "sent (hist w) = []"
    by (fastforce simp: started_def no_history_def note_put_def queue_def)
  have "usable sample_host ?c (TestHangConn True)"
    by (simp add: usable_def sample_deferring_def sample_initial_def initial_client_def sample_host_def)
  moreover have "conn_Type (TestHangConn True) \<noteq> TypeNoOP" by (simp add: conn_Type_def const_defs)
  ultimately obtain w' ys zs ds where "(internal sample_host)\<^sup>*\<^sup>* w w'" "sent (hist w') = ys @ [sample_msg] @ zs"
    "mset (in_hand (sdr w)) = mset ys + mset zs + mset ds"
    using world_recovers [OF run, of "TestHangConn True"] w by (auto simp: chosen_def)
  with run w show ?thesis by (intro exI [of _ ?c] exI [of _ w] exI [of _ w']) (auto simp: in_hand_def)
qed

section \<open>Where the program can panic\<close>

text \<open>The result of any write can be dealt with: no sender, current or earlier, panics.\<close>

lemma sender_never_panics:
  assumes "world_inv c0 w" and "p = sdr w \<or> p \<in> set (old w)"
    and "p = Written m msg r \<or> p = BeatWritten m r \<and> msg = ms_heartbeat m"
  shows "finish_write now (ms_conn m) (client w) msg r \<noteq> Panics"
proof -
  from world_inv_simps(6) [OF assms(1)] assms(2,3) have p: "sdr w = p" by auto
  from assms(3) have "writable (client w) msg"
  proof
    assume "p = Written m msg r"
    then have "in_hand (sdr w) = [msg]" by (simp add: p in_hand_def)
    then show ?thesis by (rule held_message(1) [OF assms(1)])
  next
    assume beat: "p = BeatWritten m r \<and> msg = ms_heartbeat m"
    then have "pc_sender (sdr w) = Some m" by (simp add: p)
    from held_heartbeat(2) [OF assms(1) this] beat show ?thesis by simp
  qed
  then obtain c where "finish_write now (ms_conn m) (client w) msg r = Done c"
    using finish_done [OF world_inv_simps(1) [OF assms(1)]] by metis
  then show ?thesis by simp
qed

text \<open>A nil connection makes an attempt panic, unless the guard of closes running keeps it from connecting.\<close>

definition handing_nil :: reconnect_env where
  "handing_nil = \<lparr>re_noop = (\<lambda>n. []), re_others = (\<lambda>n. []), re_create = (\<lambda>n. Inr None),
     re_now = (\<lambda>n. 0), re_sched = [], re_dead_now = 0\<rparr>"

lemma nil_attempt:
  assumes "client_ok c" and "closers c = []" and "0 \<le> maxClosers c"
  shows "attempt h handing_nil 0 (bare c) = Panics" and "quiet handing_nil"
  using assms
  by (simp_all add: attempt_def handing_nil_def quiet_def run_noop_def bare_def others_def Let_def createSender_eq
      closers_Running_def)

text \<open>
  C17. Every panic of a running client: in a reachable state the program can panic next in exactly two ways, a deferred start
  that has yet to log and has no logger, and a reconnect, in which the caller's \<open>CreateConn\<close> may return a nil connection. Senders,
  users and background closes never panic, under any interleaving.
\<close>

theorem world_panics:
  assumes "runs_from h ustr mem uid r options c w"
  shows "crashes h w \<longleftrightarrow> (\<exists>noop err. mgr w = Deferring noop err) \<and> log c = None \<or> mgr w = Reconnecting"
proof -
  from runs_from_inv [OF assms] have inv: "world_inv c w" by blast
  note live = runs_from_live [OF assms]
  from live(1) have logger: "log (client w) = None \<longleftrightarrow> log c = None" by (simp add: live_inv_def steady_def)
  show ?thesis
  proof
    assume "crashes h w"
    then show "(\<exists>noop err. mgr w = Deferring noop err) \<and> log c = None \<or> mgr w = Reconnecting"
      by cases (use logger sender_never_panics [OF inv] in auto)
  next
    assume "(\<exists>noop err. mgr w = Deferring noop err) \<and> log c = None \<or> mgr w = Reconnecting"
    then show "crashes h w"
    proof
      assume "(\<exists>noop err. mgr w = Deferring noop err) \<and> log c = None"
      with logger show ?thesis by (auto intro: crashes.nil_logger)
    next
      assume rec: "mgr w = Reconnecting"
      with live have "closers (client w) = []" "0 \<le> maxClosers (client w)" by (simp_all add: live_inv_def)
      note nil = nil_attempt [OF world_inv_simps(1) [OF inv] this]
      show ?thesis by (rule crashes.nil_connection [OF rec nil(2,1)])
    qed
  qed
qed

theorem world_panics_witness:
  "\<not> crashes sample_host sample_sent"
  using world_panics [OF sample_runs] by (simp add: sample_sent_def sample_start_def started_def)

end
