(* ===== verification/Server.thy ===== *)
theory Server
  imports ConnFacts
begin

text \<open>
  \<open>internal/server\<close>: the audit server the end-to-end tests run. It accepts connections, reads
  wrapped messages from each and passes their records on through a channel of capacity 1. What
  \<open>net.Listen\<close>, \<open>Accept\<close>, the MessagePack stream decoder and the two JSON functions answer are
  arguments; so is how many records the reader of the channel takes before each send.
\<close>

section \<open>Unwrapping a message\<close>

text \<open>
  A value of type \<open>any\<close>, by the dynamic types the code distinguishes; and the run-time panics of an index out
  of range and of a type assertion that fails.
\<close>

datatype dynamic =
    AnyNil
  | AnyInt int
  | AnyString string
  | AnySlice "dynamic list"
  | AnyMap "(string \<times> dynamic) list"

definition any_at :: "dynamic list \<Rightarrow> nat \<Rightarrow> dynamic outcome" where
  "any_at xs i = (if i < length xs then Done (xs ! i) else Panics)"

definition as_slice :: "dynamic \<Rightarrow> dynamic list outcome" where
  "as_slice v = (case v of AnySlice xs \<Rightarrow> Done xs | _ \<Rightarrow> Panics)"

definition as_map :: "dynamic \<Rightarrow> (string \<times> dynamic) list outcome" where
  "as_map v = (case v of AnyMap fs \<Rightarrow> Done fs | _ \<Rightarrow> Panics)"

text \<open>
  \<open>jm\<close> and \<open>ju\<close> are \<open>json.Marshal\<close> of the map and \<open>json.Unmarshal\<close> into a record; the slices of that
  record are not read here.
\<close>

definition msgFromWrap ::
  "((string \<times> dynamic) list \<Rightarrow> goerr + string) \<Rightarrow> (string \<Rightarrow> goerr + Record) \<Rightarrow> dynamic list \<Rightarrow> Record outcome" where
  "msgFromWrap jm ju a =
     bind_outcome (any_at a 1) (\<lambda>v1.
     bind_outcome (as_slice v1) (\<lambda>s1.
     bind_outcome (any_at s1 0) (\<lambda>v2.
     bind_outcome (as_slice v2) (\<lambda>s2.
     bind_outcome (any_at s2 1) (\<lambda>v3.
     bind_outcome (as_map v3) (\<lambda>m.
       case jm m of
         Inl err \<Rightarrow> Panics
       | Inr b \<Rightarrow> (case ju b of Inl err \<Rightarrow> Panics | Inr msg \<Rightarrow> Done msg)))))))"

section \<open>The server\<close>

text \<open>Listeners and connections are numbers. What the server does to them and logs, in order.\<close>

datatype srvop = ListenerClose nat | ConnClose nat | LogLine string | LogErr goerr | LogWrap

record AuditRecordTest =
  sv_connType :: string
  sv_addr :: string
  sv_l :: nat
  sv_msgCh :: "Record chan"
  sv_closed :: bool

definition server_New ::
  "(string \<Rightarrow> string \<Rightarrow> goerr + nat) \<Rightarrow> string \<Rightarrow> string \<Rightarrow> goerr + AuditRecordTest" where
  "server_New listen connType addr =
     (case listen connType addr of
        Inl err \<Rightarrow> Inl (errorf (''unable to create server socket('' @ addr @ ''): %w'') [err])
      | Inr l \<Rightarrow> Inr \<lparr>sv_connType = connType, sv_addr = addr, sv_l = l, sv_msgCh = make_chan 1,
          sv_closed = False\<rparr>)"

definition server_MsgCh :: "AuditRecordTest \<Rightarrow> Record chan" where
  "server_MsgCh c = sv_msgCh c"

text \<open>\<open>err\<close> is what the listener's \<open>Close\<close> returns; the body runs once.\<close>

definition server_Close ::
  "goerr option \<Rightarrow> AuditRecordTest \<Rightarrow> goerr option \<times> AuditRecordTest \<times> srvop list" where
  "server_Close err c =
     (if sv_closed c then (None, c, [])
      else (err, c\<lparr>sv_closed := True\<rparr>, [LogLine ''Closing server'', ListenerClose (sv_l c)]))"

text \<open>
  The accept loop over the results of \<open>Accept\<close>: the connections a reader was started for, the
  calls made, and whether it has returned. \<open>op\<close> is the \<open>Op\<close> of the \<open>net.OpError\<close> in an
  error's chain, if there is one.
\<close>

fun accept ::
  "(goerr \<Rightarrow> string option) \<Rightarrow> AuditRecordTest \<Rightarrow> (goerr + nat) list \<Rightarrow> nat list \<times> srvop list \<times> bool" where
  "accept op c [] = ([], [], False)"
| "accept op c (Inl err # rs) =
     ([], ListenerClose (sv_l c) #
        (if err \<noteq> EOF \<and> (case op err of Some x \<Rightarrow> x \<noteq> ''accept'' | None \<Rightarrow> False) then [LogErr err] else []),
      True)"
| "accept op c (Inr conn # rs) =
     (case accept op c rs of (conns, os, returned) \<Rightarrow>
        (conn # conns, LogLine ''Accepted connection'' # os, returned))"

section \<open>Reading one connection\<close>

text \<open>
  One round of a reader: what the decoder gives, and how many records were received from the channel
  until its send. The reader is between rounds, blocked in the send of a record, returned, or its
  program has crashed; with it the channel, the records received from it, and the calls made.
\<close>

record reading =
  in_decode :: "goerr + dynamic list"
  in_received :: nat

datatype reader_status =
    Reading "Record chan" "Record list" "srvop list"
  | Sending Record "Record chan" "Record list" "srvop list"
  | Finished "Record chan" "Record list" "srvop list"
  | ReaderCrashed

fun receive :: "nat \<Rightarrow> 'a chan \<Rightarrow> 'a list \<Rightarrow> 'a chan \<times> 'a list" where
  "receive 0 ch got = (ch, got)"
| "receive (Suc n) ch got =
     (case TryGet ch of (None, ch') \<Rightarrow> (ch', got) | (Some x, ch') \<Rightarrow> receive n ch' (got @ [x]))"

fun readMsgs ::
  "((string \<times> dynamic) list \<Rightarrow> goerr + string) \<Rightarrow> (string \<Rightarrow> goerr + Record) \<Rightarrow> nat \<Rightarrow> reading list
     \<Rightarrow> Record chan \<Rightarrow> Record list \<Rightarrow> srvop list \<Rightarrow> reader_status" where
  "readMsgs jm ju conn [] ch got os = Reading ch got os"
| "readMsgs jm ju conn (r # rs) ch got os =
     (case receive (in_received r) ch got of (ch1, got1) \<Rightarrow>
        (case in_decode r of
           Inl err \<Rightarrow> Finished ch1 got1 (os @ (if err \<noteq> EOF then [LogErr err, LogWrap] else []))
         | Inr msgWrap \<Rightarrow>
             (case msgFromWrap jm ju msgWrap of
                Done msg \<Rightarrow>
                  if OperationAccessLevel msg = ''resetConn''
                  then Finished ch1 got1 (os @ [LogLine ''Resetting connection'', ConnClose conn])
                  else (case TryPut ch1 msg of
                          (True, ch2) \<Rightarrow> readMsgs jm ju conn rs ch2 got1 os
                        | (False, ch2) \<Rightarrow> Sending msg ch1 got1 os)
              | _ \<Rightarrow> ReaderCrashed)))"

end
