(* ===== verification/ServerFacts.thy ===== *)
theory ServerFacts
  imports Server
begin

text \<open>
  The test server against the program: it reads restore every user message the client encodes, and passes
  on, in order and without loss, exactly the records of a stream up to its end.
\<close>

section \<open>What the client writes\<close>

text \<open>
  How the stream decoder shows an encoded envelope: arrays as slices, structures as maps. \<open>body\<close> is the
  map a record, a heartbeat or a diagnostic message becomes.
\<close>

definition decoded :: "(wirebody \<Rightarrow> (string \<times> dynamic) list) \<Rightarrow> wire \<Rightarrow> dynamic list" where
  "decoded body w =
     [AnyString (w_tag w),
      AnySlice [AnySlice [AnyInt (w_time w), AnyMap (body (w_body w))]],
      AnyMap [(''TimeFormat'', AnyString (w_format w))]]"

lemma msgFromWrap_decoded:
  "msgFromWrap jm ju (decoded body w) =
     (case jm (body (w_body w)) of Inl err \<Rightarrow> Panics
      | Inr b \<Rightarrow> (case ju b of Inl err \<Rightarrow> Panics | Inr msg \<Rightarrow> Done msg))"
  by (simp add: msgFromWrap_def decoded_def any_at_def as_slice_def as_map_def)

text \<open>
  Client and server agree on the envelope. If the stream decoder gives restore, in this form, what the encoder
  wrote, and the detour through JSON restores a record from its map, then the server reads
  from an encoded user message the record the caller sent, its two lists sorted and without
  duplicates: no index is out of range and no assertion on the shape fails.
\<close>

lemma server_reads_client:
  assumes codec: "\<And>w b. enc w = Inr b \<Longrightarrow> dec b = Inr (decoded body w)"
    and json: "\<And>r cs ls. \<exists>j. jm (body (WRecord r cs ls)) = Inr j \<and> ju j = Inr (restore r cs ls)"
    and user: "user_type (msg_Type msg)" and ok: "record_ok m (msg_Record msg)"
    and sent: "MarshalMsgpack enc t m msg = (Inr b, m')"
  shows "\<exists>a cs ls. dec b = Inr a \<and>
    msgFromWrap jm ju a = Done (restore ((msg_Record msg)\<lparr>OperationCategories := NilSlice,
        CallerAccessLevels := NilSlice\<rparr>) cs ls) \<and>
    sorted_wrt (<) (elems cs) \<and> set (elems cs) = set (categories m (msg_Record msg)) \<and>
    sorted_wrt (<) (elems ls) \<and> set (elems ls) = set (levels m (msg_Record msg))"
proof -
  obtain res m1 where prep: "marshalPrep t m msg = (res, m1)" by fastforce
  from marshalPrep_effect [OF user ok prep] obtain p where p: "res = Inr p"
    and cats: "wire_categories (resolve m1 p) = remdups_adj (sort (categories m (msg_Record msg)))"
    and lvls: "wire_levels (resolve m1 p) = remdups_adj (sort (levels m (msg_Record msg)))" by blast
  have body: "\<exists>cs ls. w_body (resolve m1 p) = WRecord ((msg_Record msg)\<lparr>OperationCategories := NilSlice,
      CallerAccessLevels := NilSlice\<rparr>) cs ls"
    by (rule marshalPrep_user [OF user ok prep]) (simp add: p resolve_def)
  then obtain cs ls where w: "w_body (resolve m1 p) = WRecord ((msg_Record msg)
      \<lparr>OperationCategories := NilSlice, CallerAccessLevels := NilSlice\<rparr>) cs ls" by blast
  from sent have "enc (resolve m1 p) = Inr b" by (auto simp: MarshalMsgpack_def prep p)
  from codec [OF this] have dec: "dec b = Inr (decoded body (resolve m1 p))" .
  from json [of "(msg_Record msg)\<lparr>OperationCategories := NilSlice, CallerAccessLevels := NilSlice\<rparr>" cs ls]
  have "msgFromWrap jm ju (decoded body (resolve m1 p)) = Done (restore ((msg_Record msg)
      \<lparr>OperationCategories := NilSlice, CallerAccessLevels := NilSlice\<rparr>) cs ls)"
    by (auto simp: msgFromWrap_decoded w)
  moreover have "elems cs = remdups_adj (sort (categories m (msg_Record msg)))"
    "elems ls = remdups_adj (sort (levels m (msg_Record msg)))"
    using cats lvls by (simp_all add: wire_categories_def wire_levels_def w)
  ultimately show ?thesis using dec
    by (intro exI [of _ "decoded body (resolve m1 p)"] exI [of _ cs] exI [of _ ls])
       (simp add: remdups_adj_strict)
qed

section \<open>What the server passes on\<close>

text \<open>
  The records of a stream: those of its messages up to the first that fails to decode, asks for a
  reset, or has not the form of the envelope.
\<close>

fun wanted ::
  "((string \<times> dynamic) list \<Rightarrow> goerr + string) \<Rightarrow> (string \<Rightarrow> goerr + Record) \<Rightarrow> reading list \<Rightarrow> Record list" where
  "wanted jm ju [] = []"
| "wanted jm ju (r # rs) =
     (case in_decode r of
        Inl err \<Rightarrow> []
      | Inr a \<Rightarrow> (case msgFromWrap jm ju a of
            Done msg \<Rightarrow> if OperationAccessLevel msg = ''resetConn'' then [] else msg # wanted jm ju rs
          | _ \<Rightarrow> []))"

lemma receive_spec:
  "receive n ch got = (ch', got') \<Longrightarrow> got' @ buf ch' = got @ buf ch \<and> cap ch' = cap ch"
  by (induction n ch got rule: receive.induct)
     (auto split: prod.splits option.splits dest: ch.get_contents ch.get_capacity)

text \<open>
  A reader passes on exactly the records of its stream, in order: those received with those still in the
  channel are the earlier ones and the stream's; a reader blocked in a send has passed on all before
  that record; and one that goes on reading has met neither a decode error nor a reset, so it never
  spins on a broken stream. It crashes only on a message that is not of the envelope's form.
\<close>

lemma reader_passes:
  "case readMsgs jm ju conn rs ch got os of
     Reading ch' got' os' \<Rightarrow> got' @ buf ch' = got @ buf ch @ wanted jm ju rs \<and>
        length (wanted jm ju rs) = length rs \<and> os' = os
   | Finished ch' got' os' \<Rightarrow> got' @ buf ch' = got @ buf ch @ wanted jm ju rs \<and>
        length (wanted jm ju rs) < length rs
   | Sending msg ch' got' os' \<Rightarrow> (\<exists>later. got @ buf ch @ wanted jm ju rs = got' @ buf ch' @ msg # later)
   | ReaderCrashed \<Rightarrow> (\<exists>r a. r \<in> set rs \<and> in_decode r = Inr a \<and> (\<forall>msg. msgFromWrap jm ju a \<noteq> Done msg))"
proof (induction rs arbitrary: ch got os)
  case (Cons r rs)
  obtain ch1 got1 where rec: "receive (in_received r) ch got = (ch1, got1)" by fastforce
  note kept = receive_spec [OF rec, THEN conjunct1]
  show ?case
  proof (cases "in_decode r")
    case (Inl err)
    then show ?thesis using rec kept by simp
  next
    case (Inr a)
    show ?thesis
    proof (cases "msgFromWrap jm ju a")
      case (Done msg)
      obtain b ch2 where put: "TryPut ch1 msg = (b, ch2)" by fastforce
      show ?thesis
      proof (cases "OperationAccessLevel msg = ''resetConn'' \<or> \<not> b")
        case True
        with rec kept Inr Done put show ?thesis
          by (cases b) (auto simp flip: append_assoc)
      next
        case False
        with ch.put_contents [OF put] have "buf ch2 = buf ch1 @ [msg]" by simp
        with kept have step: "got1 @ buf ch2 = got @ buf ch @ [msg]" by simp
        then have more: "got1 @ buf ch2 @ xs = got @ buf ch @ msg # xs" for xs
          by (metis append.assoc append_Cons append_Nil)
        from Cons.IH [where ch = ch2 and got = got1 and os = os] False rec Inr Done put show ?thesis
          by (auto simp: more split: reader_status.splits)
      qed
    qed (use rec Inr in auto)
  qed
qed simp

end
