(* ===== verification/EndToEnd.thy ===== *)
theory EndToEnd
  imports Liveness ServerFacts "HOL-Library.Countable"
begin

text \<open>
  From the user's \<open>Send\<close> to the channel of the test server: on a working network connection a
  fresh sender drains the queue, and the server's reader, decoding what was written, passes on the
  users' records in the order they were sent, with the heartbeat after the first.
\<close>

section \<open>One message on the wire\<close>

text \<open>
  What is read of a slice on the other side, and the record that arrives: \<open>restore\<close> puts a record together
  from the map the decoder gives.
\<close>

definition tidy :: "('a::linorder) store \<Rightarrow> slice \<Rightarrow> 'a list option" where
  "tidy st s = (if s = NilSlice then None else Some (remdups_adj (sort (slice_val st s))))"

type_synonym restorer = "Record \<Rightarrow> OperationCategory list option \<Rightarrow> string list option \<Rightarrow> Record"

definition arrival :: "restorer \<Rightarrow> mem \<Rightarrow> Msg \<Rightarrow> Record" where
  "arrival restore m msg = restore
     ((msg_Record msg)\<lparr>OperationCategories := NilSlice, CallerAccessLevels := NilSlice\<rparr>)
     (tidy (cats m) (OperationCategories (msg_Record msg))) (tidy (lvls m) (CallerAccessLevels (msg_Record msg)))"

lemma tidy_sort_compact:
  assumes "slice_ok st s" and "sort_compact zero st s = (s', st')"
  shows "slice_view st' s' = tidy st s"
proof -
  have "s' = NilSlice \<longleftrightarrow> s = NilSlice"
    using assms(2) by (cases s) (auto simp: sort_compact_def Compact_def slice_to_def Let_def)
  then show ?thesis
    using sort_compact_val(1) [OF assms] by (simp add: slice_view_def tidy_def)
qed

text \<open>Two messages whose slices lie in different arrays.\<close>

definition apart :: "Msg \<Rightarrow> Msg \<Rightarrow> bool" where
  "apart x y \<longleftrightarrow> disjoint_slices (OperationCategories (msg_Record x)) (OperationCategories (msg_Record y)) \<and>
     disjoint_slices (CallerAccessLevels (msg_Record x)) (CallerAccessLevels (msg_Record y))"

lemma marshal_user_wire:
  assumes "user_type (msg_Type msg)" and "record_ok m (msg_Record msg)"
  obtains p m' where "marshalPrep t m msg = (Inr p, m')"
    "w_body (resolve m' p) = WRecord ((msg_Record msg)\<lparr>OperationCategories := NilSlice, CallerAccessLevels := NilSlice\<rparr>)
       (tidy (cats m) (OperationCategories (msg_Record msg))) (tidy (lvls m) (CallerAccessLevels (msg_Record msg)))"
    "\<forall>restore x. apart msg x \<longrightarrow> arrival restore m' x = arrival restore m x"
proof -
  obtain res m' where prep: "marshalPrep t m msg = (res, m')" by fastforce
  let ?r = "msg_Record msg"
  from marshalPrep_user [OF assms prep] obtain p cs ls st1 st2 where
    c: "sort_compact 0 (cats m) (OperationCategories ?r) = (cs, st1)" and
    l: "sort_compact [] (lvls m) (CallerAccessLevels ?r) = (ls, st2)" and
    res: "res = Inr p" and m': "m' = m\<lparr>cats := st1, lvls := st2\<rparr>" and
    p: "env_body p = ARecord (?r\<lparr>OperationCategories := cs, CallerAccessLevels := ls\<rparr>)"
    by (metis envelope.select_convs(3))
  have ok: "slice_ok (cats m) (OperationCategories ?r)" "slice_ok (lvls m) (CallerAccessLevels ?r)"
    using assms(2) by (simp_all add: record_ok_def)
  show thesis
  proof (rule that [of p m'])
    show "marshalPrep t m msg = (Inr p, m')" using prep res by simp
    show "w_body (resolve m' p) = WRecord (?r\<lparr>OperationCategories := NilSlice, CallerAccessLevels := NilSlice\<rparr>)
       (tidy (cats m) (OperationCategories ?r)) (tidy (lvls m) (CallerAccessLevels ?r))"
      using tidy_sort_compact [OF ok(1) c] tidy_sort_compact [OF ok(2) l]
      by (simp add: resolve_def p m')
    show "\<forall>restore x. apart msg x \<longrightarrow> arrival restore m' x = arrival restore m x"
      using sort_compact_val(4) [OF ok(1) c] sort_compact_val(4) [OF ok(2) l]
      by (simp add: arrival_def apart_def tidy_def m')
  qed
qed

section \<open>The far side\<close>

text \<open>
  What the far side is assumed to do with what the near side encodes: the stream decoder gives back the
  encoder's envelope, JSON restores a record from its map, and makes a record \<open>beat\<close> of a heartbeat.
\<close>

record far_side =
  fs_dec :: "string \<Rightarrow> goerr + dynamic list"
  fs_body :: "wirebody \<Rightarrow> (string \<times> dynamic) list"
  fs_jm :: "(string \<times> dynamic) list \<Rightarrow> goerr + string"
  fs_ju :: "string \<Rightarrow> goerr + Record"
  fs_restore :: restorer
  fs_beat :: Record

definition agrees :: "far_side \<Rightarrow> bool" where
  "agrees f \<longleftrightarrow>
     (\<forall>r cs ls. \<exists>j. fs_jm f (fs_body f (WRecord r cs ls)) = Inr j \<and> fs_ju f j = Inr (fs_restore f r cs ls)) \<and>
     (\<forall>hb. \<exists>j. fs_jm f (fs_body f (WHeartbeat hb)) = Inr j \<and> fs_ju f j = Inr (fs_beat f))"

definition decodes :: "far_side \<Rightarrow> wenv \<Rightarrow> bool" where
  "decodes f e \<longleftrightarrow> (\<forall>w b. ne_enc (we_net e) w = Inr b \<longrightarrow> fs_dec f b = Inr (decoded (fs_body f) w))"

definition received_as :: "far_side \<Rightarrow> string \<Rightarrow> Record \<Rightarrow> bool" where
  "received_as f b r \<longleftrightarrow> (\<exists>a. fs_dec f b = Inr a \<and> msgFromWrap (fs_jm f) (fs_ju f) a = Done r)"

text \<open>What a successful write of a network connection put on the wire.\<close>

lemma network_write:
  assumes "networked a" and "conn_Write ne m a msg = (None, m', os)"
  obtains b where "writes os = [b]" "MarshalMsgpack (ne_enc ne) (ne_unix ne) m msg = (Inr b, m')"
  using assms that
  by (auto simp: networked_def conn_Write_def writer_Write_def Let_def
      split: audit_conn.splits prod.splits sum.splits)

lemma user_message_received:
  assumes "agrees f" and "decodes f e" and "networked a"
    and "user_type (msg_Type msg)" and "record_ok m (msg_Record msg)"
    and "conn_Write (we_net e) m a msg = (None, m', os)"
  shows "\<exists>b. writes os = [b] \<and> received_as f b (arrival (fs_restore f) m msg)"
    and "apart msg x \<Longrightarrow> arrival (fs_restore f) m' x = arrival (fs_restore f) m x"
proof -
  obtain b where b: "writes os = [b]"
    "MarshalMsgpack (ne_enc (we_net e)) (ne_unix (we_net e)) m msg = (Inr b, m')"
    by (rule network_write [OF assms(3,6)])
  obtain p m1 where p: "marshalPrep (ne_unix (we_net e)) m msg = (Inr p, m1)"
    "w_body (resolve m1 p) = WRecord ((msg_Record msg)\<lparr>OperationCategories := NilSlice, CallerAccessLevels := NilSlice\<rparr>)
       (tidy (cats m) (OperationCategories (msg_Record msg))) (tidy (lvls m) (CallerAccessLevels (msg_Record msg)))"
    "\<forall>restore x. apart msg x \<longrightarrow> arrival restore m1 x = arrival restore m x"
    by (rule marshal_user_wire [OF assms(4,5), where t = "ne_unix (we_net e)"])
  from b(2) p(1) have enc: "ne_enc (we_net e) (resolve m1 p) = Inr b" and m': "m' = m1"
    by (auto simp: MarshalMsgpack_def)
  from assms(2) enc have "fs_dec f b = Inr (decoded (fs_body f) (resolve m1 p))"
    by (simp add: decodes_def)
  moreover from assms(1) obtain j where
    "fs_jm f (fs_body f (w_body (resolve m1 p))) = Inr j" "fs_ju f j = Inr (arrival (fs_restore f) m msg)"
    unfolding p(2) arrival_def agrees_def by blast
  ultimately have "received_as f b (arrival (fs_restore f) m msg)"
    by (simp add: received_as_def msgFromWrap_decoded)
  with b(1) show "\<exists>b. writes os = [b] \<and> received_as f b (arrival (fs_restore f) m msg)" by blast
  show "apart msg x \<Longrightarrow> arrival (fs_restore f) m' x = arrival (fs_restore f) m x" using p(3) m' by simp
qed

lemma heartbeat_received:
  assumes "agrees f" and "decodes f e" and "networked a" and "msg_Type msg = Heartbeat"
    and "conn_Write (we_net e) m a msg = (None, m', os)"
  shows "\<exists>b. writes os = [b] \<and> received_as f b (fs_beat f)" and "m' = m"
proof -
  obtain b where b: "writes os = [b]"
    "MarshalMsgpack (ne_enc (we_net e)) (ne_unix (we_net e)) m msg = (Inr b, m')"
    by (rule network_write [OF assms(3,5)])
  have types: "Heartbeat \<noteq> DataPlane" "Heartbeat \<noteq> ControlPlane" by (simp_all add: const_defs)
  define p where "p = \<lparr>env_tag = the (Type_String Heartbeat),
     env_time = (case msg_now msg of None \<Rightarrow> ne_unix (we_net e) | Some u \<Rightarrow> u),
     env_body = AHeartbeat (msg_Heartbeat msg), env_format = genevaTF\<rparr>"
  have prep: "marshalPrep (ne_unix (we_net e)) m msg = (Inr p, m)"
    using assms(4) types by (simp add: marshalPrep_def Let_def p_def)
  from b(2) have p: "ne_enc (we_net e) (resolve m p) = Inr b" and m': "m' = m"
    by (auto simp: MarshalMsgpack_def prep)
  have body: "w_body (resolve m p) = WHeartbeat (msg_Heartbeat msg)" by (simp add: resolve_def p_def)
  from assms(2) p have "fs_dec f b = Inr (decoded (fs_body f) (resolve m p))"
    by (simp add: decodes_def)
  moreover from assms(1) obtain j where
    "fs_jm f (fs_body f (WHeartbeat (msg_Heartbeat msg))) = Inr j" "fs_ju f j = Inr (fs_beat f)"
    unfolding agrees_def by blast
  ultimately have "received_as f b (fs_beat f)"
    by (simp add: received_as_def msgFromWrap_decoded body)
  with b(1) show "\<exists>b. writes os = [b] \<and> received_as f b (fs_beat f)" by blast
  show "m' = m" by (rule m')
qed

section \<open>One service\<close>

lemma networked_real: "networked a \<Longrightarrow> conn_Type a \<noteq> TypeNoOP"
  by (auto simp: networked_def conn_Type_def const_defs split: audit_conn.splits)

text \<open>The records a sender's traffic is received as: those of the messages, and a heartbeat after its first.\<close>

definition expected :: "far_side \<Rightarrow> msgSender \<Rightarrow> Record list \<Rightarrow> Record list" where
  "expected f m rs = (case rs of
       [] \<Rightarrow> [] | r # rest \<Rightarrow> if ms_ticker m = NilTicker then r # fs_beat f # rest else rs)"

lemma service_delivers:
  assumes "client_ok c" and "sender_ok m" and "queue c = msg # q" and "networked (ms_conn m)"
    and "agrees f" and "working e1" and "working e2" and "decodes f e1" and "decodes f e2"
  obtains m' c' os where "serviceMsg MsgReady e1 e2 m c = Done (None, m', c', os)"
    "client_ok c'" "sender_ok m'" "ms_conn m' = ms_conn m" "ms_ticker m' \<noteq> NilTicker" "queue c' = q"
    "count c' MsgsSent = count c MsgsSent + (if ms_ticker m = NilTicker then 2 else 1)"
    "count c' MsgsDropped = count c MsgsDropped" "count c' MsgErrs = count c MsgErrs"
    "list_all2 (received_as f) (writes os) (expected f m [arrival (fs_restore f) (memory c) msg])"
    "\<And>x. apart msg x \<Longrightarrow> arrival (fs_restore f) (memory c') x = arrival (fs_restore f) (memory c) x"
proof -
  from assms(1) obtain ch where ch: "sendCh c = Some ch" by (auto simp: client_ok_def)
  with assms(3) obtain ch' where get: "TryGet ch = (Some msg, ch')"
    by (cases "buf ch") (auto simp: queue_def TryGet_def)
  let ?c = "c\<lparr>sendCh := Some ch'\<rparr>"
  note take = take_message [OF assms(1) ch get]
  from take(4) assms(3) have q: "queue ?c = q" by simp
  have k: "count ?c k = count c k" for k by (rule count_cong) simp
  from assms(1,3) have user: "user_type (msg_Type msg)" "record_ok (memory c) (msg_Record msg)"
    by (auto simp: client_ok_def message_ok_def)
  have sent: "success_counter (ms_conn m) x = MsgsSent" for x
    using networked_real [OF assms(4)] by (simp add: success_counter_def)
  obtain c1 os1 where w1: "msgSender_write e1 (ms_conn m) ?c msg = Done (None, c1, os1)" "client_ok c1"
    "queue c1 = queue ?c" "\<And>k. count c1 k = count ?c k + (if k = MsgsSent then 1 else 0)"
    "conn_Write (we_net e1) (memory c) (ms_conn m) msg = (None, memory c1, os1)"
    using write_works [OF take(1,2) assms(6), of "ms_conn m"] unfolding sent by auto
  note far = user_message_received [OF assms(5,8,4) user w1(5)]
  from far(1) obtain b1 where b1: "writes os1 = [b1]"
    "received_as f b1 (arrival (fs_restore f) (memory c) msg)" by blast
  show ?thesis
  proof (cases "ms_ticker m = NilTicker")
    case False
    then have svc: "serviceMsg MsgReady e1 e2 m c = Done (None, m, c1, os1)"
      using w1(1) ch get by (simp add: serviceMsg_def)
    have deliv: "list_all2 (received_as f) (writes os1) (expected f m [arrival (fs_restore f) (memory c) msg])"
      using False b1 by (simp add: expected_def)
    show ?thesis
      by (rule that [OF svc _ _ _ _ _ _ _ _ deliv far(2)]) (use w1(2-4) q k assms(2) False in simp_all)
  next
    case True
    obtain c2 os2 where w2: "msgSender_write e2 (ms_conn m) c1 (ms_heartbeat m) = Done (None, c2, os2)"
      "client_ok c2" "queue c2 = queue c1" "\<And>k. count c2 k = count c1 k + (if k = MsgsSent then 1 else 0)"
      "conn_Write (we_net e2) (memory c1) (ms_conn m) (ms_heartbeat m) = (None, memory c2, os2)"
      using write_works [OF w1(2) writable_heartbeat [OF assms(2)] assms(7), of "ms_conn m"]
      unfolding sent by blast
    from assms(2) have "msg_Type (ms_heartbeat m) = Heartbeat" by (simp add: sender_ok_def)
    note far2 = heartbeat_received [OF assms(5,9,4) this w2(5)]
    from far2(1) obtain b2 where b2: "writes os2 = [b2]" "received_as f b2 (fs_beat f)" by blast
    have svc: "serviceMsg MsgReady e1 e2 m c = Done (None, m\<lparr>ms_ticker := Ticking\<rparr>, c2, os1 @ os2)"
      using w1(1) w2(1) ch get True by (simp add: serviceMsg_def)
    have deliv: "list_all2 (received_as f) (writes (os1 @ os2)) (expected f m [arrival (fs_restore f) (memory c) msg])"
      using True b1 b2 by (simp add: expected_def)
    have frame: "arrival (fs_restore f) (memory c2) x = arrival (fs_restore f) (memory c) x" if "apart msg x" for x
      using far(2) [OF that] far2(2) by simp
    show ?thesis
      by (rule that [OF svc _ _ _ _ _ _ _ _ deliv frame])
         (use w1(3,4) w2(2-4) q k assms(2) True in simp_all)
  qed
qed

definition working_round :: "far_side \<Rightarrow> round \<Rightarrow> bool" where
  "working_round f rd \<longleftrightarrow> \<not> rd_cancelled rd \<and> rd_event rd = MsgReady \<and> rd_others rd = [] \<and>
     working (rd_env1 rd) \<and> working (rd_env2 rd) \<and> decodes f (rd_env1 rd) \<and> decodes f (rd_env2 rd)"

section \<open>Draining the queue\<close>

lemma expected_cons:
  assumes "ms_ticker m' \<noteq> NilTicker"
  shows "expected f m (r # rs) = expected f m [r] @ expected f m' rs"
  using assms by (auto simp: expected_def split: list.split)

lemma sender_delivers:
  assumes "agrees f" and "client_ok c" and "sender_ok m" and "networked (ms_conn m)"
    and "list_all (working_round f) rs" and "length rs = length (queue c)" and "sorted_wrt apart (queue c)"
  shows "\<exists>m' c' os'. sender rs m c os = Running m' c' (os @ os') \<and> queue c' = [] \<and>
    count c' MsgsSent = count c MsgsSent + length rs + (if ms_ticker m = NilTicker \<and> rs \<noteq> [] then 1 else 0) \<and>
    count c' MsgsDropped = count c MsgsDropped \<and> count c' MsgErrs = count c MsgErrs \<and>
    list_all2 (received_as f) (writes os')
      (expected f m (map (arrival (fs_restore f) (memory c)) (queue c)))"
  using assms(2-)
proof (induction rs arbitrary: m c os)
  case Nil
  then show ?case
    by (intro exI [of _ m] exI [of _ c] exI [of _ "[]"]) (simp add: expected_def)
next
  case (Cons rd rs)
  then obtain msg q where q: "queue c = msg # q" by (cases "queue c") auto
  from Cons.prems(4) have rd: "\<not> rd_cancelled rd" "rd_event rd = MsgReady" "rd_others rd = []"
    "working (rd_env1 rd)" "working (rd_env2 rd)" "decodes f (rd_env1 rd)" "decodes f (rd_env2 rd)"
    and rs: "list_all (working_round f) rs"
    by (simp_all add: working_round_def [of f rd])
  obtain m1 c1 os1 where
    s: "serviceMsg MsgReady (rd_env1 rd) (rd_env2 rd) m c = Done (None, m1, c1, os1)"
      "client_ok c1" "sender_ok m1" "ms_conn m1 = ms_conn m" "ms_ticker m1 \<noteq> NilTicker" "queue c1 = q"
      "count c1 MsgsSent = count c MsgsSent + (if ms_ticker m = NilTicker then 2 else 1)"
      "count c1 MsgsDropped = count c MsgsDropped" "count c1 MsgErrs = count c MsgErrs"
      "list_all2 (received_as f) (writes os1) (expected f m [arrival (fs_restore f) (memory c) msg])"
      "\<And>x. apart msg x \<Longrightarrow> arrival (fs_restore f) (memory c1) x = arrival (fs_restore f) (memory c) x"
    using service_delivers [OF Cons.prems(1,2) q Cons.prems(3) assms(1) rd(4-7)] by blast
  have same: "map (arrival (fs_restore f) (memory c1)) q = map (arrival (fs_restore f) (memory c)) q"
    using Cons.prems(6) q s(11) by simp
  have net: "networked (ms_conn m1)" using Cons.prems(3) s(4) by simp
  have len: "length rs = length (queue c1)" and ap: "sorted_wrt apart (queue c1)"
    using Cons.prems(5,6) q s(6) by simp_all
  have none: "(if ms_ticker m1 = NilTicker \<and> rs \<noteq> [] then 1 else 0) = (0::nat)" using s(5) by simp
  from Cons.IH [OF s(2,3) net rs len ap, of "os @ os1", unfolded none s(6) add_0_right]
  obtain m' c' os' where
    run: "sender rs m1 c1 (os @ os1) = Running m' c' ((os @ os1) @ os')" "queue c' = []"
      "count c' MsgsSent = count c1 MsgsSent + length rs"
      "count c' MsgsDropped = count c1 MsgsDropped" "count c' MsgErrs = count c1 MsgErrs"
      "list_all2 (received_as f) (writes os') (expected f m1 (map (arrival (fs_restore f) (memory c1)) q))"
    by blast
  have "expected f m (map (arrival (fs_restore f) (memory c)) (queue c)) =
      expected f m [arrival (fs_restore f) (memory c) msg] @
      expected f m1 (map (arrival (fs_restore f) (memory c1)) q)"
    using expected_cons [OF s(5), of f m "arrival (fs_restore f) (memory c) msg"
      "map (arrival (fs_restore f) (memory c)) q"] by (simp add: q same)
  moreover from list_all2_appendI [OF s(10) run(6)]
  have "list_all2 (received_as f) (writes (os1 @ os'))
      (expected f m [arrival (fs_restore f) (memory c) msg] @
       expected f m1 (map (arrival (fs_restore f) (memory c1)) q))" by simp
  ultimately show ?case
    using run s rd
    by (intro exI [of _ m'] exI [of _ c'] exI [of _ "os1 @ os'"]) (simp add: others_def)
qed

section \<open>From Send to the server's channel\<close>

text \<open>What \<open>Send\<close> accepts while there is room, and the queue after a series of calls.\<close>

definition acceptable :: "Client \<Rightarrow> Msg \<Rightarrow> bool" where
  "acceptable c msg \<longleftrightarrow> user_type (msg_Type msg) \<and> record_ok (memory c) (msg_Record msg) \<and>
     Validate (memory c) (msg_Record (stamped c msg)) = None"

lemma sends_queue:
  assumes "client_ok c" and "\<not> clientDead c" and "list_all (acceptable c) msgs"
    and "length (queue c) + length msgs \<le> cap (the (sendCh c))"
  shows "client_ok (others (map UserSend msgs) c) \<and>
    queue (others (map UserSend msgs) c) = queue c @ map (stamped c) msgs \<and>
    memory (others (map UserSend msgs) c) = memory c \<and>
    metrics (others (map UserSend msgs) c) = metrics c"
  using assms
proof (induction msgs arbitrary: c)
  case (Cons msg msgs)
  from Cons.prems(1) obtain ch where ch: "sendCh c = Some ch" by (auto simp: client_ok_def)
  let ?c = "c\<lparr>sendCh := Some ((the (sendCh c))\<lparr>buf := queue c @ [stamped c msg]\<rparr>)\<rparr>"
  have "has_room c" using Cons.prems(4) ch by (simp add: has_room_def queue_def)
  with Cons.prems(2,3) have s: "Send_client c msg = (None, ?c)"
    by (simp add: Send_client_eq acceptable_def)
  have ok: "client_ok ?c"
    by (rule Send_client_keeps [OF Cons.prems(1) _ s]) (use Cons.prems(3) in \<open>simp add: acceptable_def\<close>)
  have q: "queue ?c = queue c @ [stamped c msg]" by (simp add: queue_def)
  have same: "stamped ?c = stamped c" "acceptable ?c = acceptable c"
    by (simp_all add: stamped_def acceptable_def fun_eq_iff)
  from Cons.IH [OF ok] Cons.prems(2-4) have
    "client_ok (others (map UserSend msgs) ?c) \<and>
     queue (others (map UserSend msgs) ?c) = queue ?c @ map (stamped ?c) msgs \<and>
     memory (others (map UserSend msgs) ?c) = memory ?c \<and> metrics (others (map UserSend msgs) ?c) = metrics ?c"
    by (simp add: q same)
  moreover have "others (map UserSend (msg # msgs)) c = others (map UserSend msgs) ?c"
    by (simp add: others_def s)
  ultimately show ?case by (simp add: q same)
qed (simp add: others_def)

lemma apart_stamped: "sorted_wrt apart (map (stamped c) msgs) = sorted_wrt apart msgs"
  by (simp add: sorted_wrt_map apart_def [abs_def] stamped_def)

text \<open>A stream of messages the far side receives is read to its end.\<close>

lemma wanted_received:
  "list_all2 (received_as f) bs rs \<Longrightarrow> map in_decode ds = map (fs_dec f) bs \<Longrightarrow>
   \<forall>r \<in> set rs. OperationAccessLevel r \<noteq> ''resetConn'' \<Longrightarrow>
   wanted (fs_jm f) (fs_ju f) ds = rs"
proof (induction bs rs arbitrary: ds rule: list_all2_induct)
  case (Cons b bs r rs)
  then obtain d ds' where ds: "ds = d # ds'" "in_decode d = fs_dec f b" "map in_decode ds' = map (fs_dec f) bs"
    by (cases ds) auto
  from Cons.hyps(1) obtain a where "fs_dec f b = Inr a" "msgFromWrap (fs_jm f) (fs_ju f) a = Done r"
    by (auto simp: received_as_def)
  with ds Cons show ?case by simp
qed simp

text \<open>A reader of such a stream goes on reading or waits for room in the channel.\<close>

lemma reader_of_received:
  assumes "list_all2 (received_as f) bs rs" and "map in_decode ds = map (fs_dec f) bs"
    and "\<forall>r \<in> set rs. OperationAccessLevel r \<noteq> ''resetConn''"
  shows "case readMsgs (fs_jm f) (fs_ju f) conn ds (make_chan 1) [] [] of
      Reading ch got lines \<Rightarrow> got @ buf ch = rs
    | Sending r ch got lines \<Rightarrow> \<exists>later. rs = got @ buf ch @ r # later
    | _ \<Rightarrow> False"
proof -
  note w = wanted_received [OF assms]
  have "length ds = length rs"
    using map_eq_imp_length_eq [OF assms(2)] list_all2_lengthD [OF assms(1)] by simp
  moreover have "\<exists>msg. msgFromWrap (fs_jm f) (fs_ju f) a = Done msg" if "d \<in> set ds" "in_decode d = Inr a" for d a
  proof -
    from that(1) have "in_decode d \<in> set (map (fs_dec f) bs)" unfolding assms(2) [symmetric] by simp
    then obtain b where "b \<in> set bs" "in_decode d = fs_dec f b" by auto
    with assms(1) that(2) show ?thesis
      by (auto simp: list_all2_conv_all_nth in_set_conv_nth received_as_def)
  qed
  ultimately show ?thesis
    using reader_passes [where jm = "fs_jm f" and ju = "fs_ju f" and conn = conn and rs = ds and
      ch = "make_chan 1" and got = "[]" and os = "[]"]
    by (auto simp: w split: reader_status.splits)
qed

text \<open>
  C10. From end to end: users send valid messages, no two sharing an array, to a client with room for them; a
  fresh sender on a working network connection, one round per message, then empties the queue, counts every
  message as sent with one heartbeat, and drops nothing; and a reader of the test server, fed what was
  written, passes on the users' records with the service tree ID stamped and their lists sorted and without
  duplicates, in the order of the calls of \<open>Send\<close>, the heartbeat's record after the first, nothing
  else; at most it waits for room in its channel.
\<close>

theorem end_to_end:
  assumes "agrees f" and "client_ok c" and "queue c = []" and "\<not> clientDead c"
    and "list_all (acceptable c) msgs" and "length msgs \<le> cap (the (sendCh c))" and "sorted_wrt apart msgs"
    and "sender_ok m" and "networked (ms_conn m)" and "ms_ticker m = NilTicker"
    and "list_all (working_round f) rounds" and "length rounds = length msgs"
    and records: "records = expected f m (map (arrival (fs_restore f) (memory c) \<circ> stamped c) msgs)"
    and "\<forall>r \<in> set records. OperationAccessLevel r \<noteq> ''resetConn''"
    and "map in_decode ds = map (fs_dec f) (writes (traffic (sender rounds m (others (map UserSend msgs) c) [])))"
  shows "\<exists>m' c' os. sender rounds m (others (map UserSend msgs) c) [] = Running m' c' os \<and> queue c' = [] \<and>
    count c' MsgsSent = count c MsgsSent + length msgs + (if msgs = [] then 0 else 1) \<and>
    count c' MsgsDropped = count c MsgsDropped \<and> count c' MsgErrs = count c MsgErrs \<and>
    (case readMsgs (fs_jm f) (fs_ju f) conn ds (make_chan 1) [] [] of
       Reading ch got lines \<Rightarrow> got @ buf ch = records
     | Sending r ch got lines \<Rightarrow> \<exists>later. records = got @ buf ch @ r # later
     | _ \<Rightarrow> False)"
proof -
  let ?c = "others (map UserSend msgs) c"
  from sends_queue [OF assms(2,4,5)] assms(3,6) have c: "client_ok ?c" "queue ?c = map (stamped c) msgs"
    "memory ?c = memory c" "metrics ?c = metrics c" by simp_all
  have k: "count ?c k = count c k" for k by (rule count_cong) (rule c(4))
  have len: "length rounds = length (queue ?c)" and ap: "sorted_wrt apart (queue ?c)"
    using assms(7,12) by (simp_all add: c(2) apart_stamped)
  from sender_delivers [OF assms(1) c(1) assms(8,9,11) len ap, of "[]"] obtain m' c' os where
    run: "sender rounds m ?c [] = Running m' c' os" "queue c' = []"
      "count c' MsgsSent = count ?c MsgsSent + length rounds + (if ms_ticker m = NilTicker \<and> rounds \<noteq> [] then 1 else 0)"
      "count c' MsgsDropped = count ?c MsgsDropped" "count c' MsgErrs = count ?c MsgErrs"
      "list_all2 (received_as f) (writes os) (expected f m (map (arrival (fs_restore f) (memory ?c)) (queue ?c)))"
    unfolding append_Nil by blast
  from run(6) have rec: "list_all2 (received_as f) (writes os) records"
    unfolding records by (simp add: c)
  from assms(15) run(1) have ds: "map in_decode ds = map (fs_dec f) (writes os)" by simp
  have "count c' MsgsSent = count c MsgsSent + length msgs + (if msgs = [] then 0 else 1)"
    using run(3) assms(10,12) k by (cases msgs) auto
  with reader_of_received [OF rec ds assms(14), of conn] run k show ?thesis by simp
qed


text \<open>
  A sample far side: an encoding of the envelope as the length of a string, decoded back, and a JSON that knows
  records from heartbeats.
\<close>

definition is_beat :: "wirebody \<Rightarrow> bool" where
  "is_beat x = (case x of WHeartbeat hb \<Rightarrow> True | _ \<Rightarrow> False)"

definition sample_body :: "wirebody \<Rightarrow> (string \<times> dynamic) list" where
  "sample_body x = (if is_beat x then [(''Heartbeat'', AnyNil)] else [])"

definition sample_enc :: "wire \<Rightarrow> goerr + string" where
  "sample_enc w = Inr (replicate (to_nat (w_tag w, w_time w, is_beat (w_body w), w_format w)) CHR ''x'')"

definition sample_dec :: "string \<Rightarrow> goerr + dynamic list" where
  "sample_dec b = (case from_nat (length b) of (t, i, hb, fmt) \<Rightarrow>
     Inr [AnyString t, AnySlice [AnySlice [AnyInt i, AnyMap (if hb then [(''Heartbeat'', AnyNil)] else [])]],
       AnyMap [(''TimeFormat'', AnyString fmt)]])"

definition sample_far :: far_side where
  "sample_far = \<lparr>fs_dec = sample_dec, fs_body = sample_body,
      fs_jm = (\<lambda>fs. Inr (if fs = [] then [] else ''{}'')),
     fs_ju = (\<lambda>j. Inr (if j = [] then sample_record else Record_zero)),
     fs_restore = (\<lambda>r cs ls. sample_record), fs_beat = Record_zero\<rparr>"

definition sample_far_env :: wenv where
  "sample_far_env = \<lparr>we_net = sample_net\<lparr>ne_enc := sample_enc\<rparr>, we_others = [], we_now = 0\<rparr>"

definition sample_far_round :: round where
  "sample_far_round = \<lparr>rd_cancelled = False, rd_event = MsgReady, rd_env1 = sample_far_env,
     rd_env2 = sample_far_env, rd_others = []\<rparr>"

lemma sample_far_agrees: "agrees sample_far"
  by (simp add: agrees_def sample_far_def sample_body_def is_beat_def)

lemma sample_far_decodes: "decodes sample_far sample_far_env"
  by (auto simp: decodes_def sample_far_def sample_far_env_def sample_enc_def sample_dec_def decoded_def sample_body_def)

lemma sample_far_works: "working_round sample_far sample_far_round"
  using sample_far_decodes
  by (simp add: working_round_def sample_far_round_def working_def sample_far_env_def sample_net_def sample_enc_def)

theorem end_to_end_witness:
  "\<exists>ds. (case readMsgs (fs_jm sample_far) (fs_ju sample_far) 1 ds (make_chan 1) [] [] of
       Reading ch got lines \<Rightarrow> got @ buf ch = [sample_record, Record_zero]
     | Sending r ch got lines \<Rightarrow> \<exists>later. [sample_record, Record_zero] = got @ buf ch @ r # later
     | _ \<Rightarrow> False)"
proof -
  let ?ds = "map (\<lambda>b. \<lparr>in_decode = fs_dec sample_far b, in_received = 1\<rparr>)
    (writes (traffic (sender [sample_far_round] sample_sender (others (map UserSend [sample_msg]) sample_client) [])))"
  have recs: "[sample_record, Record_zero] = expected sample_far sample_sender
      (map (arrival (fs_restore sample_far) (memory sample_client) \<circ> stamped sample_client) [sample_msg])"
    by (simp add: expected_def sample_far_def arrival_def)
  have c: "queue sample_client = []" "\<not> clientDead sample_client"
    "list_all (acceptable sample_client) [sample_msg]" "length [sample_msg] \<le> cap (the (sendCh sample_client))"
    using sample_ok sample_Validate sample_stamped
    by (simp_all add: queue_def acceptable_def user_types) (simp_all add: sample_client_def)
  have m: "networked (ms_conn sample_sender)" by (simp add: networked_def sample_sender_def)
  have "\<forall>r \<in> set [sample_record, Record_zero]. OperationAccessLevel r \<noteq> ''resetConn''"
    by (simp add: sample_record_def Record_zero_def)
  note e = end_to_end [OF sample_far_agrees sample_client_ok c _ sample_sender_ok m _ _ _ recs this,
      of "[sample_far_round]" ?ds 1]
  have "\<exists>m' c' os. sender [sample_far_round] sample_sender (others (map UserSend [sample_msg]) sample_client) [] =
      Running m' c' os \<and> queue c' = [] \<and>
    count c' MsgsSent = count sample_client MsgsSent + length [sample_msg] + (if [sample_msg] = [] then 0 else 1) \<and>
    count c' MsgsDropped = count sample_client MsgsDropped \<and> count c' MsgErrs = count sample_client MsgErrs \<and>
    (case readMsgs (fs_jm sample_far) (fs_ju sample_far) 1 ?ds (make_chan 1) [] [] of
       Reading ch got lines \<Rightarrow> got @ buf ch = [sample_record, Record_zero]
     | Sending r ch got lines \<Rightarrow> \<exists>later. [sample_record, Record_zero] = got @ buf ch @ r # later
     | _ \<Rightarrow> False)"
    by (rule e) (simp_all add: sample_far_works comp_def del: sender.simps)
  then show ?thesis by (intro exI [of _ ?ds]) (elim exE conjE)
qed

end
