(* ===== verification/WorldServer.thy ===== *)
theory WorldServer
  imports WorldWire EndToEnd
begin

text \<open>
  From \<open>Send\<close> to the server, for every interleaving: what the network took of a user's message is read by the server
  as the record the message had in memory when it was written.
\<close>

section \<open>What was taken was accepted\<close>

lemma took_accepted:
  assumes "runs_from h ustr mem uid r options c w" and "(a, ns) \<in> set (line_log (hist w))" and "n \<in> set ns"
    and "wn_result n = None" and "conn_Type a \<noteq> TypeNoOP" and "of_user (wn_msg n)"
  shows "wn_msg n \<in> set (accepted (hist w))"
proof -
  from assms(2-6) have "wn_msg n \<in> set (filter of_user (took (line_log (hist w))))"
    by (force simp: took_def line_took_def)
  moreover from runs_from_wire [OF assms(1)] have
    "filter of_user (took (line_log (hist w))) = sent (hist w) @ filter of_user (landed (sdr w))"
    by (simp add: wire_inv_def counted_right_def)
  moreover have "set (filter of_user (landed (sdr w))) \<subseteq> set (in_hand (sdr w))"
  proof (cases "sdr w")
    case (BeatWritten m r)
    then have "pc_sender (sdr w) = Some m" by simp
    with held_heartbeat(3) [OF _ this] runs_from_inv [OF assms(1)] BeatWritten show ?thesis
      by (auto simp: landed_def)
  qed (auto simp: landed_def in_hand_def)
  moreover from runs_from_inv [OF assms(1)] have "mset (accepted (hist w)) = mset (queue (client w)) +
      mset (in_hand (sdr w)) + mset (sent (hist w)) + mset (dropped (hist w))"
    by (simp add: world_inv_def conserved_def)
  from arg_cong [OF this, of set_mset] have "set (accepted (hist w)) = set (queue (client w)) \<union>
      set (in_hand (sdr w)) \<union> set (sent (hist w)) \<union> set (dropped (hist w))" by simp
  ultimately show ?thesis by auto
qed

text \<open>A successful write through the writer is a successful encoding.\<close>

lemma note_encoded:
  assumes "note_ok a n" and "network a = Some k" and "wn_result n = None"
  obtains b m' where "MarshalMsgpack (ne_enc (wn_net n)) (ne_unix (wn_net n)) (wn_mem n) (wn_msg n) = (Inr b, m')"
    "wn_ops n = [SetWriteDeadline k (ne_now (wn_net n) + 15 * 1000000000), NetWrite k b]"
proof -
  from assms(1) obtain m' where io: "conn_Write (wn_net n) (wn_mem n) a (wn_msg n) = (wn_result n, m', wn_ops n)"
    by (auto simp: note_ok_def)
  obtain res m1 where enc: "MarshalMsgpack (ne_enc (wn_net n)) (ne_unix (wn_net n)) (wn_mem n) (wn_msg n) = (res, m1)"
    by fastforce
  with io assms(2,3) show thesis
    by (cases res) (auto simp: conn_Write_def writer_Write_def network_def Let_def intro: that split: audit_conn.splits)
qed

section \<open>What the server reads\<close>

text \<open>
  C11. From \<open>Send\<close> to the server under every interleaving, the user's program writing to its records at any time
  included: a user message that a real connection took was accepted by \<open>Send\<close>; it is one write of one encoding, after a
  deadline of 15 seconds; and where the stream decoder gives back what that encoder wrote, and JSON restores a record
  from its map, the server reads from it the message's record with the two lists that were in memory when
  it was written, sorted and without duplicates.
\<close>

theorem world_server_reads:
  assumes run: "runs_from h ustr mem uid r options c w"
    and wrote: "(a, ns) \<in> set (line_log (hist w))" "n \<in> set ns" "wn_result n = None" "network a = Some k"
    and user: "of_user (wn_msg n)"
    and codec: "\<And>x b. ne_enc (wn_net n) x = Inr b \<Longrightarrow> dec b = Inr (decoded body x)"
    and json: "\<And>x cs ls. \<exists>j. jm (body (WRecord x cs ls)) = Inr j \<and> ju j = Inr (restore x cs ls)"
  shows "wn_msg n \<in> set (accepted (hist w)) \<and>
    (\<exists>b v cs ls. wn_ops n = [SetWriteDeadline k (ne_now (wn_net n) + 15 * 1000000000), NetWrite k b] \<and>
       dec b = Inr v \<and> msgFromWrap jm ju v = Done (restore ((msg_Record (wn_msg n))\<lparr>OperationCategories := NilSlice,
         CallerAccessLevels := NilSlice\<rparr>) cs ls) \<and>
       sorted_wrt (<) (elems cs) \<and> set (elems cs) = set (categories (wn_mem n) (msg_Record (wn_msg n))) \<and>
       sorted_wrt (<) (elems ls) \<and> set (elems ls) = set (levels (wn_mem n) (msg_Record (wn_msg n))))"
proof -
  from wrote(4) have real: "conn_Type a \<noteq> TypeNoOP"
    by (auto simp: network_def conn_Type_def const_defs split: audit_conn.splits)
  from runs_from_wire [OF run] wrote(1,2) have ok: "note_ok a n"
    by (auto simp: wire_inv_def line_ok_def list_all_iff)
  then have rok: "record_ok (wn_mem n) (msg_Record (wn_msg n))" by (simp add: note_ok_def)
  obtain b m' where b: "MarshalMsgpack (ne_enc (wn_net n)) (ne_unix (wn_net n)) (wn_mem n) (wn_msg n) = (Inr b, m')"
    "wn_ops n = [SetWriteDeadline k (ne_now (wn_net n) + 15 * 1000000000), NetWrite k b]"
    by (rule note_encoded [OF ok wrote(4,3)])
  note reads = server_reads_client [where dec = dec and body = body and jm = jm and ju = ju and restore = restore,
    OF codec json user rok b(1)]
  show ?thesis
    using took_accepted [OF run wrote(1-3) real user] b(2) reads by simp
qed


theorem world_server_reads_witness:
  "\<exists>w n b v. runs_from sample_host (\<lambda>u. ''id'') sample_mem 1 (Inr (Some sample_tcp)) [] sample_born w \<and>
     line_log (hist w) = [(sample_tcp, [n])] \<and> NetWrite 3 b \<in> set (wn_ops n) \<and> sample_dec b = Inr v \<and>
     msgFromWrap (\<lambda>fs. Inr []) (\<lambda>j. Inr sample_record) v = Done sample_record"
proof -
  from sample_wrote [of "we_net sample_far_env"] obtain w n where
    w: "runs_from sample_host (\<lambda>u. ''id'') sample_mem 1 (Inr (Some sample_tcp)) [] sample_born w"
    "line_log (hist w) = [(sample_tcp, [n])]" "wn_msg n = sample_msg" "wn_net n = we_net sample_far_env"
    and res: "wn_result n = fst (conn_Write (we_net sample_far_env) (wn_mem n) sample_tcp sample_msg)" by blast
  have "working sample_far_env" using sample_far_works by (simp add: working_round_def sample_far_round_def)
  from conn_works [OF this, of sample_msg] res have taken: "wn_result n = None" by (simp add: user_types)
  have "network sample_tcp = Some 3" by (simp add: sample_tcp_def network_def)
  moreover have "ne_enc (wn_net n) x = Inr b \<Longrightarrow> sample_dec b = Inr (decoded sample_body x)" for x b
    using sample_far_decodes by (simp add: decodes_def sample_far_def w(4))
  ultimately have "\<exists>b v. wn_ops n = [SetWriteDeadline 3 (ne_now (wn_net n) + 15 * 1000000000), NetWrite 3 b] \<and>
      sample_dec b = Inr v \<and> msgFromWrap (\<lambda>fs. Inr []) (\<lambda>j. Inr sample_record) v = Done sample_record"
    using world_server_reads [OF w(1), of sample_tcp "[n]" n 3 sample_dec sample_body "\<lambda>fs. Inr []"
        "\<lambda>j. Inr sample_record" "\<lambda>x cs ls. sample_record"] w(2,3) taken
    by (auto simp: user_types)
  then show ?thesis using w(1,2) by fastforce
qed

end
