(* ===== verification/ServerRuns.thy ===== *)
theory ServerRuns
  imports ServerFacts
begin

text \<open>
  The test server with all its connections: the accept loop, one reader per connection, all putting into
  the one channel of capacity 1, and the test that receives from it, interleaved. Beside the state stand
  the stream of each connection and the connection each record came from; no step reads them.
\<close>

section \<open>The state\<close>

text \<open>
  A reader is about to decode, with what its decoder has yet to give; blocked in its send of a record; or
  has returned.
\<close>

type_synonym stream = "(goerr + dynamic list) list"

datatype reader_pc = Decoding stream | Putting Record stream | Done_reading

record serving =
  sg_accepting :: bool
  sg_crashed :: bool
  sg_readers :: "reader_pc list"
  sg_ch :: "Record chan"
  sg_got :: "Record list"
  sg_streams :: "stream list"
  sg_from :: "nat list"

definition serving_start :: "AuditRecordTest \<Rightarrow> serving" where
  "serving_start c = \<lparr>sg_accepting = True, sg_crashed = False, sg_readers = [], sg_ch = server_MsgCh c,
     sg_got = [], sg_streams = [], sg_from = []\<rparr>"

section \<open>Steps\<close>

text \<open>What one message decoded from a connection makes of its reader; \<open>None\<close> is a panic.\<close>

definition after_decode ::
  "((string \<times> dynamic) list \<Rightarrow> goerr + string) \<Rightarrow> (string \<Rightarrow> goerr + Record) \<Rightarrow> goerr + dynamic list
     \<Rightarrow> stream \<Rightarrow> reader_pc option" where
  "after_decode jm ju d ds =
     (case d of
        Inl err \<Rightarrow> Some Done_reading
      | Inr a \<Rightarrow> (case msgFromWrap jm ju a of
            Done msg \<Rightarrow> if OperationAccessLevel msg = ''resetConn'' then Some Done_reading
                       else Some (Putting msg ds)
          | _ \<Rightarrow> None))"

inductive serve_step ::
  "((string \<times> dynamic) list \<Rightarrow> goerr + string) \<Rightarrow> (string \<Rightarrow> goerr + Record) \<Rightarrow> serving \<Rightarrow> serving \<Rightarrow> bool"
  for jm ju where
  accepted_conn: "\<not> sg_crashed s \<Longrightarrow> sg_accepting s \<Longrightarrow>
    serve_step jm ju s (s\<lparr>sg_readers := sg_readers s @ [Decoding ds], sg_streams := sg_streams s @ [ds]\<rparr>)"
| accept_failed: "\<not> sg_crashed s \<Longrightarrow> sg_accepting s \<Longrightarrow> serve_step jm ju s (s\<lparr>sg_accepting := False\<rparr>)"
| decode: "\<not> sg_crashed s \<Longrightarrow> i < length (sg_readers s) \<Longrightarrow> sg_readers s ! i = Decoding (d # ds) \<Longrightarrow>
    after_decode jm ju d ds = Some p \<Longrightarrow>
    serve_step jm ju s (s\<lparr>sg_readers := (sg_readers s)[i := p]\<rparr>)"
| decode_panics: "\<not> sg_crashed s \<Longrightarrow> i < length (sg_readers s) \<Longrightarrow> sg_readers s ! i = Decoding (d # ds) \<Longrightarrow>
    after_decode jm ju d ds = None \<Longrightarrow> serve_step jm ju s (s\<lparr>sg_crashed := True\<rparr>)"
| put: "\<not> sg_crashed s \<Longrightarrow> i < length (sg_readers s) \<Longrightarrow> sg_readers s ! i = Putting r ds \<Longrightarrow>
    TryPut (sg_ch s) r = (True, ch) \<Longrightarrow>
    serve_step jm ju s (s\<lparr>sg_readers := (sg_readers s)[i := Decoding ds], sg_ch := ch,
      sg_from := sg_from s @ [i]\<rparr>)"
| receive: "\<not> sg_crashed s \<Longrightarrow> TryGet (sg_ch s) = (Some r, ch) \<Longrightarrow>
    serve_step jm ju s (s\<lparr>sg_ch := ch, sg_got := sg_got s @ [r]\<rparr>)"

section \<open>What every connection's records come to\<close>

definition records_of ::
  "((string \<times> dynamic) list \<Rightarrow> goerr + string) \<Rightarrow> (string \<Rightarrow> goerr + Record) \<Rightarrow> stream \<Rightarrow> Record list" where
  "records_of jm ju ds = wanted jm ju (map (\<lambda>d. \<lparr>in_decode = d, in_received = 0\<rparr>) ds)"

fun owed ::
  "((string \<times> dynamic) list \<Rightarrow> goerr + string) \<Rightarrow> (string \<Rightarrow> goerr + Record) \<Rightarrow> reader_pc \<Rightarrow> Record list" where
  "owed jm ju (Decoding ds) = records_of jm ju ds"
| "owed jm ju (Putting r ds) = r # records_of jm ju ds"
| "owed jm ju Done_reading = []"

text \<open>The records of one connection among those put into the channel, in order.\<close>

definition passed_on :: "serving \<Rightarrow> Record list" where
  "passed_on s = sg_got s @ buf (sg_ch s)"

definition of_conn :: "nat \<Rightarrow> nat list \<Rightarrow> Record list \<Rightarrow> Record list" where
  "of_conn i is rs = map snd (filter (\<lambda>p. fst p = i) (zip is rs))"

lemma of_conn_snoc:
  "length is = length rs \<Longrightarrow>
   of_conn i (is @ [j]) (rs @ [r]) = of_conn i is rs @ (if j = i then [r] else [])"
  by (simp add: of_conn_def)

lemma after_decode_owed:
  "after_decode jm ju d ds = Some p \<Longrightarrow> owed jm ju p = records_of jm ju (d # ds)"
  by (auto simp: after_decode_def records_of_def split: sum.splits outcome.splits if_splits)

definition serving_inv ::
  "((string \<times> dynamic) list \<Rightarrow> goerr + string) \<Rightarrow> (string \<Rightarrow> goerr + Record) \<Rightarrow> serving \<Rightarrow> bool" where
  "serving_inv jm ju s \<longleftrightarrow> length (sg_streams s) = length (sg_readers s) \<and>
     length (sg_from s) = length (passed_on s) \<and> set (sg_from s) \<subseteq> {..<length (sg_readers s)} \<and>
     (\<forall>i < length (sg_readers s). records_of jm ju (sg_streams s ! i) =
        of_conn i (sg_from s) (passed_on s) @ owed jm ju (sg_readers s ! i)) \<and>
     ch.bounded (sg_ch s) \<and> cap (sg_ch s) = 1"

lemma serving_start_inv: "sv_msgCh c = make_chan 1 \<Longrightarrow> serving_inv jm ju (serving_start c)"
  by (simp add: serving_inv_def serving_start_def passed_on_def server_MsgCh_def)

lemma of_conn_new: "set is \<subseteq> {..<n} \<Longrightarrow> of_conn n is rs = []"
proof -
  assume "set is \<subseteq> {..<n}"
  then have "\<forall>p \<in> set (zip is rs). fst p \<noteq> n" by (auto dest: set_zip_leftD)
  then show ?thesis by (simp add: of_conn_def)
qed

lemma serve_step_inv:
  assumes "serve_step jm ju s s'" and "serving_inv jm ju s"
  shows "serving_inv jm ju s'"
  using assms(1)
proof cases
  case (accepted_conn ds)
  with assms(2) of_conn_new [of "sg_from s" "length (sg_readers s)"] show ?thesis
    by (auto simp: serving_inv_def passed_on_def nth_append less_Suc_eq)
next
  case accept_failed
  with assms(2) show ?thesis by (simp add: serving_inv_def passed_on_def)
next
  case (decode i d ds p)
  with assms(2) after_decode_owed [OF decode(5)] show ?thesis
    by (auto simp: serving_inv_def passed_on_def nth_list_update)
next
  case (decode_panics i d ds)
  with assms(2) show ?thesis by (simp add: serving_inv_def passed_on_def)
next
  case (put i r ds ch)
  from ch.put_contents [OF put(5)] have buf: "buf ch = buf (sg_ch s) @ [r]" by simp
  have p: "passed_on s' = passed_on s @ [r]" using put(1) buf by (simp add: passed_on_def)
  have len: "length (sg_from s) = length (passed_on s)" using assms(2) by (simp add: serving_inv_def)
  from ch.put_bounded [OF _ put(5)] ch.put_capacity [OF put(5)] assms(2)
  have "ch.bounded ch" "cap ch = 1" by (auto simp: serving_inv_def)
  with put assms(2) show ?thesis
    unfolding serving_inv_def p by (auto simp: of_conn_snoc [OF len] nth_list_update len)
next
  case (receive r ch)
  from ch.get_contents [OF receive(3)] have "buf (sg_ch s) = r # buf ch" by simp
  then have p: "passed_on s' = passed_on s" using receive(1) by (simp add: passed_on_def)
  from ch.get_bounded [OF _ receive(3)] ch.get_capacity [OF receive(3)] assms(2)
  have "ch.bounded ch" "cap ch = 1" by (auto simp: serving_inv_def)
  with receive(1) assms(2) show ?thesis unfolding serving_inv_def p by simp
qed

lemma serve_run_inv:
  "(serve_step jm ju)\<^sup>*\<^sup>* s s' \<Longrightarrow> serving_inv jm ju s \<Longrightarrow> serving_inv jm ju s'"
  by (induction rule: rtranclp_induct) (auto intro: serve_step_inv)

text \<open>A reader with a record for the channel gets it through as soon as the test receives.\<close>

lemma put_completes:
  assumes "serving_inv jm ju s" and "\<not> sg_crashed s" and "i < length (sg_readers s)"
    and "sg_readers s ! i = Putting r ds"
  shows "\<exists>s'. (serve_step jm ju)\<^sup>*\<^sup>* s s' \<and> sg_readers s' = (sg_readers s)[i := Decoding ds] \<and>
    last (passed_on s') = r"
proof -
  have put: "\<exists>s'. serve_step jm ju t s' \<and> sg_readers s' = (sg_readers t)[i := Decoding ds] \<and> last (passed_on s') = r"
    if "\<not> sg_crashed t" "i < length (sg_readers t)" "sg_readers t ! i = Putting r ds"
      "length (buf (sg_ch t)) < cap (sg_ch t)" for t
  proof -
    from that(4) have "TryPut (sg_ch t) r = (True, (sg_ch t)\<lparr>buf := buf (sg_ch t) @ [r]\<rparr>)"
      by (simp add: TryPut_def)
    from serve_step.put [OF that(1-3) this, of jm ju] show ?thesis
      by (intro exI conjI) (auto simp: passed_on_def)
  qed
  from assms(1) have cap: "cap (sg_ch s) = 1" by (simp add: serving_inv_def)
  show ?thesis
  proof (cases "buf (sg_ch s)")
    case Nil
    with put [OF assms(2-4)] cap show ?thesis by (auto intro: r_into_rtranclp)
  next
    case (Cons x xs)
    then have get: "TryGet (sg_ch s) = (Some x, (sg_ch s)\<lparr>buf := xs\<rparr>)" by (simp add: TryGet_def)
    let ?t = "s\<lparr>sg_ch := (sg_ch s)\<lparr>buf := xs\<rparr>, sg_got := sg_got s @ [x]\<rparr>"
    from assms(1) Cons have "xs = []" by (auto simp: serving_inv_def ch.bounded_def)
    with put [of ?t] assms(2-4) cap obtain s' where
      "serve_step jm ju ?t s'" "sg_readers s' = (sg_readers s)[i := Decoding ds]" "last (passed_on s') = r"
      by auto
    moreover have "serve_step jm ju s ?t" by (rule serve_step.receive [OF assms(2) get])
    ultimately show ?thesis
      by (intro exI [of _ s']) (auto intro: converse_rtranclp_into_rtranclp r_into_rtranclp)
  qed
qed

section \<open>The function among the steps\<close>

text \<open>
  A run of \<open>readMsgs\<close> arrives at: its reader between rounds, blocked in a send or returned, with the same channel and the
  same records received; or a crash.
\<close>

definition reader_at :: "serving \<Rightarrow> nat \<Rightarrow> reader_pc \<Rightarrow> Record chan \<Rightarrow> Record list \<Rightarrow> bool" where
  "reader_at s i p ch got \<longleftrightarrow> \<not> sg_crashed s \<and> i < length (sg_readers s) \<and> sg_readers s ! i = p \<and>
     sg_ch s = ch \<and> sg_got s = got"

fun matches :: "reader_status \<Rightarrow> stream \<Rightarrow> nat \<Rightarrow> serving \<Rightarrow> bool" where
  "matches (Reading ch got os) ds i s \<longleftrightarrow> reader_at s i (Decoding ds) ch got"
| "matches (Sending msg ch got os) ds i s \<longleftrightarrow> (\<exists>ds'. reader_at s i (Putting msg ds') ch got)"
| "matches (Finished ch got os) ds i s \<longleftrightarrow> reader_at s i Done_reading ch got"
| "matches ReaderCrashed ds i s \<longleftrightarrow> sg_crashed s"

lemma receive_steps:
  assumes "reader_at s i p ch got" and "receive n ch got = (ch', got')"
  shows "\<exists>s'. (serve_step jm ju)\<^sup>*\<^sup>* s s' \<and> reader_at s' i p ch' got'"
  using assms
proof (induction n arbitrary: s ch got)
  case (Suc n)
  show ?case
  proof (cases "buf ch")
    case Nil
    with Suc.prems show ?thesis by (intro exI [of _ s]) (auto simp: TryGet_def)
  next
    case (Cons x xs)
    then have get: "TryGet ch = (Some x, ch\<lparr>buf := xs\<rparr>)" by (simp add: TryGet_def)
    let ?s = "s\<lparr>sg_ch := ch\<lparr>buf := xs\<rparr>, sg_got := sg_got s @ [x]\<rparr>"
    from Suc.prems(1) get have step: "serve_step jm ju s ?s"
      by (intro serve_step.receive) (simp_all add: reader_at_def)
    from Suc.prems get have "reader_at ?s i p (ch\<lparr>buf := xs\<rparr>) (got @ [x])"
      "receive n (ch\<lparr>buf := xs\<rparr>) (got @ [x]) = (ch', got')" by (simp_all add: reader_at_def)
    from Suc.IH [OF this] step show ?thesis by (meson converse_rtranclp_into_rtranclp)
  qed
qed auto

lemma decode_step:
  assumes "reader_at s i (Decoding (d # ds)) ch got"
  shows "after_decode jm ju d ds = Some p \<Longrightarrow> \<exists>s'. serve_step jm ju s s' \<and> reader_at s' i p ch got"
    and "after_decode jm ju d ds = None \<Longrightarrow> \<exists>s'. serve_step jm ju s s' \<and> sg_crashed s'"
proof -
  from assms have s: "\<not> sg_crashed s" "i < length (sg_readers s)" "sg_readers s ! i = Decoding (d # ds)"
    "sg_ch s = ch" "sg_got s = got" by (simp_all add: reader_at_def)
  show "\<exists>s'. serve_step jm ju s s' \<and> reader_at s' i p ch got" if "after_decode jm ju d ds = Some p"
    using serve_step.decode [OF s(1-3) that] s by (intro exI conjI) (auto simp: reader_at_def)
  show "\<exists>s'. serve_step jm ju s s' \<and> sg_crashed s'" if "after_decode jm ju d ds = None"
    using serve_step.decode_panics [OF s(1-3) that] by (intro exI conjI) auto
qed

lemma put_step:
  assumes "reader_at s i (Putting r ds) ch got" and "TryPut ch r = (True, ch')"
  shows "\<exists>s'. serve_step jm ju s s' \<and> reader_at s' i (Decoding ds) ch' got"
proof -
  from assms(1) have s: "\<not> sg_crashed s" "i < length (sg_readers s)" "sg_readers s ! i = Putting r ds"
    "sg_ch s = ch" "sg_got s = got" by (simp_all add: reader_at_def)
  with assms(2) have "TryPut (sg_ch s) r = (True, ch')" by simp
  from serve_step.put [OF s(1-3) this] s show ?thesis by (intro exI conjI) (auto simp: reader_at_def)
qed

lemma sends_step:
  assumes "reader_at s i (Putting msg ds') ch got"
    and "\<And>s1 ch1. reader_at s1 i (Decoding ds') ch1 got \<Longrightarrow>
      \<exists>s'. (serve_step jm ju)\<^sup>*\<^sup>* s1 s' \<and> matches (f ch1) ds i s'"
  shows "\<exists>s'. (serve_step jm ju)\<^sup>*\<^sup>* s s' \<and>
    matches (case TryPut ch msg of (True, ch1) \<Rightarrow> f ch1 | (False, ch1) \<Rightarrow> Sending msg ch got os) ds i s'"
proof -
  obtain b ch1 where put: "TryPut ch msg = (b, ch1)" by fastforce
  show ?thesis
  proof (cases b)
    case True
    then have "TryPut ch msg = (True, ch1)" using put by simp
    from put_step [OF assms(1) this] obtain s1 where
      s1: "serve_step jm ju s s1" "reader_at s1 i (Decoding ds') ch1 got" by blast
    from assms(2) [OF s1(2)] s1(1) put True show ?thesis by (auto intro: converse_rtranclp_into_rtranclp)
  qed (use assms(1) put in auto)
qed

lemma reader_in_serving:
  assumes "reader_at s i (Decoding (map in_decode rs @ ds)) ch got"
  shows "\<exists>s'. (serve_step jm ju)\<^sup>*\<^sup>* s s' \<and> matches (readMsgs jm ju conn rs ch got os) ds i s'"
  using assms
proof (induction rs arbitrary: s ch got)
  case Nil
  then show ?case by (intro exI [of _ s]) simp
next
  case (Cons r rs)
  let ?d = "in_decode r" and ?ds = "map in_decode rs @ ds"
  obtain ch1 got1 where rec: "receive (in_received r) ch got = (ch1, got1)" by fastforce
  from receive_steps [OF Cons.prems rec] obtain s1 where
    s1: "(serve_step jm ju)\<^sup>*\<^sup>* s s1" "reader_at s1 i (Decoding (?d # ?ds)) ch1 got1" by auto
  note go = rtranclp.rtrancl_into_rtrancl [OF s1(1)]
  show ?case
  proof (cases "after_decode jm ju ?d ?ds")
    case None
    from decode_step(2) [OF s1(2) None] go have "\<exists>s'. (serve_step jm ju)\<^sup>*\<^sup>* s s' \<and> sg_crashed s'" by blast
    moreover from None rec have "readMsgs jm ju conn (r # rs) ch got os = ReaderCrashed"
      by (auto simp: after_decode_def split: sum.splits outcome.splits if_splits)
    ultimately show ?thesis by simp
  next
    case (Some p)
    from decode_step(1) [OF s1(2) Some] go obtain s2 where
      s2: "(serve_step jm ju)\<^sup>*\<^sup>* s s2" "reader_at s2 i p ch1 got1" by blast
    from Some rec consider
        (finished) os' where "p = Done_reading" "readMsgs jm ju conn (r # rs) ch got os = Finished ch1 got1 os'"
      | (sends) msg where "p = Putting msg ?ds" "readMsgs jm ju conn (r # rs) ch got os =
          (case TryPut ch1 msg of (True, ch2) \<Rightarrow> readMsgs jm ju conn rs ch2 got1 os | (False, ch2) \<Rightarrow> Sending msg ch1 got1 os)"
      by (auto simp: after_decode_def split: sum.splits outcome.splits if_splits)
    then show ?thesis
    proof cases
      case finished
      with s2 show ?thesis by auto
    next
      case sends
      from sends_step [OF s2(2) [unfolded sends(1)], where f = "\<lambda>ch2. readMsgs jm ju conn rs ch2 got1 os"
          and jm = jm and ju = ju and ds = ds and os = os, OF Cons.IH]
      show ?thesis unfolding sends(2) using rtranclp_trans [OF s2(1)] by blast
    qed
  qed
qed

text \<open>
  C40. The test server with any number of connections, however their readers and the receiving test are
  interleaved: the channel holds at most one record, every record put into it is of one connection, and each
  connection's records are passed on in the order of its stream, without loss: those passed on, then
  those its reader still owes, are the records of its stream up to its end; a reader that has returned owes
  none. And a reader that blocks in its send can always be freed by a receive: no reader starves another for good.
  Nothing a reader can do alone is missing: from every such state, any run of \<open>readMsgs\<close> over what its decoder has yet to give is a run
  of the server, to the same channel and the same received records.
\<close>

theorem server_interleaves:
  assumes "server_New listen connType addr = Inr c" and "(serve_step jm ju)\<^sup>*\<^sup>* (serving_start c) s"
  shows "length (buf (sg_ch s)) \<le> 1 \<and> length (sg_from s) = length (passed_on s) \<and>
    set (sg_from s) \<subseteq> {..<length (sg_readers s)} \<and>
    (\<forall>i < length (sg_readers s).
       records_of jm ju (sg_streams s ! i) =
         of_conn i (sg_from s) (passed_on s) @ owed jm ju (sg_readers s ! i) \<and>
       (sg_readers s ! i = Done_reading \<longrightarrow>
         of_conn i (sg_from s) (passed_on s) = records_of jm ju (sg_streams s ! i)) \<and>
       (\<forall>r ds. \<not> sg_crashed s \<longrightarrow> sg_readers s ! i = Putting r ds \<longrightarrow>
         (\<exists>s'. (serve_step jm ju)\<^sup>*\<^sup>* s s' \<and> sg_readers s' = (sg_readers s)[i := Decoding ds] \<and>
           last (passed_on s') = r)) \<and>
       (\<forall>rs ds conn os. \<not> sg_crashed s \<longrightarrow> sg_readers s ! i = Decoding (map in_decode rs @ ds) \<longrightarrow>
         (\<exists>s'. (serve_step jm ju)\<^sup>*\<^sup>* s s' \<and>
           matches (readMsgs jm ju conn rs (sg_ch s) (sg_got s) os) ds i s')))"
proof -
  from assms(1) have "sv_msgCh c = make_chan 1" by (auto simp: server_New_def split: sum.splits)
  from serve_run_inv [OF assms(2) serving_start_inv [OF this]] have s: "serving_inv jm ju s" .
  then have "length (buf (sg_ch s)) \<le> 1" by (simp add: serving_inv_def ch.bounded_def)
  moreover have "\<exists>s'. (serve_step jm ju)\<^sup>*\<^sup>* s s' \<and> matches (readMsgs jm ju conn rs (sg_ch s) (sg_got s) os) ds i s'"
    if "i < length (sg_readers s)" "\<not> sg_crashed s" "sg_readers s ! i = Decoding (map in_decode rs @ ds)" for i rs ds conn os
    using that by (intro reader_in_serving) (simp add: reader_at_def)
  ultimately show ?thesis using s put_completes [OF s] by (simp add: serving_inv_def)
qed

definition sample_serving :: serving where
  "sample_serving = serving_start \<lparr>sv_connType = ''unix'', sv_addr = ''/s'', sv_l = 1, sv_msgCh = make_chan 1,
     sv_closed = False\<rparr>"

theorem server_interleaves_witness:
  "\<exists>s. serve_step (\<lambda>fs. Inr []) (\<lambda>j. Inr sample_record) sample_serving s \<and> length (sg_readers s) = 1 \<and>
     length (buf (sg_ch s)) \<le> 1"
proof -
  have new: "server_New (\<lambda>t a. Inr 1) ''unix'' ''/s'' = Inr \<lparr>sv_connType = ''unix'', sv_addr = ''/s'', sv_l = 1,
      sv_msgCh = make_chan 1, sv_closed = False\<rparr>" by (simp add: server_New_def)
  let ?s = "sample_serving\<lparr>sg_readers := sg_readers sample_serving @ [Decoding [Inl EOF]],
    sg_streams := sg_streams sample_serving @ [[Inl EOF]]\<rparr>"
  have step: "serve_step (\<lambda>fs. Inr []) (\<lambda>j. Inr sample_record) sample_serving ?s"
    by (rule accepted_conn) (simp_all add: sample_serving_def serving_start_def)
  from server_interleaves [OF new r_into_rtranclp, OF step [unfolded sample_serving_def]] step
  show ?thesis
    by (intro exI [of _ ?s]) (simp add: sample_serving_def serving_start_def)
qed

end
