(* ===== verification/TestParams.thy ===== *)
theory TestParams
  imports Manager
begin

text \<open>
  \<open>audit/testing.go\<close>: the scripted answers that replace \<open>serviceMsg\<close>, \<open>write\<close> and \<open>newSender\<close> when the program
  runs under \<open>go test\<close>, and the conditions under which each is consulted. A nil slice or map is
  \<open>None\<close>; a slice cut down to nothing is not nil.
\<close>

record newSenderResp =
  sr_sender :: "msgSender option"
  sr_err :: "goerr option"

record testParams =
  serviceMsgVals :: "goerr option list option"
  writerVals :: "goerr option list option"
  writeCount :: "(Type \<Rightarrow> nat option) option"
  senders :: "newSenderResp list"

definition tp_serviceMsg :: "testParams \<Rightarrow> goerr option \<times> testParams" where
  "tp_serviceMsg t =
     (case serviceMsgVals t of
        Some (err # errs) \<Rightarrow> (err, t\<lparr>serviceMsgVals := Some errs\<rparr>)
      | _ \<Rightarrow> (None, t))"

definition tp_writer :: "testParams \<Rightarrow> Msg \<Rightarrow> (goerr option \<times> testParams) outcome" where
  "tp_writer t msg =
     (case writerVals t of
        Some (Some err # errs) \<Rightarrow> Done (Some err, t\<lparr>writerVals := Some errs\<rparr>)
      | Some (None # errs) \<Rightarrow>
          (let counts = (case writeCount t of None \<Rightarrow> Map.empty | Some f \<Rightarrow> f);
               n = (case counts (msg_Type msg) of None \<Rightarrow> 0 | Some k \<Rightarrow> k)
           in Done (None, t\<lparr>writerVals := Some errs, writeCount := Some (counts(msg_Type msg \<mapsto> n + 1))\<rparr>))
      | _ \<Rightarrow> Panics)"

definition tp_newSender :: "testParams \<Rightarrow> ((msgSender option \<times> goerr option) \<times> testParams) outcome" where
  "tp_newSender t =
     (case senders t of
        [] \<Rightarrow> Panics
      | resp # rest \<Rightarrow> Done ((sr_sender resp, sr_err resp), t\<lparr>senders := rest\<rparr>))"

definition mustNewMetrics :: "(string \<Rightarrow> goerr option) \<Rightarrow> metrics outcome" where
  "mustNewMetrics counter = (case newMetrics counter of Inl err \<Rightarrow> Panics | Inr m \<Rightarrow> Done m)"

section \<open>When the scripts are used\<close>

definition serviceMsg_scripted :: "bool \<Rightarrow> testParams option \<Rightarrow> bool" where
  "serviceMsg_scripted testing t \<longleftrightarrow>
     testing \<and> (case t of None \<Rightarrow> False | Some p \<Rightarrow> serviceMsgVals p \<noteq> None)"

definition write_scripted :: "bool \<Rightarrow> testParams option \<Rightarrow> bool" where
  "write_scripted testing t \<longleftrightarrow> testing \<and> (case t of None \<Rightarrow> False | Some p \<Rightarrow> writerVals p \<noteq> None)"

definition createSender_scripted :: "bool \<Rightarrow> testParams option \<Rightarrow> bool" where
  "createSender_scripted testing t \<longleftrightarrow> testing \<and> (case t of None \<Rightarrow> False | Some p \<Rightarrow> senders p \<noteq> [])"

text \<open>In the running program none of them is, and a scripted sender is never asked for one too many.\<close>

lemma never_scripted:
  "\<not> serviceMsg_scripted False t" "\<not> write_scripted False t" "\<not> createSender_scripted False t"
  by (simp_all add: serviceMsg_scripted_def write_scripted_def createSender_scripted_def)

lemma createSender_scripted_Done: "createSender_scripted b (Some t) \<Longrightarrow> \<exists>r t'. tp_newSender t = Done (r, t')"
  by (auto simp: createSender_scripted_def tp_newSender_def split: list.split)

text \<open>A script keeps being consulted after its last value: the sender then goes on with no error.\<close>

lemma serviceMsg_script_stays:
  "serviceMsg_scripted b (Some t) \<Longrightarrow> tp_serviceMsg t = (r, t') \<Longrightarrow> serviceMsg_scripted b (Some t')"
  by (auto simp: serviceMsg_scripted_def tp_serviceMsg_def split: option.splits list.splits)

section \<open>A scripted run of writes\<close>

text \<open>The loop of a test over \<open>tp_writer\<close>: the errors returned and the parameters left.\<close>

fun write_all :: "testParams \<Rightarrow> Msg list \<Rightarrow> (goerr option list \<times> testParams) outcome" where
  "write_all t [] = Done ([], t)"
| "write_all t (msg # ms) =
     bind_outcome (tp_writer t msg) (\<lambda>(r, t1). bind_outcome (write_all t1 ms) (\<lambda>(rs, t2). Done (r # rs, t2)))"

definition written :: "testParams \<Rightarrow> Type \<Rightarrow> nat" where
  "written t ty = (case writeCount t of None \<Rightarrow> 0 | Some f \<Rightarrow> (case f ty of None \<Rightarrow> 0 | Some k \<Rightarrow> k))"

definition succeeded :: "Type \<Rightarrow> Msg list \<Rightarrow> goerr option list \<Rightarrow> nat" where
  "succeeded ty ms rs = length (filter (\<lambda>(m, r). msg_Type m = ty \<and> r = None) (zip ms rs))"

lemma tp_writer_Done:
  assumes "writerVals t = Some (r # rs)"
  shows "\<exists>t'. tp_writer t msg = Done (r, t') \<and> writerVals t' = Some rs \<and>
    (\<forall>ty. written t' ty = written t ty + (if msg_Type msg = ty \<and> r = None then 1 else 0))"
  using assms by (cases r) (auto simp: tp_writer_def written_def Let_def split: option.split)

text \<open>
  With enough values in the script, the writes return them in order and the counts of each type
  grow by its successes.
\<close>

lemma write_all_script:
  assumes "writerVals t = Some (rs @ later)" and "length rs = length ms"
  shows "\<exists>t'. write_all t ms = Done (rs, t') \<and> writerVals t' = Some later \<and>
    (\<forall>ty. written t' ty = written t ty + succeeded ty ms rs)"
  using assms
proof (induction ms arbitrary: t rs)
  case Nil
  then show ?case by (simp add: succeeded_def)
next
  case (Cons msg ms)
  then obtain r rest where rs: "rs = r # rest" "length rest = length ms" by (cases rs) auto
  with Cons.prems(1) tp_writer_Done [of t r "rest @ later" msg] obtain t1 where
    t1: "tp_writer t msg = Done (r, t1)" "writerVals t1 = Some (rest @ later)"
      "\<forall>ty. written t1 ty = written t ty + (if msg_Type msg = ty \<and> r = None then 1 else 0)" by auto
  from Cons.IH [OF t1(2) rs(2)] obtain t2 where t2: "write_all t1 ms = Done (rest, t2)"
    "writerVals t2 = Some later" "\<forall>ty. written t2 ty = written t1 ty + succeeded ty ms rest" by blast
  have "succeeded ty (msg # ms) rs = (if msg_Type msg = ty \<and> r = None then 1 else 0) + succeeded ty ms rest" for ty
    by (simp add: succeeded_def rs(1))
  with t1 t2 rs(1) show ?case by auto
qed

end
