(* ===== verification/Spec2Isabelle.thy ===== *)
theory Spec2Isabelle
  imports EnumConstants WorldBounds WorldEnd WorldRuns WorldWire WorldLive WorldServer ServerRuns TestParams
begin

text \<open>
  A model of go-otel-audit, the client that sends audit records to a local agent, and what is proved of it.

  \<^bold>\<open>The program.\<close> A user calls \<open>Send\<close> on a \<open>Client\<close> (\<open>audit/audit.go\<close>) with a record
  (\<open>audit/msgs\<close>). The record is validated and put into a bounded queue. A message sender
  (\<open>audit/msgsender.go\<close>) takes messages from the queue and writes them, in MessagePack, to a
  connection (\<open>audit/conn\<close>); after the first message and then periodically it writes heartbeats. When a write
  fails the message goes back into the queue if there is room, the sender ends, and the connection manager
  makes a new sender with a back-off, until it succeeds or must give up; then the client is dead and \<open>Send\<close>
  refuses. Errors are reported on the channel of \<open>Notify\<close>. With a deferred connection a no-op sender
  drains the queue until the first real connection stands. \<open>internal/server\<close> is the server of the
  end-to-end tests.

  \<^bold>\<open>The theories.\<close>
  \<^item> \<open>Prelude\<close>, \<open>GoErrors\<close>, \<open>GoSlice\<close>, \<open>GoChan\<close>: what the source uses of Go and its library.
    Decimal printing, string slicing with its panic, ASCII folding, trimming; error values with
    \<open>errors.Is\<close>; slices as headers over a store of arrays, with \<open>slices.Sort\<close>, \<open>Compact\<close> and
    \<open>Clone\<close> writing or allocating there; buffered channels with non-blocking operations. The locale
    \<open>nonblocking_queue\<close> is the contract of a channel, interpreted by these operations.
  \<^item> \<open>Stringer\<close>, \<open>StringerFacts\<close>, \<open>Enums\<close>, \<open>EnumConstants\<close>: the enumerations of
    \<open>msgs.go\<close> with the generated \<open>*_string.go\<close> files, and \<open>unString\<close>. The index tables keep
    their word widths. The locale \<open>named_table\<close> is what a table must satisfy; all six tables do. Round
    trips, bounds of every table access, the constants and their generated checks.
  \<^item> \<open>NetAddr\<close>, \<open>Msgs\<close>, \<open>MsgsFacts\<close>: \<open>Addr\<close>, the records and messages, \<open>Validate\<close>, \<open>New\<close>,
    \<open>Clone\<close>. \<open>Validate\<close> is compared with the documented rules, shown independent of map order, and
    the aliasing of clones is settled.
  \<^item> \<open>Marshal\<close>: \<open>marshalPrep\<close> and \<open>MarshalMsgpack\<close>, which sort and compact the caller's own arrays.
  \<^item> \<open>Conn\<close>, \<open>ConnFacts\<close>: the connection types, the writer, the constructors; the locale
    \<open>audit_connection\<close> is what a sender relies on. Deadlines, and which socket is dialed.
  \<^item> \<open>Client\<close>, \<open>ClientFacts\<close>: the \<open>Client\<close> record (the struct's fields but those of the tests), metrics,
    options, \<open>Send\<close>, \<open>sendNotify\<close>, \<open>sendNotifyDead\<close>, background closes. The invariant is \<open>client_ok\<close>.
  \<^item> \<open>MsgSender\<close>, \<open>MsgSenderFacts\<close>, \<open>SenderRuns\<close>: one write, one service of a \<open>select\<close>, the
    sender loop. Every write accounts for its message; the loop never panics; the heartbeat protocol.
  \<^item> \<open>Manager\<close>, \<open>ManagerFacts\<close>, \<open>NewFacts\<close>, \<open>ManagerRuns\<close>: \<open>newSender\<close>, \<open>reconnect\<close>,
    \<open>manageSender\<close>, the deferred start, \<open>New\<close>. The manager ends only on a dead client whose newest
    notification names the cause; the background task panics only on a nil logger or a nil connection.
  \<^item> \<open>World\<close>, \<open>WorldFacts\<close>, \<open>WorldClaims\<close>, \<open>WorldBounds\<close>, \<open>WorldEnd\<close>, \<open>WorldWire\<close>, \<open>WorldLive\<close>: all of it interleaved, as a step relation over
    the operations of the other theories, with a history of every message and every write. A call of \<open>Send\<close> is three
    steps (it loads whether the client is dead, checks, puts), of any number of calls at once; a write is two, the
    connection's and the sender's own; the user's program may write to its records at any time. Every sender ever started is in the
    state and may act until its task has ended; starting its task may fail. The predicate \<open>crashes\<close> says where the program panics. Invariants by
    rule induction: FIFO order, exact accounting, all senders but the last have ended, death in order, bounded
    memory; the refinement of an abstract pipeline; the cause of a death reaches the user, and a
    hand-over or a death can always be completed. \<open>WorldWire\<close> has what each connection carries (the heartbeat protocol,
    the deadlines) and that it agrees with the counters; \<open>WorldLive\<close> that a client whose manager has not given up can always
    come back to a working sender and send what is queued, and in which states the program can panic. \<open>WorldServer\<close> reads with the test server what
    the network took.
  \<^item> \<open>WorldRuns\<close>: every run of the sender, the manager and the deferred start, as the functions have
    them, is a path of that step relation; a run that panics ends in a state of \<open>crashes\<close>.
  \<^item> \<open>Server\<close>, \<open>ServerFacts\<close>, \<open>ServerRuns\<close>: the test server, against what the client encodes, and with
    all its connections interleaved as a step relation, of which every run of \<open>readMsgs\<close> is a path.
  \<^item> \<open>Liveness\<close>, \<open>EndToEnd\<close>: on a working connection every write succeeds and the queue is drained, and
    what users send arrives on the server's channel.
  \<^item> \<open>TestParams\<close>: the scripted answers of \<open>audit/testing.go\<close>.

  \<^bold>\<open>State and effects.\<close> Structs are records, pointers that may be nil are options. A function
  that changes state takes it and returns it. An operation that may block or panic gives an
  \<open>outcome\<close>: \<open>Blocked\<close>, \<open>Panics\<close> or \<open>Done\<close>; where only a panic is possible, an option. Errors are
  values of \<open>goerr\<close>, with the wrapped errors in order. Maps are lists of entries in
  iteration order. Arrays that slices share live in the store \<open>mem\<close>; the client's field \<open>memory\<close> holds it.

  \<^bold>\<open>Time, choice and concurrency\<close> are arguments. A sender's loop runs over a list of rounds: which
  event the \<open>select\<close> takes, what the network answers, what other goroutines do meanwhile. The manager
  runs over a list of generations, \<open>sendNotifyDead\<close> over a schedule of what other users of the channel do.
  A run over such a list ends as \<open>Running\<close>, \<open>Serving\<close>, \<open>Waiting\<close> or \<open>None\<close> when the list ends before the
  code returns, and properties speak of these states too. How long a list must be is stated where it
  matters: the death notice needs more rounds than notices others put between its evictions, a queue
  needs one round per message. In \<open>World\<close> there are no lists: any step that is
  possible may be next; every run over lists is one of its runs (\<open>WorldRuns\<close>).

  \<^bold>\<open>Parameters and what is assumed of them.\<close> MessagePack and JSON codecs, \<open>netip\<close> parsing and printing,
  the Unicode case tables, \<open>os.Stat\<close>, dialing, the network's answers, \<open>uname\<close>, the meter's errors, a custom
  value's \<open>Clone\<close>. Of most of them nothing is assumed. The exceptions are named hypotheses: the
  format of short strings in MessagePack, that the decoder gives back what the encoder
  wrote, that JSON restores a record, and \<open>retry_contract\<close>, what the back-off library documents of
  \<open>Retry\<close>: it calls the operation until it succeeds, fails permanently or the context is
  cancelled; \<open>retry_for_contract\<close> shows a back-off that meets it.

  \<^bold>\<open>Not modelled.\<close> The text of errors beyond format and wrapped errors; the meter's
  exporters; Go's memory model. Two goroutines do not run inside one step of \<open>World\<close>, which is one operation on what they share, or
  several where nothing another goroutine does between them could be told from its coming before or after: an attempt of a reconnect (the
  count of closes, which others can only lower, \<open>CreateConn\<close>, the notice), and what a sender does with a write's result (the requeue, the
  counters, the notice; a counter may be read before the last of these is added). The eviction loop of a death notice is one step
  whose schedule has what others do within it. In the functions over lists a call of \<open>Send\<close> by others is whole.
  Nor is time passing modelled, so the 30 minutes between heartbeats and the 15 seconds of a deadline
  are only recorded; nor the package initialisers, nor the types the tests themselves define.
\<close>

end
